(* ===== verification/Prelude.thy ===== *)
theory Prelude
  imports Main "HOL-Library.Word"
begin

text \<open>
  Shared vocabulary of the development: names for the machine integer types of the C++
  sources, results of fallible operations (\<open>Inl\<close> an exception, \<open>Inr\<close> a value) with
  their sequencing operators, the collections of simplification rules that the component
  theories fill, and the generic facts on sums, lists and words that several of them use.
\<close>

section \<open>Collections\<close>

named_theorems result_simps \<open>rewriting of sequenced fallible operations\<close>
named_theorems tracker_defs \<open>definitions of the two sequence trackers\<close>
named_theorems client_defs \<open>definitions of the atomic sections of the client\<close>

section \<open>Machine integers\<close>

type_synonym u8 = "8 word"
type_synonym u16 = "16 word"
type_synonym u32 = "32 word"
type_synonym u64 = "64 word"

text \<open>
  Signed 32-bit values and the ticks of the steady clock are integers; where the sources
  compute with them, the range is a theorem.
\<close>

section \<open>Results of fallible operations\<close>

text \<open>
  The exception classes of the sources, each with its message. \<open>UndefinedBehaviour\<close> marks
  a C++ operation whose result the language does not define, \<open>Terminated\<close> a call of
  \<open>std::terminate\<close>.
\<close>

datatype exn =
    InvalidArgument string
  | DiscoveryError string
  | ProtocolError string
  | RuntimeError string
  | LogicError string
  | NotConnectedError string
  | UndefinedBehaviour
  | Terminated

fun what :: "exn \<Rightarrow> string" where
  "what (InvalidArgument m) = m"
| "what (DiscoveryError m) = m"
| "what (ProtocolError m) = m"
| "what (RuntimeError m) = m"
| "what (LogicError m) = m"
| "what (NotConnectedError m) = m"
| "what UndefinedBehaviour = []"
| "what Terminated = []"

type_synonym ('e, 'a) result = "'e + 'a"

definition bind_result :: "('e, 'a) result \<Rightarrow> ('a \<Rightarrow> ('e, 'b) result) \<Rightarrow> ('e, 'b) result" where
  "bind_result r k = (case r of Inl e \<Rightarrow> Inl e | Inr v \<Rightarrow> k v)"

definition throw_if :: "bool \<Rightarrow> 'e \<Rightarrow> ('e, unit) result" where
  "throw_if c e = (if c then Inl e else Inr ())"

definition map_error :: "('e \<Rightarrow> 'f) \<Rightarrow> ('e, 'a) result \<Rightarrow> ('f, 'a) result" where
  "map_error f r = (case r of Inl e \<Rightarrow> Inl (f e) | Inr v \<Rightarrow> Inr v)"

definition is_ok :: "('e, 'a) result \<Rightarrow> bool" where
  "is_ok r = (case r of Inl _ \<Rightarrow> False | Inr _ \<Rightarrow> True)"

lemma bind_result_simps [simp, result_simps]:
  "bind_result (Inl e) k = Inl e"
  "bind_result (Inr v) k = k v"
  by (simp_all add: bind_result_def)

lemma bind_result_eq_Inr_iff [result_simps]:
  "bind_result r k = Inr w \<longleftrightarrow> (\<exists>v. r = Inr v \<and> k v = Inr w)"
  by (cases r) auto

lemma bind_result_eq_Inl_iff [result_simps]:
  "bind_result r k = Inl e \<longleftrightarrow> r = Inl e \<or> (\<exists>v. r = Inr v \<and> k v = Inl e)"
  by (cases r) auto

lemma throw_if_simps [simp, result_simps]:
  "throw_if True e = Inl e"
  "throw_if False e = Inr ()"
  by (simp_all add: throw_if_def)

lemma throw_if_eq_Inr_iff [simp, result_simps]: "throw_if c e = Inr u \<longleftrightarrow> \<not> c"
  by (simp add: throw_if_def)

lemma throw_if_eq_Inl_iff [simp, result_simps]: "throw_if c e = Inl e' \<longleftrightarrow> c \<and> e' = e"
  by (auto simp: throw_if_def)

lemma map_error_simps [simp, result_simps]:
  "map_error f (Inl e) = Inl (f e)"
  "map_error f (Inr v) = Inr v"
  by (simp_all add: map_error_def)

lemma map_error_eq_Inr_iff [simp, result_simps]: "map_error f r = Inr v \<longleftrightarrow> r = Inr v"
  by (cases r) auto

lemma is_ok_simps [simp]: "is_ok (Inr v)" "\<not> is_ok (Inl e)"
  by (simp_all add: is_ok_def)

lemma is_ok_iff: "is_ok r \<longleftrightarrow> (\<exists>v. r = Inr v)"
  by (cases r) auto

lemma is_ok_bind_result [result_simps]:
  "is_ok (bind_result r k) \<longleftrightarrow> (\<exists>v. r = Inr v \<and> is_ok (k v))"
  by (cases r) auto

lemma is_ok_throw_if [simp, result_simps]: "is_ok (throw_if c e) \<longleftrightarrow> \<not> c"
  by (simp add: throw_if_def)

section \<open>Running a stateful operation over a list of inputs\<close>

fun observe_all :: "('t \<Rightarrow> 'x \<Rightarrow> 'k \<times> 't) \<Rightarrow> 't \<Rightarrow> 'x list \<Rightarrow> 'k list \<times> 't" where
  "observe_all f t [] = ([], t)"
| "observe_all f t (x # xs) =
     (case f t x of (k, t') \<Rightarrow> (case observe_all f t' xs of (ks, t'') \<Rightarrow> (k # ks, t'')))"

lemma observe_all_Cons_proj [simp]:
  "fst (observe_all f t (x # xs)) = fst (f t x) # fst (observe_all f (snd (f t x)) xs)"
  "snd (observe_all f t (x # xs)) = snd (observe_all f (snd (f t x)) xs)"
  by (auto split: prod.splits)

declare observe_all.simps(2) [simp del]

lemma length_observe_all [simp]: "length (fst (observe_all f t xs)) = length xs"
  by (induction xs arbitrary: t) auto

lemma observe_all_append [simp]:
  "fst (observe_all f t (xs @ ys)) =
     fst (observe_all f t xs) @ fst (observe_all f (snd (observe_all f t xs)) ys)"
  "snd (observe_all f t (xs @ ys)) = snd (observe_all f (snd (observe_all f t xs)) ys)"
  by (induction xs arbitrary: t) auto

lemma observe_all_invariant:
  assumes "P t" and "\<And>t x. P t \<Longrightarrow> P (snd (f t x))"
  shows "P (snd (observe_all f t xs))"
  using assms(1) by (induction xs arbitrary: t) (auto intro: assms(2))

section \<open>Strings\<close>

text \<open>\<open>std::to_string\<close> of an unsigned and of a signed integer.\<close>

definition digit_char :: "nat \<Rightarrow> char" where
  "digit_char d = char_of (48 + d)"

fun to_string_nat :: "nat \<Rightarrow> string" where
  "to_string_nat n =
     (if n < 10 then [digit_char n] else to_string_nat (n div 10) @ [digit_char (n mod 10)])"

declare to_string_nat.simps [simp del]

definition to_string_int :: "int \<Rightarrow> string" where
  "to_string_int n =
     (if n < 0 then CHR ''-'' # to_string_nat (nat (- n)) else to_string_nat (nat n))"

text \<open>A C string ends at its first NUL.\<close>

definition c_str :: "string \<Rightarrow> string" where
  "c_str s = takeWhile (\<lambda>c. c \<noteq> CHR 0x00) s"

text \<open>The names of a list with a separator between two of them.\<close>

fun join :: "string \<Rightarrow> string list \<Rightarrow> string" where
  "join sep [] = []"
| "join sep [x] = x"
| "join sep (x # y # xs) = x @ sep @ join sep (y # xs)"

lemma join_snoc: "xs \<noteq> [] \<Longrightarrow> join sep (xs @ [y]) = join sep xs @ sep @ y"
  by (induction sep xs rule: join.induct) auto

lemma join_eq_Nil: "\<forall>x \<in> set xs. x \<noteq> [] \<Longrightarrow> join sep xs = [] \<longleftrightarrow> xs = []"
  by (cases "(sep, xs)" rule: join.cases) auto

section \<open>Words\<close>

lemma unat_of_int_mod_32: "unat (word_of_int k :: u32) = nat (k mod 2 ^ 32)"
  by (simp add: unat_eq_nat_uint uint_word_of_int)

lemma word_of_int_diff_32: "(word_of_int a - word_of_int b :: u32) = word_of_int (a - b)"
  by (simp add: wi_hom_syms)

lemma word_of_int_eq_iff_32:
  "(word_of_int a :: u32) = word_of_int b \<longleftrightarrow> a mod 2 ^ 32 = b mod 2 ^ 32"
  by (simp add: word_of_int_eq_iff take_bit_eq_mod)

lemma unat_diff_32:
  fixes a b :: u32
  shows "unat (a - b) = (if unat b \<le> unat a then unat a - unat b else unat a + 2 ^ 32 - unat b)"
  using unat_sub_if' [of a b] by simp

lemmas u32_arith = word_less_nat_alt word_le_nat_alt unat_diff_32 word_unat_eq_iff

end
