(* ===== verification/Sequence.thy ===== *)
theory Sequence
  imports Prelude
begin

text \<open>
  Model of \<open>src/src/detail/sequence.hpp\<close> and \<open>sequence.cpp\<close>: the tracker of the RDT
  packet counter (gaps, duplicates, reordering on a wrapping 32-bit counter) and the tracker
  of the force/torque counter (stall, backward motion, confirmed device restart). The second
  half states the abstract meaning of both: the RDT tracker is refined from a tracker over
  unbounded counters, and the FT tracker reports a restart only after a recorded candidate.
\<close>

section \<open>The RDT tracker\<close>

datatype SequenceKind = SeqFirst | Contiguous | Gap | Duplicate | OutOfOrder

record SequenceObservation =
  kind :: SequenceKind
  gap :: u32

record RdtSequenceTracker =
  rdt_has_last :: bool
  rdt_previous :: u32

definition RdtSequenceTracker_init :: RdtSequenceTracker where
  "RdtSequenceTracker_init = \<lparr>rdt_has_last = False, rdt_previous = 0\<rparr>"

definition rdt_observe ::
    "RdtSequenceTracker \<Rightarrow> u32 \<Rightarrow> SequenceObservation \<times> RdtSequenceTracker" where
  [tracker_defs]: "rdt_observe t current =
     (if \<not> rdt_has_last t then
        (\<lparr>kind = SeqFirst, gap = 0\<rparr>, t\<lparr>rdt_has_last := True, rdt_previous := current\<rparr>)
      else
        let delta = current - rdt_previous t in
        if delta = 0 then (\<lparr>kind = Duplicate, gap = 0\<rparr>, t)
        else if delta < 0x80000000 then
          (if delta = 1 then \<lparr>kind = Contiguous, gap = 0\<rparr> else \<lparr>kind = Gap, gap = delta - 1\<rparr>,
           t\<lparr>rdt_previous := current\<rparr>)
        else (\<lparr>kind = OutOfOrder, gap = 0\<rparr>, t))"

definition rdt_reset :: "RdtSequenceTracker \<Rightarrow> RdtSequenceTracker" where
  [tracker_defs]: "rdt_reset t = t\<lparr>rdt_has_last := False\<rparr>"

section \<open>The FT tracker\<close>

datatype FtSequenceKind = FtFirst | Forward | Stall | Backward | Restart

record FtSequenceTracker =
  ft_has_last :: bool
  ft_previous :: u32
  ft_has_restart_candidate :: bool
  ft_restart_candidate :: u32

definition FtSequenceTracker_init :: FtSequenceTracker where
  "FtSequenceTracker_init =
     \<lparr>ft_has_last = False, ft_previous = 0, ft_has_restart_candidate = False,
      ft_restart_candidate = 0\<rparr>"

definition kRestartLowMax :: u32 where
  "kRestartLowMax = 0x0000ffff"

definition kRestartMinBaseline :: u32 where
  "kRestartMinBaseline = kRestartLowMax + 1"

definition ft_begin_session :: "FtSequenceTracker \<Rightarrow> FtSequenceTracker" where
  [tracker_defs]: "ft_begin_session t = t\<lparr>ft_has_restart_candidate := False\<rparr>"

definition ft_observe :: "FtSequenceTracker \<Rightarrow> u32 \<Rightarrow> FtSequenceKind \<times> FtSequenceTracker" where
  [tracker_defs]: "ft_observe t current =
     (if \<not> ft_has_last t then
        (FtFirst, t\<lparr>ft_has_last := True, ft_previous := current\<rparr>)
      else if current = ft_previous t then
        (Stall, t\<lparr>ft_has_restart_candidate := False\<rparr>)
      else if current - ft_previous t < 0x80000000 then
        (Forward, t\<lparr>ft_previous := current, ft_has_restart_candidate := False\<rparr>)
      else if ft_previous t \<ge> kRestartMinBaseline \<and> ft_has_restart_candidate t
              \<and> ft_restart_candidate t \<le> kRestartLowMax \<and> current \<le> kRestartLowMax
              \<and> current - ft_restart_candidate t > 0
              \<and> current - ft_restart_candidate t < 0x80000000 then
        (Restart, t\<lparr>ft_previous := current, ft_has_restart_candidate := False\<rparr>)
      else
        (Backward, t\<lparr>ft_restart_candidate := current, ft_has_restart_candidate := True\<rparr>))"

section \<open>The contract the two trackers share\<close>

text \<open>
  The client uses both trackers through the same interface: \<open>observe\<close>, \<open>has_last\<close> and
  \<open>last\<close>. The locale states what it relies on, and derives what a whole run guarantees.
\<close>

locale counter_tracker =
  fixes observe :: "'t \<Rightarrow> u32 \<Rightarrow> 'k \<times> 't"
    and has_last :: "'t \<Rightarrow> bool"
    and last_value :: "'t \<Rightarrow> u32"
  assumes observe_has_last: "has_last (snd (observe t x))"
    and observe_first: "\<not> has_last t \<Longrightarrow> last_value (snd (observe t x)) = x"
    and observe_last: "has_last t \<Longrightarrow>
          last_value (snd (observe t x)) = x \<or> last_value (snd (observe t x)) = last_value t"
    and observe_repeat: "has_last t \<Longrightarrow> x = last_value t \<Longrightarrow>
          last_value (snd (observe t x)) = last_value t"
begin

lemma observe_all_has_last:
  "has_last t \<or> xs \<noteq> [] \<Longrightarrow> has_last (snd (observe_all observe t xs))"
proof (induction xs arbitrary: t)
  case Nil
  then show ?case by simp
next
  case (Cons x xs)
  show ?case by (simp add: Cons.IH observe_has_last)
qed

lemma observe_all_last_from:
  "has_last t \<Longrightarrow>
     last_value (snd (observe_all observe t xs)) \<in> insert (last_value t) (set xs)"
proof (induction xs arbitrary: t)
  case Nil
  then show ?case by simp
next
  case (Cons x xs)
  have "last_value (snd (observe_all observe (snd (observe t x)) xs))
          \<in> insert (last_value (snd (observe t x))) (set xs)"
    by (rule Cons.IH) (rule observe_has_last)
  with observe_last [OF Cons.prems, of x] show ?case by auto
qed

lemma observe_all_last:
  assumes "\<not> has_last t" and "xs \<noteq> []"
  shows "last_value (snd (observe_all observe t xs)) \<in> set xs"
proof -
  obtain x ys where xs: "xs = x # ys" using assms(2) by (cases xs) auto
  have "last_value (snd (observe t x)) = x" using assms(1) by (rule observe_first)
  with observe_all_last_from [OF observe_has_last, of t x ys] show ?thesis
    by (simp add: xs)
qed

end

interpretation rdt: counter_tracker rdt_observe rdt_has_last rdt_previous
  by unfold_locales (auto simp: tracker_defs Let_def)

interpretation ft: counter_tracker ft_observe ft_has_last ft_previous
  by unfold_locales (auto simp: tracker_defs Let_def)

section \<open>Abstract RDT tracking over unbounded counters\<close>

text \<open>
  The device counts packets; the wire carries the count modulo \<open>2 ^ 32\<close>. The abstract
  tracker compares true counts. It is what the code computes as long as every observed
  count lies within half the counter range of the highest count accepted so far.
\<close>

fun abs_observe :: "int option \<Rightarrow> int \<Rightarrow> (SequenceKind \<times> int) \<times> int option" where
  "abs_observe None x = ((SeqFirst, 0), Some x)"
| "abs_observe (Some p) x =
     (if x = p then ((Duplicate, 0), Some p)
      else if p < x then
        (if x = p + 1 then (Contiguous, 0) else (Gap, x - p - 1), Some x)
      else ((OutOfOrder, 0), Some p))"

definition in_window :: "int \<Rightarrow> int \<Rightarrow> bool" where
  "in_window p x \<longleftrightarrow> p - 2 ^ 31 \<le> x \<and> x < p + 2 ^ 31"

fun windowed :: "int option \<Rightarrow> int list \<Rightarrow> bool" where
  "windowed p [] = True"
| "windowed None (x # xs) = windowed (Some x) xs"
| "windowed (Some p) (x # xs) = (in_window p x \<and> windowed (Some (max p x)) xs)"

definition wire :: "int \<Rightarrow> u32" where
  "wire x = word_of_int x"

definition wire_observation :: "SequenceKind \<times> int \<Rightarrow> SequenceObservation" where
  "wire_observation kg = \<lparr>kind = fst kg, gap = wire (snd kg)\<rparr>"

definition rdt_rel :: "int option \<Rightarrow> RdtSequenceTracker \<Rightarrow> bool" where
  "rdt_rel p t \<longleftrightarrow>
     (case p of None \<Rightarrow> \<not> rdt_has_last t
      | Some x \<Rightarrow> rdt_has_last t \<and> rdt_previous t = wire x)"

lemma wire_diff: "wire x - wire p = wire (x - p)"
  unfolding wire_def by (rule word_of_int_diff_32)

lemma wire_small_eq:
  assumes "0 \<le> k" "k < 2 ^ 32" "0 \<le> m" "m < 2 ^ 32"
  shows "wire k = wire m \<longleftrightarrow> k = m"
  using assms by (simp add: wire_def word_of_int_eq_iff_32)

lemma unat_wire_small: "0 \<le> k \<Longrightarrow> k < 2 ^ 32 \<Longrightarrow> unat (wire k) = nat k"
  by (simp add: wire_def unat_of_int_mod_32)

lemma wire_forward:
  assumes "0 < k" "k < 2 ^ 31"
  shows "wire k \<noteq> 0" "wire k < 0x80000000" "wire k = 1 \<longleftrightarrow> k = 1" "wire k - 1 = wire (k - 1)"
proof -
  have u: "unat (wire k) = nat k" using assms by (simp add: unat_wire_small)
  show "wire k \<noteq> 0" using u assms by (metis nat_0_iff not_le unat_0)
  show "wire k < 0x80000000" using u assms by (simp add: word_less_nat_alt)
  show "wire k = 1 \<longleftrightarrow> k = 1" using wire_small_eq [of k 1] assms by (simp add: wire_def)
  show "wire k - 1 = wire (k - 1)" using wire_diff [of k 1] by (simp add: wire_def)
qed

lemma wire_backward:
  assumes "- (2 ^ 31) \<le> k" "k < 0"
  shows "wire k \<noteq> 0" "\<not> wire k < 0x80000000"
proof -
  have "k mod 2 ^ 32 = (k + 2 ^ 32) mod 2 ^ 32" by simp
  also have "\<dots> = k + 2 ^ 32" using assms by (intro mod_pos_pos_trivial) auto
  finally have u: "unat (wire k) = nat (k + 2 ^ 32)"
    by (simp add: wire_def unat_of_int_mod_32)
  have "2 ^ 31 \<le> k + 2 ^ 32" using assms by simp
  then have "2147483648 \<le> unat (wire k)" unfolding u by simp
  then show "wire k \<noteq> 0" "\<not> wire k < 0x80000000" by (auto simp: word_less_nat_alt)
qed

lemma abs_observe_refined:
  assumes rel: "rdt_rel p t" and win: "\<And>q. p = Some q \<Longrightarrow> in_window q x"
  shows "fst (rdt_observe t (wire x)) = wire_observation (fst (abs_observe p x))"
    and "rdt_rel (snd (abs_observe p x)) (snd (rdt_observe t (wire x)))"
proof -
  have "fst (rdt_observe t (wire x)) = wire_observation (fst (abs_observe p x)) \<and>
        rdt_rel (snd (abs_observe p x)) (snd (rdt_observe t (wire x)))"
  proof (cases p)
    case None
    with rel show ?thesis
      by (simp add: rdt_rel_def rdt_observe_def wire_observation_def) (simp add: wire_def)
  next
    case (Some q)
    have t: "rdt_has_last t" "rdt_previous t = wire q" using rel Some by (simp_all add: rdt_rel_def)
    have d: "wire x - rdt_previous t = wire (x - q)" by (simp add: t wire_diff)
    have w: "- (2 ^ 31) \<le> x - q" "x - q < 2 ^ 31"
      using win [OF Some] by (simp_all add: in_window_def)
    have z: "wire 0 = 0" by (simp add: wire_def)
    consider "x = q" | "q < x" | "x < q" by linarith
    then show ?thesis
    proof cases
      case 1
      with Some t show ?thesis
        by (simp add: rdt_rel_def rdt_observe_def wire_observation_def z)
    next
      case 2
      then have "0 < x - q" by simp
      from wire_forward [OF this w(2)] 2 Some t d show ?thesis
        by (auto simp: rdt_rel_def rdt_observe_def wire_observation_def Let_def z)
    next
      case 3
      then have "x - q < 0" by simp
      from wire_backward [OF w(1) this] 3 Some t d show ?thesis
        by (auto simp: rdt_rel_def rdt_observe_def wire_observation_def Let_def z)
    qed
  qed
  then show "fst (rdt_observe t (wire x)) = wire_observation (fst (abs_observe p x))"
    and "rdt_rel (snd (abs_observe p x)) (snd (rdt_observe t (wire x)))" by simp_all
qed

lemma rdt_refines_abstract:
  "rdt_rel p t \<Longrightarrow> windowed p xs \<Longrightarrow>
     fst (observe_all rdt_observe t (map wire xs)) =
       map wire_observation (fst (observe_all abs_observe p xs))"
proof (induction xs arbitrary: p t)
  case Nil
  then show ?case by simp
next
  case (Cons x xs)
  have win: "in_window q x" if "p = Some q" for q using Cons.prems(2) that by simp
  have "windowed (snd (abs_observe p x)) xs"
    using Cons.prems(2) by (cases p) (auto simp: max_def split: if_splits)
  with Cons.IH [OF abs_observe_refined(2) [OF Cons.prems(1) win]]
       abs_observe_refined(1) [OF Cons.prems(1) win]
  show ?case by simp
qed

section \<open>Loss accounting\<close>

definition accepted :: "SequenceKind \<Rightarrow> bool" where
  "accepted k \<longleftrightarrow> k = SeqFirst \<or> k = Contiguous \<or> k = Gap"

lemma abs_accounting_from:
  "(\<Sum>o' \<leftarrow> fst (observe_all abs_observe (Some p) xs). snd o') +
   int (length (filter (accepted \<circ> fst) (fst (observe_all abs_observe (Some p) xs)))) =
   Max (insert p (set xs)) - p"
proof (induction xs arbitrary: p)
  case Nil
  then show ?case by simp
next
  case (Cons x xs)
  have m: "Max (insert p (insert x (set xs))) = Max (insert (max p x) (set xs))"
    by (cases "set xs = {}") (auto simp: max.assoc max.left_commute)
  consider "x = p" | "p < x" | "x < p" by linarith
  then show ?case
    using Cons.IH [of p] Cons.IH [of x] m
    by cases (auto simp: accepted_def max_def split: if_splits)
qed

lemma abs_accounting:
  "xs \<noteq> [] \<Longrightarrow>
   (\<Sum>o' \<leftarrow> fst (observe_all abs_observe None xs). snd o') +
   int (length (filter (accepted \<circ> fst) (fst (observe_all abs_observe None xs)))) =
   Max (set xs) - hd xs + 1"
  by (cases xs) (auto simp: abs_accounting_from [simplified] accepted_def)

lemma abs_gap_bounds:
  "windowed p xs \<Longrightarrow> o' \<in> set (fst (observe_all abs_observe p xs)) \<Longrightarrow>
     0 \<le> snd o' \<and> snd o' < 2 ^ 31"
proof (induction xs arbitrary: p)
  case Nil
  then show ?case by simp
next
  case (Cons x xs)
  have w: "windowed (snd (abs_observe p x)) xs"
    using Cons.prems(1) by (cases p) (auto simp: max_def split: if_splits)
  have h: "0 \<le> snd (fst (abs_observe p x)) \<and> snd (fst (abs_observe p x)) < 2 ^ 31"
    using Cons.prems(1) by (cases p) (auto simp: in_window_def)
  from Cons.prems(2) have "o' = fst (abs_observe p x) \<or>
      o' \<in> set (fst (observe_all abs_observe (snd (abs_observe p x)) xs))" by simp
  then show ?case using h Cons.IH [OF w] by blast
qed

lemma rdt_init_rel: "rdt_rel None RdtSequenceTracker_init"
  by (simp add: rdt_rel_def RdtSequenceTracker_init_def)

section \<open>Sessions of the FT tracker\<close>

datatype FtEvent = FtObserve u32 | FtBeginSession

fun ft_step :: "FtSequenceTracker \<Rightarrow> FtEvent \<Rightarrow> FtSequenceKind option \<times> FtSequenceTracker" where
  "ft_step t (FtObserve x) = (Some (fst (ft_observe t x)), snd (ft_observe t x))"
| "ft_step t FtBeginSession = (None, ft_begin_session t)"

text \<open>
  The candidate flag of the tracker says exactly that the last event was reported as a
  backward movement, and the candidate is the counter of that event.
\<close>

definition ft_candidate_rel ::
    "FtEvent list \<Rightarrow> FtSequenceKind option list \<Rightarrow> FtSequenceTracker \<Rightarrow> bool" where
  "ft_candidate_rel es ks t \<longleftrightarrow>
     length ks = length es \<and>
     (ft_has_restart_candidate t \<longrightarrow>
        ft_has_last t \<and> es \<noteq> [] \<and> last ks = Some Backward \<and>
        last es = FtObserve (ft_restart_candidate t))"

lemma ft_candidate_rel_run:
  "ft_candidate_rel es (fst (observe_all ft_step FtSequenceTracker_init es))
     (snd (observe_all ft_step FtSequenceTracker_init es))"
proof (induction es rule: rev_induct)
  case Nil
  show ?case by (simp add: ft_candidate_rel_def FtSequenceTracker_init_def)
next
  case (snoc e es)
  then show ?case
    by (cases e) (auto simp: ft_candidate_rel_def ft_observe_def ft_begin_session_def)
qed

text \<open>The counters a run has accepted so far; the last of them is what the tracker compares with.\<close>

fun ft_accepts :: "FtEvent \<times> FtSequenceKind option \<Rightarrow> u32 list" where
  "ft_accepts (FtObserve x, Some k) = (if k \<in> {FtFirst, Forward, Restart} then [x] else [])"
| "ft_accepts _ = []"

definition ft_accepted :: "FtEvent list \<Rightarrow> FtSequenceKind option list \<Rightarrow> u32 list" where
  "ft_accepted es ks = concat (map ft_accepts (zip es ks))"

lemma ft_observe_previous:
  "ft_has_last (snd (ft_observe t x))"
  "fst (ft_observe t x) \<in> {FtFirst, Forward, Restart} \<Longrightarrow> ft_previous (snd (ft_observe t x)) = x"
  "fst (ft_observe t x) \<notin> {FtFirst, Forward, Restart} \<Longrightarrow>
     ft_has_last t \<and> ft_previous (snd (ft_observe t x)) = ft_previous t"
  by (simp_all add: ft_observe_def split: if_splits)

lemma ft_previous_accepted:
  fixes es :: "FtEvent list"
  defines "ks \<equiv> fst (observe_all ft_step FtSequenceTracker_init es)"
    and "t \<equiv> snd (observe_all ft_step FtSequenceTracker_init es)"
  shows "(ft_has_last t \<longleftrightarrow> ft_accepted es ks \<noteq> []) \<and> (ft_has_last t \<longrightarrow> ft_previous t = last (ft_accepted es ks))"
  unfolding ks_def t_def
proof (induction es rule: rev_induct)
  case Nil
  show ?case by (simp add: ft_accepted_def FtSequenceTracker_init_def)
next
  case (snoc e es)
  have a: "ft_accepted (es @ [e']) (fst (observe_all ft_step FtSequenceTracker_init es) @ [k]) =
      ft_accepted es (fst (observe_all ft_step FtSequenceTracker_init es)) @ ft_accepts (e', k)" for e' k
    by (simp add: ft_accepted_def)
  show ?case
  proof (cases e)
    case (FtObserve x)
    let ?t = "snd (observe_all ft_step FtSequenceTracker_init es)"
    show ?thesis
      using snoc ft_observe_previous [of ?t x]
      by (cases "fst (ft_observe ?t x) \<in> {FtFirst, Forward, Restart}") (simp_all add: FtObserve a)
  qed (use snoc in \<open>simp add: a ft_begin_session_def\<close>)
qed

lemma take_observe_all:
  "take i (fst (observe_all f t xs)) = fst (observe_all f t (take i xs))"
proof (induction xs arbitrary: i t)
  case Nil
  then show ?case by simp
next
  case (Cons x xs)
  then show ?case by (cases i) simp_all
qed

lemma word_sub_pos_less:
  fixes c d :: u32
  assumes "c \<le> 0xffff" "d \<le> 0xffff" "0 < d - c" "d - c < 0x80000000"
  shows "c < d"
  using assms by (auto simp: u32_arith split: if_splits)

lemma ft_observe_Restart:
  assumes "fst (ft_observe t x) = Restart"
  shows "ft_has_last t" "ft_has_restart_candidate t" "kRestartMinBaseline \<le> ft_previous t"
    "ft_restart_candidate t < x" "x \<le> kRestartLowMax"
  using assms
  by (auto simp: ft_observe_def kRestartLowMax_def split: if_splits intro: word_sub_pos_less)

lemma ft_run_nth:
  assumes "i < length es"
  shows "fst (observe_all ft_step t es) ! i =
           fst (ft_step (snd (observe_all ft_step t (take i es))) (es ! i))"
  using assms
proof (induction es arbitrary: t i)
  case Nil
  then show ?case by simp
next
  case (Cons e es)
  then show ?case by (cases i) auto
qed

lemma low_counter_backward:
  fixes c p :: u32
  assumes "0x10000 \<le> p" "p \<le> 0x80000000" "c \<le> 0xffff"
  shows "c \<noteq> p" "\<not> c - p < 0x80000000"
  using assms by (auto simp: u32_arith)

lemma low_counter_increasing:
  fixes c d :: u32
  assumes "c < d" "d \<le> 0xffff"
  shows "0 < d - c" "d - c < 0x80000000"
  using assms by (auto simp: u32_arith)

section \<open>Properties\<close>

text \<open>
  C8. RDT tracking refines tracking over unbounded counters: for packets whose true counts
  stay within half the counter range of the highest count seen, the code classifies every
  packet and sizes every gap as a tracker over true counts would, also across wrap-around.
\<close>

theorem rdt_tracking_refines_counts:
  assumes "windowed None xs"
  shows "fst (observe_all rdt_observe RdtSequenceTracker_init (map wire xs)) =
           map wire_observation (fst (observe_all abs_observe None xs))"
  using rdt_init_rel assms by (rule rdt_refines_abstract)

theorem rdt_tracking_refines_counts_witness:
  "windowed None [4294967294, 4294967295, 4294967298, 4294967296, 4294967298] \<and>
   map kind (fst (observe_all rdt_observe RdtSequenceTracker_init
     (map wire [4294967294, 4294967295, 4294967298, 4294967296, 4294967298]))) =
     [SeqFirst, Contiguous, Gap, OutOfOrder, Duplicate]"
proof -
  have h: "windowed None [4294967294, 4294967295, 4294967298, 4294967296, 4294967298]"
    by (simp add: in_window_def)
  show ?thesis
    using h unfolding rdt_tracking_refines_counts [OF h] by (simp add: wire_observation_def)
qed

text \<open>
  C22. Loss accounting: over any stream in the window, the gaps the tracker reports plus the
  packets it accepts add up to the span from the first count to the highest one, so nothing
  is lost twice and nothing goes unaccounted.
\<close>

theorem rdt_loss_accounting:
  assumes "xs \<noteq> []" and "windowed None xs"
  shows "(\<Sum>ob \<leftarrow> fst (observe_all rdt_observe RdtSequenceTracker_init (map wire xs)).
            int (unat (gap ob))) +
         int (length (filter (accepted \<circ> kind)
            (fst (observe_all rdt_observe RdtSequenceTracker_init (map wire xs))))) =
         Max (set xs) - hd xs + 1"
proof -
  let ?os = "fst (observe_all abs_observe None xs)"
  have gap: "int (unat (gap (wire_observation ob))) = snd ob" if "ob \<in> set ?os" for ob
    using abs_gap_bounds [OF assms(2) that] by (simp add: wire_observation_def unat_wire_small)
  have "(\<Sum>ob \<leftarrow> map wire_observation ?os. int (unat (gap ob))) = (\<Sum>ob \<leftarrow> ?os. snd ob)"
    using gap by (simp add: o_def cong: map_cong)
  moreover have "length (filter (accepted \<circ> kind) (map wire_observation ?os)) =
      length (filter (accepted \<circ> fst) ?os)"
    by (simp add: filter_map o_def wire_observation_def)
  ultimately show ?thesis
    unfolding rdt_refines_abstract [OF rdt_init_rel assms(2)]
    by (simp add: abs_accounting [OF assms(1)])
qed

theorem rdt_loss_accounting_witness:
  "(\<Sum>ob \<leftarrow> fst (observe_all rdt_observe RdtSequenceTracker_init (map wire [7, 10, 9])).
      int (unat (gap ob))) +
   int (length (filter (accepted \<circ> kind)
      (fst (observe_all rdt_observe RdtSequenceTracker_init (map wire [7, 10, 9]))))) = 4"
  using rdt_loss_accounting [of "[7, 10, 9]"] by (simp add: in_window_def)

text \<open>
  C34. A device restart is never reported on one packet alone, nor from a low counter: every
  \<open>Restart\<close> in a run is immediately preceded, within the same session, by a packet reported
  \<open>Backward\<close>, the two carry increasing counters in the low range, and the last counter
  accepted before them is above that range.
\<close>

theorem ft_restart_needs_candidate:
  assumes "i < length es"
    and "fst (observe_all ft_step FtSequenceTracker_init es) ! i = Some Restart"
  shows "\<exists>c d. 0 < i \<and> fst (observe_all ft_step FtSequenceTracker_init es) ! (i - 1) = Some Backward
     \<and> es ! (i - 1) = FtObserve c \<and> es ! i = FtObserve d \<and> c < d \<and> d \<le> 0xffff
     \<and> (let baseline = ft_accepted (take i es) (take i (fst (observe_all ft_step FtSequenceTracker_init es)))
        in baseline \<noteq> [] \<and> 0x10000 \<le> last baseline)"
proof -
  let ?es = "take i es" and ?run = "observe_all ft_step FtSequenceTracker_init"
  from assms obtain d where d: "es ! i = FtObserve d" "fst (ft_observe (snd (?run ?es)) d) = Restart"
    by (cases "es ! i") (auto simp: ft_run_nth)
  note r = ft_observe_Restart [OF d(2)]
  from ft_candidate_rel_run [of ?es] r(2) have c: "?es \<noteq> []" "last (fst (?run ?es)) = Some Backward"
    "last ?es = FtObserve (ft_restart_candidate (snd (?run ?es)))"
    by (auto simp: ft_candidate_rel_def)
  have i: "0 < i" "length ?es = i" using c(1) assms(1) by auto
  have pre: "fst (?run es) ! (i - 1) = fst (?run ?es) ! (i - 1)"
    using i assms(1) by (simp add: ft_run_nth min_def)
  have "fst (?run ?es) \<noteq> []" using i by (metis length_observe_all length_greater_0_conv)
  then have "fst (?run es) ! (i - 1) = Some Backward"
    using c(2) i(2) pre by (simp add: last_conv_nth)
  moreover have "es ! (i - 1) = FtObserve (ft_restart_candidate (snd (?run ?es)))"
    using c i by (simp add: last_conv_nth)
  moreover have "ft_accepted ?es (fst (?run ?es)) \<noteq> [] \<and> 0x10000 \<le> last (ft_accepted ?es (fst (?run ?es)))"
    using ft_previous_accepted [of ?es] r(1,3) by (simp add: kRestartMinBaseline_def kRestartLowMax_def)
  ultimately show ?thesis
    unfolding Let_def take_observe_all using i(1) d(1) r(4) r(5) [unfolded kRestartLowMax_def] by blast
qed

theorem ft_restart_needs_candidate_witness:
  "fst (observe_all ft_step FtSequenceTracker_init
     [FtObserve 0x20000, FtObserve 5, FtObserve 6]) ! 2 = Some Restart \<and>
   0x10000 \<le> last (ft_accepted [FtObserve 0x20000, FtObserve 5] [Some FtFirst, Some Backward])"
proof -
  let ?es = "[FtObserve 0x20000, FtObserve 5, FtObserve 6]"
  have h: "fst (observe_all ft_step FtSequenceTracker_init ?es) = [Some FtFirst, Some Backward, Some Restart]"
    by code_simp
  from ft_restart_needs_candidate [of 2 ?es] show ?thesis unfolding h by (simp add: Let_def)
qed

text \<open>
  A device restart is recognised on its second packet: with an established counter in
  \<open>0x10000 .. 0x80000000\<close> and no pending candidate, two increasing counters of at most
  \<open>0xffff\<close> are reported \<open>Backward\<close> and then \<open>Restart\<close>, and tracking resumes from the
  second one.
\<close>

theorem ft_restart_detected:
  assumes "ft_has_last t" and "\<not> ft_has_restart_candidate t"
    and "kRestartMinBaseline \<le> ft_previous t" and "ft_previous t \<le> 0x80000000"
    and "c < d" and "d \<le> kRestartLowMax"
  shows "fst (observe_all ft_observe t [c, d]) = [Backward, Restart] \<and>
         ft_previous (snd (observe_all ft_observe t [c, d])) = d"
proof -
  have base: "0x10000 \<le> ft_previous t" "c \<le> 0xffff" "d \<le> 0xffff"
    using assms by (simp_all add: kRestartMinBaseline_def kRestartLowMax_def)
  note b = low_counter_backward [OF base(1) assms(4)]
  show ?thesis
    using assms base b(1) [OF base(2)] b(2) [OF base(2)] b(1) [OF base(3)] b(2) [OF base(3)]
      low_counter_increasing [OF assms(5) base(3)]
    by (simp add: ft_observe_def kRestartLowMax_def kRestartMinBaseline_def)
qed

theorem ft_restart_detected_witness:
  "fst (observe_all ft_observe
     \<lparr>ft_has_last = True, ft_previous = 0x12345, ft_has_restart_candidate = False,
      ft_restart_candidate = 0\<rparr> [3, 9]) = [Backward, Restart]"
  using ft_restart_detected [of "\<lparr>ft_has_last = True, ft_previous = 0x12345,
      ft_has_restart_candidate = False, ft_restart_candidate = 0\<rparr>" 3 9]
  by (simp add: kRestartLowMax_def kRestartMinBaseline_def)

end
