(* ===== verification/Floating.thy ===== *)
theory Floating
  imports Prelude "HOL-Library.Log_Nat"
begin

text \<open>
  The part of C++ floating point that the sources use: binary formats (\<open>double\<close>, and
  \<open>long double\<close>, whose format depends on the platform), the four rounding directions of
  \<open><cfenv>\<close>, correctly rounded arithmetic, the comparisons (false on NaN), \<open>std::isfinite\<close>,
  \<open>std::ceil\<close> and conversions from and to integers. Finite values are exact rationals. The
  two signed zeros are one value: no operation of the sources distinguishes them.
\<close>

section \<open>Formats and rounding directions\<close>

record fp_format =
  fp_precision :: nat
  fp_emax :: int
  fp_emin :: int

definition binary64 :: fp_format where
  "binary64 = \<lparr>fp_precision = 53, fp_emax = 1023, fp_emin = -1022\<rparr>"

definition x87_extended :: fp_format where
  "x87_extended = \<lparr>fp_precision = 64, fp_emax = 16383, fp_emin = -16382\<rparr>"

definition binary128 :: fp_format where
  "binary128 = \<lparr>fp_precision = 113, fp_emax = 16383, fp_emin = -16382\<rparr>"

datatype rounding_mode = ToNearest | Upward | Downward | TowardZero

datatype fp = NaN | Infinity bool | Finite rat

text \<open>\<open>Infinity True\<close> is positive infinity.\<close>

definition fp_max :: "fp_format \<Rightarrow> rat" where
  "fp_max f = (2 ^ fp_precision f - 1) * 2 powi (fp_emax f - int (fp_precision f) + 1)"

section \<open>Binary logarithm of a positive rational\<close>

definition ilog2 :: "rat \<Rightarrow> int" where
  "ilog2 x =
     (let k = bitlen (fst (quotient_of x)) - bitlen (snd (quotient_of x))
      in if 2 powi k \<le> x then k else k - 1)"

lemma powi_two_mono_iff [simp]: "(2::rat) powi m \<le> 2 powi n \<longleftrightarrow> m \<le> n"
  using power_int_increasing [of m n "2::rat"] power_int_strict_increasing [of n m "2::rat"]
  by (cases "m \<le> n") auto

lemma powi_two_pos [simp]: "0 < (2::rat) powi n"
  by simp

lemma powi_two_less_iff [simp]: "(2::rat) powi m < 2 powi n \<longleftrightarrow> m < n"
  by (simp add: not_le [symmetric])

lemma bitlen_bounds_rat:
  assumes "0 < (a::int)"
  shows "(2::rat) powi (bitlen a - 1) \<le> of_int a" "of_int a < (2::rat) powi (bitlen a)"
proof -
  have nn: "0 \<le> bitlen a - 1"
    using assms bitlen_nonneg [of a] bitlen_eq_zero_iff [of a] by simp
  from bitlen_bounds [OF assms] have b: "2 ^ nat (bitlen a - 1) \<le> a" "a < 2 ^ nat (bitlen a)"
    by auto
  have "(2::rat) powi (bitlen a - 1) = of_int (2 ^ nat (bitlen a - 1))"
    using nn by (simp add: power_int_def)
  also have "\<dots> \<le> of_int a" using b(1) by (rule of_int_le_iff [THEN iffD2])
  finally show "(2::rat) powi (bitlen a - 1) \<le> of_int a" .
  have "(of_int a :: rat) < of_int (2 ^ nat (bitlen a))" using b(2) by (rule of_int_less_iff [THEN iffD2])
  also have "\<dots> = 2 powi (bitlen a)" using nn by (simp add: power_int_def)
  finally show "of_int a < (2::rat) powi (bitlen a)" .
qed

lemma ilog2_bounds:
  assumes "0 < x"
  shows "2 powi (ilog2 x) \<le> x" "x < 2 powi (ilog2 x + 1)"
proof -
  obtain a b where q: "quotient_of x = (a, b)" by (cases "quotient_of x")
  have b: "0 < b" using quotient_of_denom_pos [OF q] .
  have x: "x = of_int a / of_int b" using quotient_of_div [OF q] .
  have a: "0 < a" using assms b by (simp add: x zero_less_divide_iff)
  let ?k = "bitlen a - bitlen b"
  have "x < 2 powi (bitlen a) / 2 powi (bitlen b - 1)"
    unfolding x using bitlen_bounds_rat [OF a] bitlen_bounds_rat [OF b] a b
    by (intro frac_less) auto
  also have "\<dots> = 2 powi (?k + 1)" by (simp add: power_int_diff power_int_add)
  finally have up: "x < 2 powi (?k + 1)" .
  have "2 powi (bitlen a - 1) / 2 powi (bitlen b) \<le> x"
    unfolding x using bitlen_bounds_rat [OF a] bitlen_bounds_rat [OF b] a b
    by (intro frac_le) auto
  then have lo: "2 powi (?k - 1) \<le> x" by (simp add: power_int_diff)
  show "2 powi (ilog2 x) \<le> x" "x < 2 powi (ilog2 x + 1)"
    using up lo by (auto simp: ilog2_def q Let_def)
qed

lemma ilog2_unique:
  assumes "2 powi k \<le> x" "x < 2 powi (k + 1)"
  shows "ilog2 x = k"
proof -
  have pos: "0 < x" using assms(1) powi_two_pos [of k] by linarith
  have "2 powi k < (2::rat) powi (ilog2 x + 1)" "(2::rat) powi (ilog2 x) < 2 powi (k + 1)"
    using ilog2_bounds [OF pos] assms by linarith+
  then show ?thesis by simp
qed

lemma ilog2_less_iff: "0 < x \<Longrightarrow> ilog2 x < k \<longleftrightarrow> x < 2 powi k"
proof
  assume pos: "0 < x" and "ilog2 x < k"
  then have "(2::rat) powi (ilog2 x + 1) \<le> 2 powi k" by simp
  with ilog2_bounds(2) [OF pos] show "x < 2 powi k" by linarith
next
  assume pos: "0 < x" and "x < 2 powi k"
  with ilog2_bounds(1) [OF pos] have "(2::rat) powi (ilog2 x) < 2 powi k" by linarith
  then show "ilog2 x < k" by simp
qed

section \<open>Rounding\<close>

definition round_nearest_even :: "rat \<Rightarrow> int" where
  "round_nearest_even r =
     (let n = \<lfloor>r\<rfloor>; d = r - of_int n
      in if d < 1 / 2 then n else if d > 1 / 2 then n + 1 else if even n then n else n + 1)"

fun round_int :: "rounding_mode \<Rightarrow> rat \<Rightarrow> int" where
  "round_int ToNearest r = round_nearest_even r"
| "round_int Upward r = \<lceil>r\<rceil>"
| "round_int Downward r = \<lfloor>r\<rfloor>"
| "round_int TowardZero r = (if 0 \<le> r then \<lfloor>r\<rfloor> else \<lceil>r\<rceil>)"

fun overflow_result :: "fp_format \<Rightarrow> rounding_mode \<Rightarrow> bool \<Rightarrow> fp" where
  "overflow_result f ToNearest pos = Infinity pos"
| "overflow_result f Upward pos = (if pos then Infinity True else Finite (- fp_max f))"
| "overflow_result f Downward pos = (if pos then Finite (fp_max f) else Infinity False)"
| "overflow_result f TowardZero pos = Finite (if pos then fp_max f else - fp_max f)"

definition quantum :: "fp_format \<Rightarrow> rat \<Rightarrow> int" where
  "quantum f x = max (ilog2 \<bar>x\<bar>) (fp_emin f) - int (fp_precision f) + 1"

definition fp_round :: "fp_format \<Rightarrow> rounding_mode \<Rightarrow> rat \<Rightarrow> fp" where
  "fp_round f m x =
     (if x = 0 then Finite 0
      else let q = 2 powi (quantum f x);
               r = of_int (round_int m (x / q)) * q
           in if \<bar>r\<bar> \<le> fp_max f then Finite r else overflow_result f m (0 < x))"

section \<open>Arithmetic and comparisons\<close>

fun fp_mul :: "fp_format \<Rightarrow> rounding_mode \<Rightarrow> fp \<Rightarrow> fp \<Rightarrow> fp" where
  "fp_mul f m (Finite x) (Finite y) = fp_round f m (x * y)"
| "fp_mul f m (Infinity s) (Infinity t) = Infinity (s = t)"
| "fp_mul f m (Infinity s) (Finite y) = (if y = 0 then NaN else Infinity (s = (0 < y)))"
| "fp_mul f m (Finite x) (Infinity t) = (if x = 0 then NaN else Infinity ((0 < x) = t))"
| "fp_mul f m _ _ = NaN"

fun fp_div :: "fp_format \<Rightarrow> rounding_mode \<Rightarrow> fp \<Rightarrow> fp \<Rightarrow> fp" where
  "fp_div f m (Finite x) (Finite y) =
     (if y = 0 then (if x = 0 then NaN else Infinity (0 < x)) else fp_round f m (x / y))"
| "fp_div f m (Infinity s) (Finite y) = Infinity (s = (0 \<le> y))"
| "fp_div f m (Finite x) (Infinity t) = Finite 0"
| "fp_div f m _ _ = NaN"

fun fp_add :: "fp_format \<Rightarrow> rounding_mode \<Rightarrow> fp \<Rightarrow> fp \<Rightarrow> fp" where
  "fp_add f m (Finite x) (Finite y) = fp_round f m (x + y)"
| "fp_add f m (Infinity s) (Infinity t) = (if s = t then Infinity s else NaN)"
| "fp_add f m (Infinity s) (Finite y) = Infinity s"
| "fp_add f m (Finite x) (Infinity t) = Infinity t"
| "fp_add f m _ _ = NaN"

fun fp_less :: "fp \<Rightarrow> fp \<Rightarrow> bool" where
  "fp_less (Finite x) (Finite y) = (x < y)"
| "fp_less (Finite x) (Infinity t) = t"
| "fp_less (Infinity s) (Finite y) = (\<not> s)"
| "fp_less (Infinity s) (Infinity t) = (\<not> s \<and> t)"
| "fp_less _ _ = False"

fun fp_eq :: "fp \<Rightarrow> fp \<Rightarrow> bool" where
  "fp_eq NaN _ = False"
| "fp_eq _ NaN = False"
| "fp_eq a b = (a = b)"

definition fp_le :: "fp \<Rightarrow> fp \<Rightarrow> bool" where
  "fp_le a b = (fp_less a b \<or> fp_eq a b)"

fun fp_isfinite :: "fp \<Rightarrow> bool" where
  "fp_isfinite (Finite x) = True"
| "fp_isfinite _ = False"

fun fp_ceil :: "fp \<Rightarrow> fp" where
  "fp_ceil (Finite x) = Finite (of_int \<lceil>x\<rceil>)"
| "fp_ceil a = a"

fun fp_neg :: "fp \<Rightarrow> fp" where
  "fp_neg (Finite x) = Finite (- x)"
| "fp_neg (Infinity s) = Infinity (\<not> s)"
| "fp_neg NaN = NaN"

fun fp_convert :: "fp_format \<Rightarrow> rounding_mode \<Rightarrow> fp \<Rightarrow> fp" where
  "fp_convert f m (Finite x) = fp_round f m x"
| "fp_convert f m a = a"

definition fp_of_int :: "fp_format \<Rightarrow> rounding_mode \<Rightarrow> int \<Rightarrow> fp" where
  "fp_of_int f m n = fp_round f m (of_int n)"

text \<open>
  \<open>static_cast\<close> to an integer type discards the fraction; its behaviour is undefined
  outside the range of the type, which is \<open>None\<close> here.
\<close>

definition trunc_rat :: "rat \<Rightarrow> int" where
  "trunc_rat x = (if 0 \<le> x then \<lfloor>x\<rfloor> else \<lceil>x\<rceil>)"

fun fp_to_int :: "int \<Rightarrow> int \<Rightarrow> fp \<Rightarrow> int option" where
  "fp_to_int lo hi (Finite x) =
     (if lo \<le> trunc_rat x \<and> trunc_rat x \<le> hi then Some (trunc_rat x) else None)"
| "fp_to_int lo hi _ = None"

section \<open>Facts on rounding\<close>

definition fp_wf :: "fp_format \<Rightarrow> bool" where
  "fp_wf f \<longleftrightarrow> 0 < fp_precision f \<and> fp_emin f \<le> fp_emax f"

lemma fp_wf_formats [simp]: "fp_wf binary64" "fp_wf x87_extended" "fp_wf binary128"
  by (simp_all add: fp_wf_def binary64_def x87_extended_def binary128_def)

definition representable :: "fp_format \<Rightarrow> rat \<Rightarrow> bool" where
  "representable f x \<longleftrightarrow>
     (\<exists>n e. x = of_int n * 2 powi e \<and> \<bar>n\<bar> < 2 ^ fp_precision f \<and>
            fp_emin f - int (fp_precision f) + 1 \<le> e)"

lemma round_nearest_even_bounds:
  "\<lfloor>r\<rfloor> \<le> round_nearest_even r" "round_nearest_even r \<le> \<lceil>r\<rceil>"
proof -
  show "\<lfloor>r\<rfloor> \<le> round_nearest_even r" by (simp add: round_nearest_even_def Let_def)
  show "round_nearest_even r \<le> \<lceil>r\<rceil>"
  proof (cases "r = of_int \<lfloor>r\<rfloor>")
    case True
    then have "round_nearest_even r = \<lfloor>r\<rfloor>" by (simp add: round_nearest_even_def Let_def)
    then show ?thesis by (simp add: floor_le_ceiling)
  next
    case False
    then have "\<lceil>r\<rceil> = \<lfloor>r\<rfloor> + 1" by (simp add: ceiling_altdef)
    then show ?thesis by (simp add: round_nearest_even_def Let_def)
  qed
qed

lemma round_nearest_even_near:
  assumes "of_int n - 1 / 2 < r" "r < of_int n + 1 / 2"
  shows "round_nearest_even r = n"
proof (cases "of_int n \<le> r")
  case True
  then have "\<lfloor>r\<rfloor> = n" using assms by (intro floor_unique) simp_all
  then show ?thesis using assms by (simp add: round_nearest_even_def Let_def)
next
  case False
  then have "\<lfloor>r\<rfloor> = n - 1" using assms by (intro floor_unique) simp_all
  then show ?thesis using assms by (simp add: round_nearest_even_def Let_def)
qed

lemma round_int_between: "\<lfloor>r\<rfloor> \<le> round_int m r \<and> round_int m r \<le> \<lceil>r\<rceil>"
  by (cases m) (auto simp: round_nearest_even_bounds floor_le_ceiling)

lemma round_int_le: "r \<le> of_int n \<Longrightarrow> round_int m r \<le> n"
  using round_int_between [of r m] by (meson ceiling_le_iff order_trans)

lemma round_int_ge: "of_int n \<le> r \<Longrightarrow> n \<le> round_int m r"
  using round_int_between [of r m] by (meson le_floor_iff order_trans)

lemma round_int_of_int [simp]: "round_int m (of_int n) = n"
  by (rule antisym) (auto intro: round_int_le round_int_ge)

lemma round_int_abs_le: "\<bar>r\<bar> \<le> of_int n \<Longrightarrow> \<bar>round_int m r\<bar> \<le> n"
  using round_int_le [of r n m] round_int_ge [of "- n" r m] by (simp add: abs_le_iff)

lemma powi_int_of_nonneg: "0 \<le> k \<Longrightarrow> (2::rat) powi k = of_int (2 ^ nat k)"
  by (simp add: power_int_def)

lemma fp_max_less: "0 < fp_precision f \<Longrightarrow> fp_max f < 2 powi (fp_emax f + 1)"
proof -
  have "fp_max f < 2 ^ fp_precision f * 2 powi (fp_emax f - int (fp_precision f) + 1)"
    by (simp add: fp_max_def)
  also have "\<dots> = 2 powi (fp_emax f + 1)"
    by (simp add: power_int_add [symmetric] flip: power_int_of_nat)
  finally show ?thesis .
qed

lemma fp_max_pos: "0 < fp_precision f \<Longrightarrow> 0 < fp_max f"
  by (simp add: fp_max_def)

lemma quantum_le:
  assumes "fp_wf f" "x \<noteq> 0" "\<bar>x\<bar> \<le> fp_max f"
  shows "quantum f x \<le> fp_emax f - int (fp_precision f) + 1"
proof -
  have "\<bar>x\<bar> < 2 powi (fp_emax f + 1)"
    using assms fp_max_less [of f] by (auto simp: fp_wf_def)
  then have "ilog2 \<bar>x\<bar> < fp_emax f + 1" using assms(2) by (subst ilog2_less_iff) simp_all
  then show ?thesis using assms(1) by (simp add: quantum_def fp_wf_def)
qed

lemma fp_round_in_range:
  assumes "fp_wf f" "x \<noteq> 0" "\<bar>x\<bar> \<le> fp_max f"
  shows "fp_round f m x =
           Finite (of_int (round_int m (x / 2 powi (quantum f x))) * 2 powi (quantum f x))"
    and "\<bar>of_int (round_int m (x / 2 powi (quantum f x))) * 2 powi (quantum f x)\<bar> \<le> fp_max f"
proof -
  let ?e = "quantum f x" and ?E = "fp_emax f - int (fp_precision f) + 1"
  let ?q = "(2::rat) powi ?e"
  define N where "N = (2 ^ fp_precision f - 1) * (2::int) ^ nat (?E - ?e)"
  have le: "?e \<le> ?E" using assms by (rule quantum_le)
  then have "of_int N * ?q = (2 ^ fp_precision f - 1) * (2 powi (?E - ?e) * ?q)"
    by (simp add: N_def powi_int_of_nonneg)
  then have N: "of_int N * ?q = fp_max f"
    by (simp add: fp_max_def flip: power_int_add)
  have "\<bar>x / ?q\<bar> \<le> of_int N" using assms(3) by (simp add: N [symmetric] pos_divide_le_eq)
  then have "\<bar>round_int m (x / ?q)\<bar> \<le> N" by (rule round_int_abs_le)
  then have "(of_int \<bar>round_int m (x / ?q)\<bar> :: rat) \<le> of_int N" by (rule of_int_le_iff [THEN iffD2])
  then show r: "\<bar>of_int (round_int m (x / ?q)) * ?q\<bar> \<le> fp_max f"
    by (simp add: abs_mult N [symmetric])
  with assms(2) show "fp_round f m x = Finite (of_int (round_int m (x / ?q)) * ?q)"
    by (simp add: fp_round_def Let_def)
qed

lemma fp_round_bounded:
  assumes "fp_wf f" "\<bar>x\<bar> \<le> fp_max f"
  shows "\<exists>y. fp_round f m x = Finite y \<and> \<bar>y\<bar> \<le> fp_max f"
proof (cases "x = 0")
  case True
  then show ?thesis using assms fp_max_pos [of f] by (simp add: fp_round_def fp_wf_def)
next
  case False
  show ?thesis using fp_round_in_range [OF assms(1) False assms(2), of m] by blast
qed

lemma representable_multiple:
  assumes "representable f x"
  shows "\<exists>n. x = of_int n * 2 powi (quantum f x)"
proof (cases "x = 0")
  case True
  then show ?thesis by (intro exI [of _ 0]) simp
next
  case False
  from assms obtain n e where x: "x = of_int n * 2 powi e" and n: "\<bar>n\<bar> < 2 ^ fp_precision f"
    and e: "fp_emin f - int (fp_precision f) + 1 \<le> e" unfolding representable_def by blast
  let ?e = "quantum f x"
  have "(of_int \<bar>n\<bar> :: rat) < 2 powi int (fp_precision f)"
    using n by (metis of_int_less_iff of_int_numeral of_int_power power_int_of_nat)
  then have "\<bar>x\<bar> < 2 powi int (fp_precision f) * 2 powi e" by (simp add: x abs_mult)
  then have "ilog2 \<bar>x\<bar> < int (fp_precision f) + e"
    using False by (subst ilog2_less_iff) (simp_all add: power_int_add)
  then have le: "?e \<le> e" using e by (simp add: quantum_def)
  have "2 powi e = (2::rat) powi (e - ?e) * 2 powi ?e" by (simp flip: power_int_add)
  also have "\<dots> = of_int (2 ^ nat (e - ?e)) * 2 powi ?e" using le by (simp add: power_int_def)
  finally have "2 powi e = of_int (2 ^ nat (e - ?e)) * (2::rat) powi ?e" .
  then have "x = of_int (n * 2 ^ nat (e - ?e)) * 2 powi ?e" using x by simp
  then show ?thesis by blast
qed

lemma fp_round_exact:
  assumes "representable f x" "\<bar>x\<bar> \<le> fp_max f"
  shows "fp_round f m x = Finite x"
proof -
  obtain n where n: "x = of_int n * 2 powi (quantum f x)"
    using representable_multiple [OF assms(1)] by blast
  then have "x / 2 powi (quantum f x) = of_int n"
    by (metis nonzero_eq_divide_eq order_less_irrefl powi_two_pos)
  then have "of_int (round_int m (x / 2 powi (quantum f x))) * 2 powi (quantum f x) = x"
    using n by simp
  with assms(2) show ?thesis by (simp add: fp_round_def Let_def)
qed

lemma quantum_mono:
  assumes "x \<noteq> 0" "\<bar>x\<bar> \<le> \<bar>b\<bar>"
  shows "quantum f x \<le> quantum f b"
proof -
  have "2 powi (ilog2 \<bar>x\<bar>) \<le> \<bar>b\<bar>" "\<bar>b\<bar> < 2 powi (ilog2 \<bar>b\<bar> + 1)"
    using assms ilog2_bounds(1) [of "\<bar>x\<bar>"] ilog2_bounds(2) [of "\<bar>b\<bar>"] by auto
  then have "(2::rat) powi (ilog2 \<bar>x\<bar>) < 2 powi (ilog2 \<bar>b\<bar> + 1)" by linarith
  then show ?thesis by (simp add: quantum_def)
qed

lemma fp_round_le:
  assumes "fp_wf f" "0 < x" "x \<le> b" "representable f b" "b \<le> fp_max f"
  shows "\<exists>y. fp_round f m x = Finite y \<and> 0 \<le> y \<and> y \<le> b"
proof -
  let ?q = "(2::rat) powi (quantum f x)"
  obtain n where n: "b = of_int n * 2 powi (quantum f b)"
    using representable_multiple [OF assms(4)] by blast
  have le: "quantum f x \<le> quantum f b" using assms by (intro quantum_mono) auto
  have "2 powi (quantum f b) = (2::rat) powi (quantum f b - quantum f x) * ?q"
    by (simp flip: power_int_add)
  also have "(2::rat) powi (quantum f b - quantum f x) = of_int (2 ^ nat (quantum f b - quantum f x))"
    using le by (simp add: power_int_def)
  finally have "b = of_int (n * 2 ^ nat (quantum f b - quantum f x)) * ?q" using n by simp
  then obtain N where N: "b = of_int N * ?q" by blast
  have "x / ?q \<le> of_int N" using assms(3) by (simp add: N pos_divide_le_eq)
  then have "round_int m (x / ?q) \<le> N" by (rule round_int_le)
  then have up: "of_int (round_int m (x / ?q)) * ?q \<le> b" by (simp add: N)
  have "0 \<le> round_int m (x / ?q)" using assms(2) by (intro round_int_ge) simp
  then have lo: "0 \<le> of_int (round_int m (x / ?q)) * ?q" by simp
  show ?thesis using up lo assms by (auto simp: fp_round_def Let_def)
qed

lemma fp_round_ge:
  assumes "fp_wf f" "0 < b" "b \<le> x" "x \<le> fp_max f" "representable f b"
  shows "\<exists>y. fp_round f m x = Finite y \<and> b \<le> y"
proof -
  let ?q = "(2::rat) powi (quantum f x)"
  obtain n where n: "b = of_int n * 2 powi (quantum f b)"
    using representable_multiple [OF assms(5)] by blast
  have "b \<le> of_int (round_int m (x / ?q)) * ?q"
  proof (cases "quantum f b = quantum f x")
    case True
    then have "of_int n \<le> x / ?q" using assms(3) n by (simp add: pos_le_divide_eq)
    then have "n \<le> round_int m (x / ?q)" by (rule round_int_ge)
    then show ?thesis by (subst n) (simp add: True)
  next
    case False
    then have "quantum f b < quantum f x" using assms quantum_mono [of b x f] by simp
    then have q: "ilog2 b < ilog2 x" "quantum f x = ilog2 x - int (fp_precision f) + 1"
      using assms(2,3) by (auto simp: quantum_def)
    have p: "0 < fp_precision f" using assms(1) by (simp add: fp_wf_def)
    have two: "2 powi (ilog2 x) = of_int (2 ^ (fp_precision f - 1)) * ?q"
    proof -
      have "(of_int (2 ^ (fp_precision f - 1)) :: rat) = 2 powi (int (fp_precision f) - 1)"
        using p by (simp add: power_int_def nat_diff_distrib)
      then show ?thesis unfolding q(2) by (simp flip: power_int_add)
    qed
    have "2 powi (ilog2 x) \<le> x" using assms by (intro ilog2_bounds) simp
    then have "of_int (2 ^ (fp_precision f - 1)) \<le> x / ?q" by (simp add: two pos_le_divide_eq)
    then have "2 ^ (fp_precision f - 1) \<le> round_int m (x / ?q)" by (rule round_int_ge)
    then have "(of_int (2 ^ (fp_precision f - 1)) :: rat) \<le> of_int (round_int m (x / ?q))"
      by (rule of_int_le_iff [THEN iffD2])
    then have "2 powi (ilog2 x) \<le> of_int (round_int m (x / ?q)) * ?q" by (simp add: two)
    moreover have "b \<le> 2 powi (ilog2 x)"
      using ilog2_less_iff [OF assms(2), of "ilog2 x"] q(1) by simp
    ultimately show ?thesis by linarith
  qed
  moreover have "x \<noteq> 0" "\<bar>x\<bar> \<le> fp_max f" using assms by auto
  ultimately show ?thesis using fp_round_in_range(1) [OF assms(1)] by blast
qed

lemma representable_bound:
  assumes "0 < fp_precision f" "\<bar>n\<bar> \<le> 2 ^ fp_precision f"
    and "fp_emin f - int (fp_precision f) + 1 \<le> e"
  shows "representable f (of_int n * 2 powi e)"
proof (cases "\<bar>n\<bar> = 2 ^ fp_precision f")
  case False
  then show ?thesis unfolding representable_def
    using assms by (intro exI [of _ n] exI [of _ e]) auto
next
  case True
  let ?h = "2 ^ (fp_precision f - 1) :: int"
  have h: "2 * ?h = 2 ^ fp_precision f" using assms(1) by (cases "fp_precision f") simp_all
  then have "n = 2 * (sgn n * ?h)" using True by (auto simp: sgn_if abs_if split: if_splits)
  then have "(of_int n :: rat) = of_int (2 * (sgn n * ?h))" by (rule arg_cong)
  then have "of_int n * 2 powi e = of_int (sgn n * ?h) * (2::rat) powi (e + 1)"
    by (simp add: power_int_add)
  moreover have "\<bar>sgn n * ?h\<bar> < 2 ^ fp_precision f"
    using assms(1) by (simp add: abs_mult sgn_if)
  ultimately show ?thesis unfolding representable_def
    using assms(3) by (intro exI [of _ "sgn n * ?h"] exI [of _ "e + 1"]) auto
qed

lemma fp_round_representable:
  assumes "fp_wf f" "\<bar>x\<bar> \<le> fp_max f" "fp_round f m x = Finite y"
  shows "representable f y"
proof (cases "x = 0")
  case True
  then have "y = of_int 0 * 2 powi (fp_emin f - int (fp_precision f) + 1)"
    using assms(3) by (simp add: fp_round_def)
  then show ?thesis using assms(1) by (simp only:) (rule representable_bound, simp_all add: fp_wf_def)
next
  case False
  let ?q = "quantum f x"
  have "\<bar>x\<bar> < 2 powi (ilog2 \<bar>x\<bar> + 1)" using False by (intro ilog2_bounds) simp
  also have "\<dots> \<le> 2 powi (int (fp_precision f) + ?q)" by (simp add: quantum_def)
  finally have "\<bar>x / 2 powi ?q\<bar> \<le> of_int (2 ^ fp_precision f)"
    by (simp add: pos_divide_le_eq power_int_add)
  then have "\<bar>round_int m (x / 2 powi ?q)\<bar> \<le> 2 ^ fp_precision f" by (rule round_int_abs_le)
  moreover have "fp_emin f - int (fp_precision f) + 1 \<le> ?q" by (simp add: quantum_def)
  moreover have "y = of_int (round_int m (x / 2 powi ?q)) * 2 powi ?q"
    using fp_round_in_range(1) [OF assms(1) False assms(2), of m] assms(3) by simp
  ultimately show ?thesis using assms(1) representable_bound by (simp add: fp_wf_def)
qed

lemma fp_round_nonneg:
  assumes "0 \<le> x" "0 < fp_precision f"
  shows "fp_round f m x = Infinity True \<or> (\<exists>y. fp_round f m x = Finite y \<and> 0 \<le> y)"
proof (cases "x = 0")
  case True
  then show ?thesis by (simp add: fp_round_def)
next
  case False
  let ?q = "(2::rat) powi (quantum f x)"
  have "0 \<le> round_int m (x / ?q)" using assms(1) by (intro round_int_ge) simp
  then have "0 \<le> of_int (round_int m (x / ?q)) * ?q" by simp
  moreover have "overflow_result f m True = Infinity True \<or>
      (\<exists>y. overflow_result f m True = Finite y \<and> 0 \<le> y)"
    using fp_max_pos [OF assms(2)] by (cases m) auto
  ultimately show ?thesis using False assms(1) by (auto simp: fp_round_def Let_def)
qed

lemma representable_int:
  assumes "\<bar>n\<bar> < 2 ^ fp_precision f" "fp_emin f - int (fp_precision f) + 1 \<le> 0"
  shows "representable f (of_int n)"
  unfolding representable_def using assms by (intro exI [of _ n] exI [of _ 0]) simp

lemma fp_of_int_exact:
  assumes "\<bar>n\<bar> < 2 ^ fp_precision f" "fp_emin f - int (fp_precision f) + 1 \<le> 0"
    "\<bar>of_int n\<bar> \<le> fp_max f"
  shows "fp_of_int f m n = Finite (of_int n)"
  unfolding fp_of_int_def using assms by (intro fp_round_exact representable_int)

lemma fp_max_binary64: "fp_max binary64 = (2 ^ 53 - 1) * 2 ^ 971"
  by (simp add: fp_max_def binary64_def)

lemma fp_of_int_binary64:
  assumes "\<bar>n\<bar> < 2 ^ 53"
  shows "fp_of_int binary64 m n = Finite (of_int n)"
proof (rule fp_of_int_exact)
  show "\<bar>n\<bar> < 2 ^ fp_precision binary64" using assms by (simp add: binary64_def)
  show "fp_emin binary64 - int (fp_precision binary64) + 1 \<le> 0" by (simp add: binary64_def)
  have "(of_int \<bar>n\<bar> :: rat) \<le> of_int (2 ^ 53)" using assms by (intro of_int_le_iff [THEN iffD2]) simp
  also have "\<dots> \<le> fp_max binary64" by (simp add: fp_max_binary64)
  finally show "\<bar>of_int n :: rat\<bar> \<le> fp_max binary64" by simp
qed

lemma fp_isfinite_iff: "fp_isfinite a \<longleftrightarrow> (\<exists>x. a = Finite x)"
  by (cases a) auto

lemma fp_less_Finite:
  "fp_less (Finite x) a \<longleftrightarrow> a = Infinity True \<or> (\<exists>y. a = Finite y \<and> x < y)"
  "fp_less a (Finite x) \<longleftrightarrow> a = Infinity False \<or> (\<exists>y. a = Finite y \<and> y < x)"
  by (cases a; auto)+

lemma fp_le_simps [simp]:
  "fp_le (Finite x) (Finite y) \<longleftrightarrow> x \<le> y"
  "fp_le (Infinity s) (Finite y) \<longleftrightarrow> \<not> s"
  "fp_le NaN a \<longleftrightarrow> False"
  by (auto simp: fp_le_def)

lemma fp_le_Finite: "fp_le a (Finite y) \<longleftrightarrow> a = Infinity False \<or> (\<exists>x. a = Finite x \<and> x \<le> y)"
  by (cases a) auto

lemma fp_eq_iff: "fp_eq a b \<longleftrightarrow> a = b \<and> a \<noteq> NaN"
  by (cases a; cases b) auto

end
