(* ===== verification/Time.thy ===== *)
theory Time
  imports Floating
begin

text \<open>
  Model of \<open>src/src/detail/time.hpp\<close>: conversion of a \<open>std::chrono::duration<double>\<close> to
  steady-clock ticks, and deadlines. What the C++ implementation fixes (the format of
  \<open>long double\<close>, the period and range of the steady clock, the range of \<open>long\<close>, the
  rounding direction in force) is a record, so that the theorems hold for every supported
  platform. A \<open>duration<double>\<close> is its count of seconds, a time point its count of ticks.
\<close>

record platform =
  long_double :: fp_format
  rounding_direction :: rounding_mode
  period_num :: int
  period_den :: int
  rep_max :: int
  long_max :: int

text \<open>Linux on x86-64 and AArch64, macOS on Apple silicon, and Windows on x86-64.\<close>

definition linux_x86_64 :: platform where
  "linux_x86_64 =
     \<lparr>long_double = x87_extended, rounding_direction = ToNearest, period_num = 1,
      period_den = 1000000000, rep_max = 2 ^ 63 - 1, long_max = 2 ^ 63 - 1\<rparr>"

definition linux_aarch64 :: platform where
  "linux_aarch64 = linux_x86_64\<lparr>long_double := binary128\<rparr>"

definition macos_arm64 :: platform where
  "macos_arm64 = linux_x86_64\<lparr>long_double := binary64\<rparr>"

definition windows_x86_64 :: platform where
  "windows_x86_64 = linux_x86_64\<lparr>long_double := binary64, long_max := 2 ^ 31 - 1\<rparr>"

text \<open>
  What the conversions rely on: \<open>long double\<close> is a binary format that extends \<open>double\<close>,
  the clock's period is positive and its representation has 64 bits, and \<open>long\<close> has 32 or
  64 bits.
\<close>

definition platform_ok :: "platform \<Rightarrow> bool" where
  "platform_ok p \<longleftrightarrow>
     fp_wf (long_double p) \<and> 53 \<le> fp_precision (long_double p) \<and>
     1023 \<le> fp_emax (long_double p) \<and> fp_emin (long_double p) \<le> -1022 \<and>
     0 < period_num p \<and> 0 < period_den p \<and>
     rep_max p = 2 ^ 63 - 1 \<and> (long_max p = 2 ^ 31 - 1 \<or> long_max p = 2 ^ 63 - 1)"

lemma platform_ok_supported [simp]:
  "platform_ok linux_x86_64" "platform_ok linux_aarch64" "platform_ok macos_arm64"
  "platform_ok windows_x86_64"
  by (simp_all add: platform_ok_def linux_x86_64_def linux_aarch64_def macos_arm64_def
      windows_x86_64_def) (simp_all add: binary64_def x87_extended_def binary128_def)

text \<open>
  \<open>static_cast<long double>\<close> of an integer constant, which the compiler evaluates in the
  default rounding direction.
\<close>

definition ld_const :: "platform \<Rightarrow> int \<Rightarrow> fp" where
  "ld_const p n = fp_of_int (long_double p) ToNearest n"

definition checked_ticks :: "platform \<Rightarrow> fp \<Rightarrow> fp" where
  "checked_ticks p seconds =
     fp_div (long_double p) (rounding_direction p)
       (fp_mul (long_double p) (rounding_direction p)
          (fp_convert (long_double p) (rounding_direction p) seconds)
          (ld_const p (period_den p)))
       (ld_const p (period_num p))"

definition checked_duration :: "platform \<Rightarrow> fp \<Rightarrow> (exn, int) result" where
  "checked_duration p seconds =
     (let ticks = checked_ticks p seconds
      in if \<not> fp_isfinite ticks \<or> fp_less ticks (Finite 0) \<or> fp_le (ld_const p (rep_max p)) ticks
         then Inl (InvalidArgument ''duration is outside the supported steady-clock range'')
         else case fp_to_int (- rep_max p - 1) (rep_max p) ticks of
                None \<Rightarrow> Inl UndefinedBehaviour
              | Some n \<Rightarrow> Inr n)"

definition checked_deadline :: "platform \<Rightarrow> int \<Rightarrow> fp \<Rightarrow> (exn, int) result" where
  "checked_deadline p origin seconds =
     bind_result (checked_duration p seconds) (\<lambda>ticks.
       if rep_max p - ticks < origin
       then Inl (InvalidArgument ''deadline is outside the supported steady-clock range'')
       else Inr (origin + ticks))"

section \<open>Range of the conversions\<close>

text \<open>
  An integer constant below a power of two converts to at most that power, whatever the
  precision: this is what makes \<open>\<ge>\<close> against the converted limit a safe test.
\<close>

lemma representable_two_power:
  assumes "fp_wf f" "fp_emin f \<le> int k" "int k \<le> fp_emax f"
  shows "representable f (2 ^ k)" "2 ^ k \<le> fp_max f"
proof -
  let ?P = "int (fp_precision f)"
  have p: "0 < fp_precision f" using assms(1) by (simp add: fp_wf_def)
  have e: "(2::rat) ^ k = 2 ^ (fp_precision f - 1) * 2 powi (int k - ?P + 1)"
  proof -
    have "(2::rat) ^ (fp_precision f - 1) = 2 powi (?P - 1)"
      using p by (simp add: power_int_def nat_diff_distrib)
    then show ?thesis by (simp flip: power_int_add power_int_of_nat)
  qed
  have lt: "(2::int) ^ (fp_precision f - 1) < 2 ^ fp_precision f" using p by simp
  show "representable f (2 ^ k)" unfolding representable_def
    using assms lt e by (intro exI [of _ "2 ^ (fp_precision f - 1)"] exI [of _ "int k - ?P + 1"]) simp
  have "(2::rat) ^ (fp_precision f - 1) \<le> 2 ^ fp_precision f - 1"
    using p by (cases "fp_precision f") simp_all
  then have "2 ^ k \<le> (2 ^ fp_precision f - 1) * (2::rat) powi (int k - ?P + 1)"
    unfolding e by (intro mult_right_mono) simp_all
  also have "\<dots> \<le> fp_max f" unfolding fp_max_def using assms p by (intro mult_left_mono) simp_all
  finally show "2 ^ k \<le> fp_max f" .
qed

lemma ld_two_power:
  assumes "platform_ok p" "k \<le> 64"
  shows "representable (long_double p) (2 ^ k)" "2 ^ k \<le> fp_max (long_double p)"
  using assms by (auto simp: platform_ok_def intro!: representable_two_power)

lemma ld_const_le:
  assumes "platform_ok p" "0 < n" "n \<le> 2 ^ k" "k \<le> 64"
  shows "\<exists>y. ld_const p n = Finite y \<and> 0 \<le> y \<and> y \<le> 2 ^ k"
proof -
  note ok = assms(1) [unfolded platform_ok_def]
  note b = ld_two_power [OF assms(1,4)]
  have "(of_int n :: rat) \<le> of_int (2 ^ k)" using assms(3) by (rule of_int_le_iff [THEN iffD2])
  then show ?thesis unfolding ld_const_def fp_of_int_def
    using ok b assms(2) by (intro fp_round_le) auto
qed

lemma ld_const_rep_max:
  assumes "platform_ok p"
  shows "\<exists>y. ld_const p (rep_max p) = Finite y \<and> 0 \<le> y \<and> y \<le> 2 ^ 63"
  using ld_const_le [OF assms, of "rep_max p" 63] assms by (simp add: platform_ok_def)

lemma checked_duration_cases:
  assumes "platform_ok p"
  obtains (out_of_range)
      "checked_duration p s =
         Inl (InvalidArgument ''duration is outside the supported steady-clock range'')"
  | (ticks) t where "checked_ticks p s = Finite t" "0 \<le> t" "t < 2 ^ 63"
      "checked_duration p s = Inr \<lfloor>t\<rfloor>" "0 \<le> \<lfloor>t\<rfloor>" "\<lfloor>t\<rfloor> \<le> rep_max p"
proof -
  obtain L where L: "ld_const p (rep_max p) = Finite L" "L \<le> 2 ^ 63"
    using ld_const_rep_max [OF assms] by blast
  have rm: "rep_max p = 2 ^ 63 - 1" using assms by (simp add: platform_ok_def)
  show thesis
  proof (cases "checked_ticks p s")
    case (Finite t)
    show ?thesis
    proof (cases "0 \<le> t \<and> t < L")
      case True
      then have b: "0 \<le> \<lfloor>t\<rfloor>" "\<lfloor>t\<rfloor> \<le> rep_max p" "t < 2 ^ 63"
        using L(2) by (auto simp: rm floor_le_iff)
      have "checked_duration p s = Inr \<lfloor>t\<rfloor>"
        using True b rm L(1) by (simp add: checked_duration_def Finite Let_def trunc_rat_def)
      with True b Finite show ?thesis by (intro ticks) auto
    next
      case False
      then show ?thesis
        by (intro out_of_range) (auto simp: checked_duration_def Finite L(1) Let_def)
    qed
  qed (auto intro!: out_of_range simp: checked_duration_def)
qed

lemma checked_duration_defined:
  assumes "platform_ok p"
  shows "checked_duration p s \<noteq> Inl UndefinedBehaviour"
  by (rule checked_duration_cases [OF assms, of s]) auto

lemma checked_duration_range:
  assumes "platform_ok p" "checked_duration p s = Inr n"
  shows "0 \<le> n" "n \<le> rep_max p"
  by (rule checked_duration_cases [OF assms(1), of s], use assms(2) in auto)+

lemma checked_deadline_range:
  assumes "platform_ok p" "checked_deadline p origin s = Inr d"
  shows "origin \<le> d" "d \<le> rep_max p"
  using assms(2) checked_duration_range [OF assms(1), of s]
  by (auto simp: checked_deadline_def bind_result_eq_Inr_iff split: if_splits)

lemma checked_deadline_defined:
  assumes "platform_ok p"
  shows "checked_deadline p origin s \<noteq> Inl UndefinedBehaviour"
  using checked_duration_defined [OF assms, of s]
  by (auto simp: checked_deadline_def bind_result_eq_Inl_iff split: if_splits)

section \<open>Exact conversions\<close>

lemma ld_round_int:
  assumes "platform_ok p" "\<bar>n\<bar> < 2 ^ 53"
  shows "fp_round (long_double p) m (of_int n) = Finite (of_int n)"
proof -
  note ok = assms(1) [unfolded platform_ok_def]
  have "2 ^ 53 \<le> fp_max (long_double p)" by (rule ld_two_power [OF assms(1)]) simp
  moreover have "\<bar>of_int n :: rat\<bar> \<le> 2 ^ 53"
  proof -
    have "(of_int \<bar>n\<bar> :: rat) \<le> of_int (2 ^ 53)" using assms(2) by (intro of_int_le_iff [THEN iffD2]) simp
    then show ?thesis by simp
  qed
  moreover have "(2::int) ^ 53 \<le> 2 ^ fp_precision (long_double p)"
    using ok by (intro power_increasing) auto
  ultimately show ?thesis using ok assms(2)
    by (intro fp_round_exact representable_int) auto
qed

text \<open>
  With a nanosecond clock, a duration of a whole number of ticks below \<open>2 ^ 53\<close> that
  \<open>long double\<close> represents is converted without error.
\<close>

lemma checked_duration_exact:
  assumes "platform_ok p" "period_num p = 1" "period_den p = 1000000000"
    and "fp_convert (long_double p) (rounding_direction p) (Finite s) = Finite s"
    and "s * 1000000000 = of_int n" "0 \<le> n" "n < 2 ^ 53"
  shows "checked_duration p (Finite s) = Inr n"
proof -
  note r = ld_round_int [OF assms(1)]
  have "ld_const p 1000000000 = Finite 1000000000" "ld_const p 1 = Finite 1"
    using r [of 1000000000] r [of 1] by (simp_all add: ld_const_def fp_of_int_def)
  moreover have "fp_round (long_double p) (rounding_direction p) (of_int n) = Finite (of_int n)"
    using assms by (intro r) simp
  ultimately have t: "checked_ticks p (Finite s) = Finite (of_int n)"
    using assms by (simp add: checked_ticks_def)
  have "ld_const p (rep_max p) = Finite L \<Longrightarrow> of_int n < L" for L
  proof -
    assume L: "ld_const p (rep_max p) = Finite L"
    note ok = assms(1) [unfolded platform_ok_def]
    have "\<exists>y. fp_round (long_double p) ToNearest (of_int (rep_max p)) = Finite y \<and> 2 ^ 62 \<le> y"
      using ok ld_two_power [OF assms(1), of 62] ld_two_power [OF assms(1), of 64]
      by (intro fp_round_ge) auto
    then have "2 ^ 62 \<le> L" using L by (auto simp: ld_const_def fp_of_int_def)
    moreover have "(of_int n :: rat) < of_int (2 ^ 53)" using assms(7) by (rule of_int_less_iff [THEN iffD2])
    ultimately show ?thesis by simp
  qed
  with ld_const_rep_max [OF assms(1)] t assms(6,7) assms(1) show ?thesis
    by (auto simp: checked_duration_def Let_def trunc_rat_def platform_ok_def)
qed

section \<open>Durations that are always accepted\<close>

lemma ld_extends_double:
  assumes "platform_ok p" "representable binary64 x" "\<bar>x\<bar> \<le> fp_max binary64"
  shows "fp_convert (long_double p) m (Finite x) = Finite x"
proof -
  note ok = assms(1) [unfolded platform_ok_def]
  let ?f = "long_double p"
  have "representable ?f x"
  proof -
    from assms(2) obtain n e where x: "x = of_int n * 2 powi e" "\<bar>n\<bar> < 2 ^ 53" "-1074 \<le> e"
      by (auto simp: representable_def binary64_def)
    have "(2::int) ^ 53 \<le> 2 ^ fp_precision ?f" using ok by (intro power_increasing) auto
    moreover have "fp_emin ?f - int (fp_precision ?f) + 1 \<le> e" using ok x(3) by linarith
    ultimately show ?thesis unfolding representable_def using x
      by (intro exI [of _ n] exI [of _ e]) auto
  qed
  moreover have "fp_max binary64 \<le> fp_max ?f"
  proof -
    let ?P = "fp_precision ?f"
    have "fp_max binary64 = (2 ^ 53 - 1) * 2 powi 971" by (simp add: fp_max_binary64)
    also have "\<dots> = (2 ^ 53 - 1) * 2 ^ (?P - 53) * 2 powi (971 - int (?P - 53))"
      by (simp add: power_int_diff)
    also have "(2 ^ 53 - 1) * (2::rat) ^ (?P - 53) \<le> 2 ^ ?P - 1"
    proof -
      have "?P = 53 + (?P - 53)" using ok by simp
      then have "(2::rat) ^ ?P = 2 ^ 53 * 2 ^ (?P - 53)" by (metis power_add)
      moreover have "(1::rat) \<le> 2 ^ (?P - 53)" by simp
      ultimately show ?thesis by (simp add: left_diff_distrib)
    qed
    also have "(2 ^ ?P - 1) * (2::rat) powi (971 - int (?P - 53)) \<le> fp_max ?f"
      unfolding fp_max_def using ok by (intro mult_left_mono) auto
    finally show ?thesis by (simp add: mult_right_mono)
  qed
  ultimately show ?thesis using assms(3) by (simp add: fp_round_exact)
qed

lemma checked_duration_accepts:
  assumes "platform_ok p" "period_num p = 1" "period_den p = 1000000000"
    and "representable binary64 s" "1 \<le> s * 1000000000" "s * 1000000000 \<le> 2 ^ 62"
  shows "\<exists>n. checked_duration p (Finite s) = Inr n \<and> 1 \<le> n \<and> n \<le> 2 ^ 62"
proof -
  note ok = assms(1) [unfolded platform_ok_def]
  let ?f = "long_double p" and ?m = "rounding_direction p"
  note two = ld_two_power [OF assms(1), of 62] and two64 = ld_two_power [OF assms(1), of 64]
  have s: "0 < s" "\<bar>s\<bar> \<le> fp_max binary64"
    using assms(5,6) by (auto simp: fp_max_binary64)
  have one: "representable ?f 1" using ld_two_power [OF assms(1), of 0] by simp
  note r = ld_round_int [OF assms(1)]
  have c: "ld_const p 1000000000 = Finite 1000000000" "ld_const p 1 = Finite 1"
    using r [of 1000000000] r [of 1] by (simp_all add: ld_const_def fp_of_int_def)
  obtain y where y: "fp_round ?f ?m (s * 1000000000) = Finite y" "y \<le> 2 ^ 62"
    using fp_round_le [of ?f "s * 1000000000" "2 ^ 62" ?m] ok two assms(5,6) by auto
  have "1 \<le> y"
    using fp_round_ge [of ?f 1 "s * 1000000000" ?m] ok two assms(5,6) one y by auto
  have max: "s * 1000000000 \<le> fp_max ?f" using two(2) assms(6) by linarith
  have "representable ?f y"
    using fp_round_representable [OF _ _ y(1)] ok max s(1) by simp
  then have yr: "fp_round ?f ?m y = Finite y"
    using two(2) y(2) \<open>1 \<le> y\<close> by (intro fp_round_exact) auto
  have t: "checked_ticks p (Finite s) = Finite y"
    using y(1) yr c assms(2,3) ld_extends_double [OF assms(1,4) s(2)] by (simp add: checked_ticks_def)
  obtain L where L: "ld_const p (rep_max p) = Finite L" "2 ^ 62 < L"
  proof -
    have "\<exists>z. fp_round ?f ToNearest (of_int (rep_max p)) = Finite z \<and> 2 ^ 62 + 2 ^ 61 \<le> z"
    proof (rule fp_round_ge)
      have "(2::int) ^ 2 \<le> 2 ^ fp_precision ?f" using ok by (intro power_increasing) auto
      then show "representable ?f (2 ^ 62 + 2 ^ 61)"
        using ok by (intro representable_def [THEN iffD2] exI [of _ 3] exI [of _ 61]) auto
    qed (use ok two64 in auto)
    then obtain z where "ld_const p (rep_max p) = Finite z" "2 ^ 62 + 2 ^ 61 \<le> z"
      by (auto simp: ld_const_def fp_of_int_def)
    then show thesis by (intro that [of z]) simp_all
  qed
  then show ?thesis using t y \<open>1 \<le> y\<close> ok
    by (auto simp: checked_duration_def Let_def trunc_rat_def floor_le_iff le_floor_iff)
qed

section \<open>Properties\<close>

text \<open>
  Time conversions never leave the steady clock's range: on every supported kind of
  platform and for every value of the duration, NaN and infinities included, the conversion
  to ticks either throws or yields a tick count the clock can represent (the cast is never
  undefined), and a deadline is never before its origin nor past the end of the clock.
\<close>

theorem time_conversions_in_range:
  assumes "platform_ok p"
  shows "checked_duration p s \<noteq> Inl UndefinedBehaviour \<and>
         (\<forall>n. checked_duration p s = Inr n \<longrightarrow> 0 \<le> n \<and> n \<le> rep_max p) \<and>
         checked_deadline p origin s \<noteq> Inl UndefinedBehaviour \<and>
         (\<forall>d. checked_deadline p origin s = Inr d \<longrightarrow> origin \<le> d \<and> d \<le> rep_max p)"
  using assms checked_duration_defined checked_deadline_defined checked_duration_range
    checked_deadline_range by blast

theorem time_conversions_in_range_witness:
  "platform_ok macos_arm64 \<and> checked_duration macos_arm64 (Finite (2 ^ 100)) \<noteq> Inl UndefinedBehaviour"
  using time_conversions_in_range [OF platform_ok_supported(3), of "Finite (2 ^ 100)"] by simp

end
