(* ===== verification/Types.thy ===== *)
theory Types
  imports Time
begin

text \<open>
  Model of \<open>src/include/netft/types.hpp\<close> and \<open>src/src/types.cpp\<close>: the public enumerations
  and structures, their printed names, and the validation of calibrations and configurations.
  A \<open>double\<close> is an \<open>fp\<close> value of format \<open>binary64\<close>; counters of type \<open>uint64_t\<close> are 64-bit
  words; time points and \<open>int\<close> values are integers.
\<close>

section \<open>Enumerations\<close>

datatype ForceUnit =
  ForceUnknown | PoundForce | Newton | KiloPoundForce | KiloNewton | KilogramForce

datatype TorqueUnit =
    TorqueUnknown | PoundForceInch | PoundForceFoot | NewtonMeter | NewtonMillimeter
  | KilogramForceCentimeter | KiloNewtonMeter

datatype CalibrationSource = SourceSensor | SourceOverride

datatype RecoveryPolicy = Reconnect | FailStop

datatype ClientState = Stopped | Connecting | Streaming | Backoff | Faulted

datatype FaultCode =
    FaultNone | FaultSensorConfiguration | FaultTimeout | FaultSocket | FaultSeriousStatus
  | FaultFtStall | FaultFtBackward | FaultMalformedStorm | FaultCallback

section \<open>Structures\<close>

record Calibration =
  counts_per_force_unit :: fp
  counts_per_torque_unit :: fp
  force_unit :: ForceUnit
  torque_unit :: TorqueUnit

record SensorConfiguration =
  product_name :: string
  calibration :: Calibration
  source :: CalibrationSource
  revision :: u64

record Config =
  sensor_host :: string
  rdt_port :: int
  http_port :: int
  receive_timeout :: fp
  configuration_connect_timeout :: fp
  configuration_timeout :: fp
  reconnect_initial_delay :: fp
  reconnect_max_delay :: fp
  sample_rate_limit_hz :: fp
  deliver_samples_with_error_status :: bool
  recovery_policy :: RecoveryPolicy
  calibration_override :: "Calibration option"

record Sample =
  rdt_sequence :: u32
  ft_sequence :: u32
  status :: u32
  raw_wrench :: "int list"
  force :: "fp list"
  torque :: "fp list"
  sample_force_unit :: ForceUnit
  sample_torque_unit :: TorqueUnit
  configuration_revision :: u64
  received_at :: int

record HealthSnapshot =
  state :: ClientState
  fault_code :: FaultCode
  health_sensor_host :: string
  health_rdt_port :: int
  sensor_configuration :: "SensorConfiguration option"
  last_rdt_sequence :: "u32 option"
  last_ft_sequence :: "u32 option"
  last_status :: u32
  receive_rate_hz :: fp
  delivery_rate_hz :: fp
  received_count :: u64
  delivered_count :: u64
  rate_limited_count :: u64
  device_error_count :: u64
  warning_count :: u64
  lost_count :: u64
  duplicate_count :: u64
  out_of_order_count :: u64
  malformed_count :: u64
  reconnect_count :: u64
  timeout_count :: u64
  callback_error_count :: u64
  ft_stall_count :: u64
  ft_backward_count :: u64
  ft_restart_count :: u64
  calibration_change_count :: u64
  last_record_age :: "fp option"
  last_error :: string
  last_ft_progress :: string

section \<open>Default values\<close>

text \<open>A decimal literal of type \<open>double\<close> is the nearest representable value.\<close>

definition dbl :: "rat \<Rightarrow> fp" where
  "dbl x = fp_round binary64 ToNearest x"

definition Config_default :: Config where
  "Config_default =
     \<lparr>sensor_host = ''192.168.1.1'', rdt_port = 49152, http_port = 80,
      receive_timeout = dbl (1 / 10), configuration_connect_timeout = dbl (1 / 2),
      configuration_timeout = dbl 1, reconnect_initial_delay = dbl (1 / 4),
      reconnect_max_delay = dbl 5, sample_rate_limit_hz = dbl 0,
      deliver_samples_with_error_status = False, recovery_policy = Reconnect,
      calibration_override = None\<rparr>"

definition HealthSnapshot_default :: HealthSnapshot where
  "HealthSnapshot_default =
     \<lparr>state = Stopped, fault_code = FaultNone, health_sensor_host = [], health_rdt_port = 0,
      sensor_configuration = None, last_rdt_sequence = None, last_ft_sequence = None,
      last_status = 0, receive_rate_hz = Finite 0, delivery_rate_hz = Finite 0,
      received_count = 0, delivered_count = 0, rate_limited_count = 0, device_error_count = 0,
      warning_count = 0, lost_count = 0, duplicate_count = 0, out_of_order_count = 0,
      malformed_count = 0, reconnect_count = 0, timeout_count = 0, callback_error_count = 0,
      ft_stall_count = 0, ft_backward_count = 0, ft_restart_count = 0,
      calibration_change_count = 0, last_record_age = None, last_error = [],
      last_ft_progress = ''unknown''\<rparr>"

section \<open>Validation\<close>

text \<open>\<open>std::isspace\<close> in the C locale.\<close>

definition isspace :: "char \<Rightarrow> bool" where
  "isspace c \<longleftrightarrow> c \<in> {CHR '' '', CHR 0x09, CHR 0x0A, CHR 0x0B, CHR 0x0C, CHR 0x0D}"

definition is_blank :: "string \<Rightarrow> bool" where
  "is_blank value = (value = [] \<or> list_all isspace value)"

definition require_positive_finite :: "string \<Rightarrow> fp \<Rightarrow> (exn, unit) result" where
  "require_positive_finite name value =
     throw_if (\<not> fp_isfinite value \<or> fp_le value (Finite 0))
       (InvalidArgument (name @ '' must be finite and positive''))"

definition require_safe_timeout ::
    "platform \<Rightarrow> int \<Rightarrow> string \<Rightarrow> fp \<Rightarrow> bool \<Rightarrow> (exn, unit) result" where
  "require_safe_timeout p now name value http =
     bind_result (require_positive_finite name value) (\<lambda>_.
     bind_result (checked_duration p value) (\<lambda>ticks.
     bind_result (throw_if (ticks \<le> 0)
                    (InvalidArgument (name @ '' is below the steady-clock resolution''))) (\<lambda>_.
     bind_result (checked_deadline p now value) (\<lambda>_.
     throw_if (http \<and>
         fp_le (ld_const p (long_max p))
           (fp_ceil (fp_mul (long_double p) (rounding_direction p)
              (fp_convert (long_double p) (rounding_direction p) value) (ld_const p 1000))))
       (InvalidArgument (name @ '' is outside the HTTP timer range''))))))"

definition require_port :: "string \<Rightarrow> int \<Rightarrow> (exn, unit) result" where
  "require_port name value =
     throw_if (value < 1 \<or> 65535 < value)
       (InvalidArgument (name @ '' must be in the range 1..65535''))"

text \<open>The compile-time constants of \<open>require_safe_count\<close>.\<close>

definition kMagnitude :: fp where
  "kMagnitude = fp_neg (fp_of_int binary64 ToNearest (- (2 ^ 31)))"

definition kDoubleMax :: fp where
  "kDoubleMax = Finite (fp_max binary64)"

definition kEpsilon :: fp where
  "kEpsilon = Finite (1 / 2 ^ 52)"

definition kMinimumCount :: fp where
  "kMinimumCount =
     fp_mul binary64 ToNearest (fp_div binary64 ToNearest kMagnitude kDoubleMax)
       (fp_add binary64 ToNearest (Finite 1) kEpsilon)"

definition require_safe_count :: "string \<Rightarrow> fp \<Rightarrow> (exn, unit) result" where
  "require_safe_count name value =
     bind_result (require_positive_finite name value) (\<lambda>_.
     throw_if (fp_less value kMinimumCount)
       (InvalidArgument (name @ '' cannot represent the full raw count range'')))"

definition validate_calibration :: "Calibration \<Rightarrow> (exn, unit) result" where
  "validate_calibration c =
     bind_result (require_safe_count ''counts_per_force_unit'' (counts_per_force_unit c)) (\<lambda>_.
     bind_result (require_safe_count ''counts_per_torque_unit'' (counts_per_torque_unit c)) (\<lambda>_.
     throw_if (force_unit c = ForceUnknown \<or> torque_unit c = TorqueUnknown)
       (InvalidArgument ''calibration units must be known'')))"

text \<open>
  \<open>validate(const Config &)\<close> reads the steady clock once per timeout: \<open>now i\<close> is the
  \<open>i\<close>-th reading.
\<close>

definition validate_config :: "platform \<Rightarrow> (nat \<Rightarrow> int) \<Rightarrow> Config \<Rightarrow> (exn, unit) result" where
  "validate_config p now c =
     bind_result (throw_if (is_blank (sensor_host c))
                    (InvalidArgument ''sensor_host must not be blank'')) (\<lambda>_.
     bind_result (require_port ''rdt_port'' (rdt_port c)) (\<lambda>_.
     bind_result (require_port ''http_port'' (http_port c)) (\<lambda>_.
     bind_result (require_safe_timeout p (now 0) ''receive_timeout'' (receive_timeout c) False) (\<lambda>_.
     bind_result (require_safe_timeout p (now 1) ''configuration_connect_timeout''
                    (configuration_connect_timeout c) True) (\<lambda>_.
     bind_result (require_safe_timeout p (now 2) ''configuration_timeout''
                    (configuration_timeout c) True) (\<lambda>_.
     bind_result (require_safe_timeout p (now 3) ''reconnect_initial_delay''
                    (reconnect_initial_delay c) False) (\<lambda>_.
     bind_result (require_safe_timeout p (now 4) ''reconnect_max_delay''
                    (reconnect_max_delay c) False) (\<lambda>_.
     bind_result (throw_if (fp_less (reconnect_max_delay c) (reconnect_initial_delay c))
                    (InvalidArgument
                       ''reconnect_max_delay must not be below reconnect_initial_delay'')) (\<lambda>_.
     bind_result (throw_if (\<not> fp_isfinite (sample_rate_limit_hz c) \<or>
                            fp_less (sample_rate_limit_hz c) (Finite 0))
                    (InvalidArgument ''sample_rate_limit_hz must be finite and non-negative'')) (\<lambda>_.
     case calibration_override c of None \<Rightarrow> Inr () | Some k \<Rightarrow> validate_calibration k))))))))))"

section \<open>Names of enumerators\<close>

fun to_string_ForceUnit :: "ForceUnit \<Rightarrow> string" where
  "to_string_ForceUnit PoundForce = ''lbf''"
| "to_string_ForceUnit Newton = ''N''"
| "to_string_ForceUnit KiloPoundForce = ''klbf''"
| "to_string_ForceUnit KiloNewton = ''kN''"
| "to_string_ForceUnit KilogramForce = ''kgf''"
| "to_string_ForceUnit ForceUnknown = ''unknown''"

fun to_string_TorqueUnit :: "TorqueUnit \<Rightarrow> string" where
  "to_string_TorqueUnit PoundForceInch = ''lbf-in''"
| "to_string_TorqueUnit PoundForceFoot = ''lbf-ft''"
| "to_string_TorqueUnit NewtonMeter = ''N-m''"
| "to_string_TorqueUnit NewtonMillimeter = ''N-mm''"
| "to_string_TorqueUnit KilogramForceCentimeter = ''kgf-cm''"
| "to_string_TorqueUnit KiloNewtonMeter = ''kN-m''"
| "to_string_TorqueUnit TorqueUnknown = ''unknown''"

definition force_unit_from_string :: "string \<Rightarrow> ForceUnit option" where
  "force_unit_from_string value =
     List.find (\<lambda>unit. to_string_ForceUnit unit = value)
       [ForceUnknown, PoundForce, Newton, KiloPoundForce, KiloNewton, KilogramForce]"

definition torque_unit_from_string :: "string \<Rightarrow> TorqueUnit option" where
  "torque_unit_from_string value =
     List.find (\<lambda>unit. to_string_TorqueUnit unit = value)
       [TorqueUnknown, PoundForceInch, PoundForceFoot, NewtonMeter, NewtonMillimeter,
        KilogramForceCentimeter, KiloNewtonMeter]"

fun to_string_ClientState :: "ClientState \<Rightarrow> string" where
  "to_string_ClientState Stopped = ''stopped''"
| "to_string_ClientState Connecting = ''connecting''"
| "to_string_ClientState Streaming = ''streaming''"
| "to_string_ClientState Backoff = ''backoff''"
| "to_string_ClientState Faulted = ''faulted''"

fun to_string_FaultCode :: "FaultCode \<Rightarrow> string" where
  "to_string_FaultCode FaultNone = ''none''"
| "to_string_FaultCode FaultSensorConfiguration = ''sensor_configuration''"
| "to_string_FaultCode FaultTimeout = ''timeout''"
| "to_string_FaultCode FaultSocket = ''socket''"
| "to_string_FaultCode FaultSeriousStatus = ''serious_status''"
| "to_string_FaultCode FaultFtStall = ''ft_stall''"
| "to_string_FaultCode FaultFtBackward = ''ft_backward''"
| "to_string_FaultCode FaultMalformedStorm = ''malformed_storm''"
| "to_string_FaultCode FaultCallback = ''callback''"

section \<open>The contract of printed names\<close>

text \<open>
  Names of units are exchanged with the device and with users: printing followed by
  parsing gives the unit back, and parsing accepts printed names only.
\<close>

locale named_enum =
  fixes print_name :: "'e \<Rightarrow> string"
    and parse_name :: "string \<Rightarrow> 'e option"
  assumes parse_print: "parse_name (print_name u) = Some u"
    and print_parse: "parse_name s = Some u \<Longrightarrow> print_name u = s"
begin

lemma parse_iff: "parse_name s = Some u \<longleftrightarrow> s = print_name u"
  using parse_print print_parse by auto

lemma print_inj: "print_name u = print_name v \<longleftrightarrow> u = v"
  by (metis option.inject parse_print)

lemma parse_None_iff: "parse_name s = None \<longleftrightarrow> s \<notin> range print_name"
proof -
  have "parse_name s \<noteq> None \<longleftrightarrow> (\<exists>u. s = print_name u)"
    unfolding parse_iff [symmetric] by (rule not_None_eq)
  then show ?thesis by blast
qed

end

lemma find_eq_Some_imp: "List.find P xs = Some x \<Longrightarrow> P x"
  by (auto simp: find_Some_iff)

interpretation force_names: named_enum to_string_ForceUnit force_unit_from_string
proof
  show "force_unit_from_string (to_string_ForceUnit u) = Some u" for u
    by (cases u) (simp_all add: force_unit_from_string_def)
  show "force_unit_from_string s = Some u \<Longrightarrow> to_string_ForceUnit u = s" for s u
    unfolding force_unit_from_string_def by (rule find_eq_Some_imp)
qed

interpretation torque_names: named_enum to_string_TorqueUnit torque_unit_from_string
proof
  show "torque_unit_from_string (to_string_TorqueUnit u) = Some u" for u
    by (cases u) (simp_all add: torque_unit_from_string_def)
  show "torque_unit_from_string s = Some u \<Longrightarrow> to_string_TorqueUnit u = s" for s u
    unfolding torque_unit_from_string_def by (rule find_eq_Some_imp)
qed

section \<open>What validation establishes\<close>

lemma require_positive_finite_ok:
  "require_positive_finite name v = Inr u \<longleftrightarrow> (\<exists>x. v = Finite x \<and> 0 < x)"
  by (cases v) (auto simp: require_positive_finite_def)

lemma kMagnitude_eq: "kMagnitude = Finite (2 ^ 31)"
  using fp_of_int_binary64 [of "- (2 ^ 31)" ToNearest] by (simp add: kMagnitude_def)

text \<open>A rounding is determined once the binary exponent of its argument is known.\<close>

lemma fp_round_normal:
  assumes "2 powi k \<le> x" "x < 2 powi (k + 1)" "fp_emin f \<le> k"
    and "q = 2 powi (k - int (fp_precision f) + 1)"
    and "round_int m (x / q) = n" "0 \<le> n" "of_int n * q \<le> fp_max f"
  shows "fp_round f m x = Finite (of_int n * q)"
proof -
  have pos: "0 < x" using assms(1) powi_two_pos [of k] by linarith
  then have "ilog2 \<bar>x\<bar> = k" using ilog2_unique [OF assms(1,2)] by simp
  then have "2 powi (quantum f x) = q" using assms(3,4) by (simp add: quantum_def)
  moreover have "0 \<le> of_int n * q" using assms(4,6) by simp
  ultimately show ?thesis using assms pos by (simp add: fp_round_def Let_def)
qed

lemma kMinimumCount_quotient:
  "fp_div binary64 ToNearest kMagnitude kDoubleMax = Finite ((2 ^ 52 + 1) / 2 ^ 1045)"
proof -
  have "fp_round binary64 ToNearest (2 ^ 31 / fp_max binary64)
        = Finite (of_int (2 ^ 52 + 1) * (1 / 2 ^ 1045))"
    unfolding fp_max_binary64
  proof (rule fp_round_normal [where k = "- 993"])
    show "round_int ToNearest (2 ^ 31 / ((2 ^ 53 - 1) * 2 ^ 971) / (1 / 2 ^ 1045)) = 2 ^ 52 + 1"
      unfolding round_int.simps by (rule round_nearest_even_near) simp_all
  qed (simp_all add: binary64_def fp_max_def power_int_minus)
  then show ?thesis by (simp add: kMagnitude_eq kDoubleMax_def fp_max_binary64)
qed

lemma kMinimumCount_eq: "kMinimumCount = Finite ((2 ^ 51 + 1) / 2 ^ 1044)"
proof -
  have one: "fp_round binary64 ToNearest (1 + 1 / 2 ^ 52) = Finite (1 + 1 / 2 ^ 52)"
  proof (rule fp_round_exact)
    show "representable binary64 (1 + 1 / 2 ^ 52)" unfolding representable_def
      by (rule exI [of _ "2 ^ 52 + 1"], rule exI [of _ "- 52"])
        (simp add: binary64_def power_int_minus)
    show "\<bar>1 + 1 / 2 ^ 52\<bar> \<le> fp_max binary64" by (simp add: fp_max_binary64)
  qed
  have "fp_round binary64 ToNearest ((2 ^ 52 + 1) / 2 ^ 1045 * (1 + 1 / 2 ^ 52))
        = Finite (of_int (2 ^ 52 + 2) * (1 / 2 ^ 1045))"
  proof (rule fp_round_normal [where k = "- 993"])
    show "round_int ToNearest ((2 ^ 52 + 1) / 2 ^ 1045 * (1 + 1 / 2 ^ 52) / (1 / 2 ^ 1045)) = 2 ^ 52 + 2"
      unfolding round_int.simps by (rule round_nearest_even_near) simp_all
  qed (simp_all add: binary64_def fp_max_def power_int_minus)
  with one show ?thesis
    by (simp add: kMinimumCount_def kMinimumCount_quotient kEpsilon_def)
qed

text \<open>
  The comment at the limit: every raw count stays representable after division by an
  accepted count, in every rounding direction.
\<close>

lemma count_quotient_finite:
  assumes "- (2 ^ 31) \<le> n" "n < 2 ^ 31" "\<not> fp_less (Finite c) kMinimumCount"
  shows "\<exists>y. fp_div binary64 m (fp_of_int binary64 m n) (Finite c) = Finite y \<and> \<bar>y\<bar> \<le> fp_max binary64"
proof -
  have c: "(2 ^ 51 + 1) / 2 ^ 1044 \<le> c" using assms(3) by (simp add: kMinimumCount_eq)
  have pos: "0 < c" using c by (rule less_le_trans [rotated]) simp
  have "\<bar>of_int n :: rat\<bar> \<le> 2 ^ 31" using assms(1,2) by (simp add: abs_le_iff)
  then have "\<bar>of_int n / c\<bar> \<le> 2 ^ 31 / ((2 ^ 51 + 1) / 2 ^ 1044)"
    unfolding abs_divide using c pos by (intro frac_le) auto
  also have "\<dots> \<le> fp_max binary64" by (simp add: fp_max_binary64)
  finally have "\<exists>y. fp_round binary64 m (of_int n / c) = Finite y \<and> \<bar>y\<bar> \<le> fp_max binary64"
    by (rule fp_round_bounded [OF fp_wf_formats(1)])
  then show ?thesis using pos assms(1,2) fp_of_int_binary64 [of n m] by simp
qed

lemma validate_calibration_ok:
  assumes "validate_calibration c = Inr u"
  shows "\<exists>x. counts_per_force_unit c = Finite x \<and> \<not> fp_less (Finite x) kMinimumCount"
    and "\<exists>x. counts_per_torque_unit c = Finite x \<and> \<not> fp_less (Finite x) kMinimumCount"
    and "force_unit c \<noteq> ForceUnknown" and "torque_unit c \<noteq> TorqueUnknown"
  using assms
  by (auto simp: validate_calibration_def require_safe_count_def require_positive_finite_ok
      bind_result_eq_Inr_iff)

lemma require_safe_timeout_ok:
  assumes "platform_ok p" "require_safe_timeout p now name v http = Inr u"
  shows "\<exists>x n. v = Finite x \<and> 0 < x \<and> checked_duration p v = Inr n \<and> 0 < n \<and>
               now + n \<le> rep_max p \<and>
               (http \<longrightarrow> \<not> fp_le (ld_const p (long_max p))
                  (fp_ceil (fp_mul (long_double p) (rounding_direction p)
                     (fp_convert (long_double p) (rounding_direction p) v) (ld_const p 1000))))"
  using assms(2)
  by (auto simp: require_safe_timeout_def require_positive_finite_ok bind_result_eq_Inr_iff
      checked_deadline_def split: if_splits)

text \<open>
  Timeouts from one tick up to \<open>2 ^ 20\<close> seconds are accepted on every platform with a
  nanosecond clock.
\<close>

definition ordinary_timeout :: "fp \<Rightarrow> bool" where
  "ordinary_timeout v \<longleftrightarrow>
     (\<exists>s. v = Finite s \<and> representable binary64 s \<and> 1 \<le> s * 1000000000 \<and> s \<le> 2 ^ 20)"

lemma ld_small_const:
  assumes "platform_ok p" "\<bar>n\<bar> < 2 ^ 53"
  shows "ld_const p n = Finite (of_int n)"
  unfolding ld_const_def fp_of_int_def using assms by (rule ld_round_int)

lemma ld_long_max_ge:
  assumes "platform_ok p"
  shows "\<exists>y. ld_const p (long_max p) = Finite y \<and> 2 ^ 31 - 1 \<le> y"
proof -
  note ok = assms [unfolded platform_ok_def]
  have r: "representable (long_double p) (of_int (2 ^ 31 - 1))"
  proof (rule representable_int)
    have "(2::int) ^ 31 \<le> 2 ^ fp_precision (long_double p)" using ok by (intro power_increasing) auto
    then show "\<bar>2 ^ 31 - 1 :: int\<bar> < 2 ^ fp_precision (long_double p)" by simp
  qed (use ok in auto)
  have "\<exists>y. fp_round (long_double p) ToNearest (of_int (long_max p)) = Finite y \<and>
            of_int (2 ^ 31 - 1) \<le> y"
    using ok r ld_two_power [OF assms, of 64] by (intro fp_round_ge) auto
  then show ?thesis by (auto simp: ld_const_def fp_of_int_def)
qed

lemma require_safe_timeout_accepts:
  assumes "platform_ok p" "period_num p = 1" "period_den p = 1000000000"
    and "ordinary_timeout v" "now \<le> 2 ^ 62 - 1"
  shows "require_safe_timeout p now name v http = Inr ()"
proof -
  from assms(4) obtain s where s: "v = Finite s" "representable binary64 s"
    "1 \<le> s * 1000000000" "s \<le> 2 ^ 20" by (auto simp: ordinary_timeout_def)
  obtain n where n: "checked_duration p v = Inr n" "1 \<le> n" "n \<le> 2 ^ 62"
    using checked_duration_accepts [OF assms(1-3) s(2,3)] s by auto
  have sp: "0 < s" "\<bar>s\<bar> \<le> fp_max binary64" using s(3,4) by (auto simp: fp_max_binary64)
  have conv: "fp_convert (long_double p) (rounding_direction p) v = Finite s"
    unfolding s(1) by (rule ld_extends_double [OF assms(1) s(2) sp(2)])
  have k: "ld_const p 1000 = Finite 1000" using ld_small_const [OF assms(1), of 1000] by simp
  obtain y where y: "fp_round (long_double p) (rounding_direction p) (s * 1000) = Finite y" "y \<le> 2 ^ 30"
    using fp_round_le [of "long_double p" "s * 1000" "2 ^ 30" "rounding_direction p"]
      ld_two_power [OF assms(1), of 30] assms(1) s(4) sp(1) by (auto simp: platform_ok_def)
  obtain L where L: "ld_const p (long_max p) = Finite L" "2 ^ 31 - 1 \<le> L"
    using ld_long_max_ge [OF assms(1)] by blast
  have "\<lceil>y\<rceil> \<le> 2 ^ 30" using y(2) by (simp add: ceiling_le_iff)
  then have "(of_int \<lceil>y\<rceil> :: rat) \<le> of_int (2 ^ 30)" by (rule of_int_le_iff [THEN iffD2])
  also have "\<dots> < L" using L(2) by simp
  finally have http: "\<not> fp_le (Finite L) (Finite (of_int \<lceil>y\<rceil>))" by simp
  have dl: "checked_deadline p now v = Inr (now + n)"
    using n assms(1,5) by (simp add: checked_deadline_def platform_ok_def)
  have pos: "require_positive_finite name v = Inr ()" using s(1) sp(1) by (simp add: require_positive_finite_ok)
  show ?thesis
    using n http by (simp add: require_safe_timeout_def pos dl conv k y(1) L(1))
qed

lemma ordinary_timeout_dbl:
  assumes "1 / 500000000 \<le> x" "x \<le> 2 ^ 20"
  shows "ordinary_timeout (dbl x)"
proof -
  have m: "\<bar>x\<bar> \<le> fp_max binary64" "0 < x" using assms by (auto simp: fp_max_binary64)
  have r: "representable binary64 (2 ^ 20)" "representable binary64 (1 / 2 ^ 29)"
  proof -
    show "representable binary64 (2 ^ 20)" using representable_int [of "2 ^ 20" binary64]
      by (simp add: binary64_def)
    show "representable binary64 (1 / 2 ^ 29)" unfolding representable_def
      by (rule exI [of _ 1], rule exI [of _ "- 29"]) (simp add: binary64_def power_int_minus)
  qed
  obtain y where y: "dbl x = Finite y" "y \<le> 2 ^ 20"
    using fp_round_le [of binary64 x "2 ^ 20" ToNearest] r m assms
    by (auto simp: dbl_def fp_max_binary64)
  moreover have "1 / 2 ^ 29 \<le> y"
    using fp_round_ge [of binary64 "1 / 2 ^ 29" x ToNearest] r m assms y by (auto simp: dbl_def)
  moreover have "representable binary64 y"
    using fp_round_representable [of binary64 x ToNearest y] m y by (simp add: dbl_def)
  ultimately show ?thesis by (simp add: ordinary_timeout_def)
qed

lemma validate_config_accepts:
  assumes "platform_ok p" and "period_num p = 1" and "period_den p = 1000000000"
    and "now 0 \<le> 2 ^ 62 - 1" and "now 1 \<le> 2 ^ 62 - 1" and "now 2 \<le> 2 ^ 62 - 1"
    and "now 3 \<le> 2 ^ 62 - 1" and "now 4 \<le> 2 ^ 62 - 1"
    and "\<not> is_blank (sensor_host c)" and "rdt_port c \<in> {1..65535}" and "http_port c \<in> {1..65535}"
    and "ordinary_timeout (receive_timeout c)" and "ordinary_timeout (configuration_connect_timeout c)"
    and "ordinary_timeout (configuration_timeout c)" and "ordinary_timeout (reconnect_initial_delay c)"
    and "ordinary_timeout (reconnect_max_delay c)"
    and "\<not> fp_less (reconnect_max_delay c) (reconnect_initial_delay c)"
    and "fp_isfinite (sample_rate_limit_hz c)" and "\<not> fp_less (sample_rate_limit_hz c) (Finite 0)"
    and "case calibration_override c of None \<Rightarrow> True | Some k \<Rightarrow> validate_calibration k = Inr ()"
  shows "validate_config p now c = Inr ()"
proof -
  note acc = require_safe_timeout_accepts [OF assms(1-3)]
  have port: "require_port name v = Inr ()" if "v \<in> {1..65535}" for name v
    using that by (simp add: require_port_def)
  show ?thesis
    unfolding validate_config_def
    using assms(9,17-20)
    by (simp add: port [OF assms(10)] port [OF assms(11)] acc [OF assms(12,4)] acc [OF assms(13,5)]
        acc [OF assms(14,6)] acc [OF assms(15,7)] acc [OF assms(16,8)]
        del: One_nat_def split: option.splits)
qed

lemma Config_default_ordinary:
  "ordinary_timeout (receive_timeout Config_default)"
  "ordinary_timeout (configuration_connect_timeout Config_default)"
  "ordinary_timeout (configuration_timeout Config_default)"
  "ordinary_timeout (reconnect_initial_delay Config_default)"
  "ordinary_timeout (reconnect_max_delay Config_default)"
  unfolding Config_default_def by (simp_all add: ordinary_timeout_dbl)

lemma dbl_representable:
  assumes "representable binary64 x" "\<bar>x\<bar> \<le> fp_max binary64"
  shows "dbl x = Finite x"
  unfolding dbl_def using assms by (rule fp_round_exact)

lemma dbl_quarters:
  assumes "\<bar>n\<bar> < 2 ^ 53"
  shows "dbl (of_int n / 4) = Finite (of_int n / 4)"
proof (rule dbl_representable)
  show "representable binary64 (of_int n / 4)" unfolding representable_def
    using assms by (intro exI [of _ n] exI [of _ "- 2"]) (simp add: binary64_def power_int_minus)
  have "(of_int \<bar>n\<bar> :: rat) \<le> of_int (2 ^ 53)" using assms by (intro of_int_le_iff [THEN iffD2]) simp
  also have "\<dots> \<le> fp_max binary64" by (simp add: fp_max_binary64)
  finally show "\<bar>of_int n / 4\<bar> \<le> fp_max binary64" by simp
qed

lemma Config_default_delays:
  "reconnect_initial_delay Config_default = Finite (1 / 4)"
  "reconnect_max_delay Config_default = Finite 5"
  "sample_rate_limit_hz Config_default = Finite 0"
  using dbl_quarters [of 1] dbl_quarters [of 20] dbl_quarters [of 0]
  by (simp_all add: Config_default_def)

lemma Config_default_accepted: "validate_config macos_arm64 (\<lambda>_. 0) Config_default = Inr ()"
proof (rule validate_config_accepts)
  show "period_num macos_arm64 = 1" "period_den macos_arm64 = 1000000000"
    by (simp_all add: macos_arm64_def linux_x86_64_def)
  show "\<not> is_blank (sensor_host Config_default)"
    by (simp add: Config_default_def is_blank_def isspace_def)
  show "\<not> fp_less (reconnect_max_delay Config_default) (reconnect_initial_delay Config_default)"
    "fp_isfinite (sample_rate_limit_hz Config_default)"
    "\<not> fp_less (sample_rate_limit_hz Config_default) (Finite 0)"
    by (simp_all add: Config_default_delays)
qed (simp_all add: Config_default_ordinary, simp_all add: Config_default_def)

section \<open>Properties\<close>

text \<open>
  C15. An accepted calibration cannot overflow a sample: dividing any 32-bit raw count by
  either scale of a calibration that passed validation gives a finite number, in every
  rounding direction, as the comment in \<open>require_safe_count\<close> promises.
\<close>

theorem accepted_calibration_keeps_axes_finite:
  assumes "validate_calibration c = Inr ()" and "- (2 ^ 31) \<le> raw" and "raw < 2 ^ 31"
  shows "fp_isfinite (fp_div binary64 m (fp_of_int binary64 m raw) (counts_per_force_unit c)) \<and>
         fp_isfinite (fp_div binary64 m (fp_of_int binary64 m raw) (counts_per_torque_unit c))"
  using validate_calibration_ok(1,2) [OF assms(1)] count_quotient_finite [OF assms(2,3), of _ m]
  by (metis fp_isfinite_iff)

theorem accepted_calibration_keeps_axes_finite_witness:
  "fp_isfinite (fp_div binary64 Upward (fp_of_int binary64 Upward (- (2 ^ 31)))
     (Finite ((2 ^ 51 + 1) / 2 ^ 1044)))"
proof -
  let ?c = "\<lparr>counts_per_force_unit = Finite ((2 ^ 51 + 1) / 2 ^ 1044),
             counts_per_torque_unit = Finite 1000, force_unit = Newton,
             torque_unit = NewtonMeter\<rparr>"
  have "validate_calibration ?c = Inr ()"
    by (simp add: validate_calibration_def require_safe_count_def require_positive_finite_def
        kMinimumCount_eq)
  from accepted_calibration_keeps_axes_finite [OF this, of "- (2 ^ 31)" Upward] show ?thesis by simp
qed

text \<open>
  Unit names round-trip: a string parses to a unit exactly when it is the printed name
  of that unit, for force and for torque.
\<close>

theorem unit_names_roundtrip:
  "(force_unit_from_string s = Some u \<longleftrightarrow> s = to_string_ForceUnit u) \<and>
   (torque_unit_from_string s = Some v \<longleftrightarrow> s = to_string_TorqueUnit v)"
  by (simp add: force_names.parse_iff torque_names.parse_iff)

text \<open>
  C35. What an accepted configuration guarantees: a host that is not blank, ports in range,
  timeouts that are positive and at least one tick of the clock and whose deadlines are
  representable at the time of the check, delays in order, and a valid override if any.
\<close>

theorem accepted_config_is_usable:
  assumes "platform_ok p" and "validate_config p now c = Inr ()"
  shows "\<not> is_blank (sensor_host c) \<and> 1 \<le> rdt_port c \<and> rdt_port c \<le> 65535 \<and>
         1 \<le> http_port c \<and> http_port c \<le> 65535 \<and>
         (\<forall>(i, v) \<in> {(0, receive_timeout c), (1, configuration_connect_timeout c),
              (2, configuration_timeout c), (3, reconnect_initial_delay c),
              (4, reconnect_max_delay c)}.
            \<exists>x n. v = Finite x \<and> 0 < x \<and> checked_duration p v = Inr n \<and> 0 < n \<and>
                  now i + n \<le> rep_max p) \<and>
         \<not> fp_less (reconnect_max_delay c) (reconnect_initial_delay c) \<and>
         (\<forall>k. calibration_override c = Some k \<longrightarrow> validate_calibration k = Inr ())"
  using assms(2)
  by (auto simp: validate_config_def bind_result_eq_Inr_iff require_port_def
      dest!: require_safe_timeout_ok [OF assms(1)] split: option.splits)

theorem accepted_config_is_usable_witness:
  "validate_config macos_arm64 (\<lambda>_. 0) Config_default = Inr () \<and>
   1 \<le> rdt_port Config_default \<and> \<not> is_blank (sensor_host Config_default)"
  using Config_default_accepted
    accepted_config_is_usable [OF platform_ok_supported(3) Config_default_accepted] by blast

text \<open>
  Validation accepts every ordinary configuration, the defaults included: on a platform
  with a nanosecond clock that has not run for 146 years, timeouts between one tick and
  \<open>2 ^ 20\<close> seconds with valid host, ports, delays and override are never rejected.
\<close>

theorem ordinary_config_accepted:
  assumes "platform_ok p" and "period_num p = 1" and "period_den p = 1000000000"
    and "now 0 \<le> 2 ^ 62 - 1" and "now 1 \<le> 2 ^ 62 - 1" and "now 2 \<le> 2 ^ 62 - 1"
    and "now 3 \<le> 2 ^ 62 - 1" and "now 4 \<le> 2 ^ 62 - 1"
    and "\<not> is_blank (sensor_host c)" and "rdt_port c \<in> {1..65535}" and "http_port c \<in> {1..65535}"
    and "ordinary_timeout (receive_timeout c)" and "ordinary_timeout (configuration_connect_timeout c)"
    and "ordinary_timeout (configuration_timeout c)" and "ordinary_timeout (reconnect_initial_delay c)"
    and "ordinary_timeout (reconnect_max_delay c)"
    and "\<not> fp_less (reconnect_max_delay c) (reconnect_initial_delay c)"
    and "fp_isfinite (sample_rate_limit_hz c)" and "\<not> fp_less (sample_rate_limit_hz c) (Finite 0)"
    and "case calibration_override c of None \<Rightarrow> True | Some k \<Rightarrow> validate_calibration k = Inr ()"
  shows "validate_config p now c = Inr ()"
  using assms by (rule validate_config_accepts)

theorem ordinary_config_accepted_witness:
  "validate_config macos_arm64 (\<lambda>_. 0) Config_default = Inr ()"
proof (rule ordinary_config_accepted)
  show "period_num macos_arm64 = 1" "period_den macos_arm64 = 1000000000"
    by (simp_all add: macos_arm64_def linux_x86_64_def)
  show "\<not> is_blank (sensor_host Config_default)"
    by (simp add: Config_default_def is_blank_def isspace_def)
  show "\<not> fp_less (reconnect_max_delay Config_default) (reconnect_initial_delay Config_default)"
    "fp_isfinite (sample_rate_limit_hz Config_default)"
    "\<not> fp_less (sample_rate_limit_hz Config_default) (Finite 0)"
    by (simp_all add: Config_default_delays)
qed (simp_all add: Config_default_ordinary, simp_all add: Config_default_def)

end
