(* ===== verification/Status.thy ===== *)
theory Status
  imports Prelude
begin

text \<open>
  Model of \<open>src/include/netft/status.hpp\<close> and \<open>src/src/status.cpp\<close>: the severity of a
  device status word and its description as a list of the known conditions.
\<close>

unbundle bit_operations_syntax

datatype StatusSeverity = Ok | Warn | Error

definition kStatusBits :: "(u32 \<times> string) list" where
  "kStatusBits =
    [(0x80000000, ''error summary''),
     (0x40000000, ''CPU or RAM error''),
     (0x20000000, ''digital board error''),
     (0x10000000, ''analog board error''),
     (0x08000000, ''serial link communication error''),
     (0x04000000, ''program memory verification error''),
     (0x02000000, ''halted due to configuration errors''),
     (0x01000000, ''settings validation error''),
     (0x00800000, ''configuration incompatible with calibration''),
     (0x00400000, ''network communication failure''),
     (0x00200000, ''CAN communication error''),
     (0x00100000, ''RDT communication error''),
     (0x00080000, ''EtherNet/IP protocol failure''),
     (0x00040000, ''DeviceNet protocol failure''),
     (0x00020000, ''transducer saturation or A/D error''),
     (0x00010000, ''monitor condition latched''),
     (0x00004000, ''watchdog timeout error''),
     (0x00002000, ''stack check error''),
     (0x00001000, ''serial EEPROM I2C failure''),
     (0x00000800, ''serial flash SPI failure''),
     (0x00000400, ''analog board watchdog timeout''),
     (0x00000200, ''excessive strain gage excitation current''),
     (0x00000100, ''insufficient strain gage excitation current''),
     (0x00000080, ''artificial analog ground out of range''),
     (0x00000040, ''analog board power supply too high''),
     (0x00000020, ''analog board power supply too low''),
     (0x00000010, ''serial link data unavailable''),
     (0x00000008, ''reference voltage or power monitoring error''),
     (0x00000004, ''internal temperature error''),
     (0x00000002, ''HTTP protocol failure'')]"

definition classify_status :: "u32 \<Rightarrow> StatusSeverity" where
  "classify_status s =
     (if s = 0 then Ok else if s = 0x80010000 then Warn else Error)"

text \<open>The loop of \<open>decode_status\<close>: one pass over the table with the result so far.\<close>

fun decode_loop :: "u32 \<Rightarrow> (u32 \<times> string) list \<Rightarrow> string \<Rightarrow> string" where
  "decode_loop s [] result = result"
| "decode_loop s ((m, name) # rest) result =
     (if s AND m \<noteq> 0
      then decode_loop s rest ((if result \<noteq> [] then result @ '', '' else result) @ name)
      else decode_loop s rest result)"

definition decode_status :: "u32 \<Rightarrow> string" where
  "decode_status s = (if s = 0 then ''healthy'' else decode_loop s kStatusBits [])"

section \<open>What the loop computes\<close>

definition set_conditions :: "u32 \<Rightarrow> (u32 \<times> string) list \<Rightarrow> string list" where
  "set_conditions s tbl = map snd (filter (\<lambda>(m, name). s AND m \<noteq> 0) tbl)"

lemma decode_loop_join:
  assumes "\<forall>(m, name) \<in> set tbl. name \<noteq> []" and "\<forall>x \<in> set ds. x \<noteq> []"
  shows "decode_loop s tbl (join '', '' ds) = join '', '' (ds @ set_conditions s tbl)"
  using assms
proof (induction tbl arbitrary: ds)
  case Nil
  then show ?case by (simp add: set_conditions_def)
next
  case (Cons e tbl)
  obtain m name where e: "e = (m, name)" by (cases e)
  have step: "join '', '' (ds @ [name]) =
      (if join '', '' ds \<noteq> [] then join '', '' ds @ '', '' else join '', '' ds) @ name"
    using Cons.prems(2) by (cases "ds = []") (auto simp: join_snoc join_eq_Nil)
  have IH: "decode_loop s tbl (join '', '' (ds @ [name])) =
      join '', '' ((ds @ [name]) @ set_conditions s tbl)"
    using Cons.prems by (intro Cons.IH) (auto simp: e)
  show ?case
    using Cons.IH [OF _ Cons.prems(2)] Cons.prems(1) IH
    by (simp add: e set_conditions_def flip: step)
qed

lemma kStatusBits_names: "\<forall>(m, name) \<in> set kStatusBits. name \<noteq> []"
  by (simp add: kStatusBits_def)

definition known_bits :: u32 where
  "known_bits = foldr (\<lambda>(m, name) acc. m OR acc) kStatusBits 0"

lemma known_bits_eq: "known_bits = 0xFFFF7FFE"
  by (simp add: known_bits_def kStatusBits_def)

lemma and_foldr_or_eq_0:
  "(s :: u32) AND foldr (\<lambda>(m, name) acc. m OR acc) tbl 0 = 0 \<longleftrightarrow>
     (\<forall>(m, name) \<in> set tbl. s AND m = 0)"
proof (induction tbl)
  case (Cons e tbl)
  have "x OR y = 0 \<longleftrightarrow> x = 0 \<and> y = 0" for x y :: u32
    by (metis or.right_neutral or_eq_0_iff)
  with Cons show ?case by (auto simp: bit.conj_disj_distrib split: prod.splits)
qed simp

lemma set_conditions_empty: "set_conditions s kStatusBits = [] \<longleftrightarrow> s AND known_bits = 0"
  by (auto simp: set_conditions_def known_bits_def and_foldr_or_eq_0 filter_empty_conv)

section \<open>Properties\<close>

text \<open>
  The description of a status word is the comma-separated list, in table order, of
  exactly the known conditions whose bit is set; it is empty exactly when the word is
  nonzero but has no known bit (only bits 0 and 15 are unknown).
\<close>

theorem decode_status_lists_conditions:
  "(s \<noteq> 0 \<longrightarrow> decode_status s = join '', '' (set_conditions s kStatusBits)) \<and>
   (decode_status s = [] \<longleftrightarrow> s \<noteq> 0 \<and> s AND 0xFFFF7FFE = 0)"
proof -
  have d: "decode_status s = join '', '' (set_conditions s kStatusBits)" if "s \<noteq> 0"
    using that decode_loop_join [OF kStatusBits_names, of "[]" s] by (simp add: decode_status_def)
  have "\<forall>x \<in> set (set_conditions s kStatusBits). x \<noteq> []"
    using kStatusBits_names by (auto simp: set_conditions_def)
  then have "join '', '' (set_conditions s kStatusBits) = [] \<longleftrightarrow> s AND 0xFFFF7FFE = 0"
    by (simp add: join_eq_Nil set_conditions_empty known_bits_eq)
  with d show ?thesis by (cases "s = 0") (auto simp: decode_status_def)
qed

theorem decode_status_lists_conditions_witness:
  "decode_status 0x80010000 = ''error summary, monitor condition latched'' \<and> decode_status 0x8000 = []"
  using decode_status_lists_conditions [of "0x80010000"] decode_status_lists_conditions [of "0x8000"]
  by (simp add: set_conditions_def kStatusBits_def)

end
