(* ===== verification/Protocol.thy ===== *)
theory Protocol
  imports Prelude
begin

text \<open>
  Model of \<open>src/src/detail/protocol.hpp\<close> and \<open>protocol.cpp\<close>: the 8-byte request and the
  36-byte record of the RDT protocol. Bytes are 8-bit words, unsigned fields 32-bit words,
  signed axis counts integers with a range theorem. A pointer is an optional byte list.
\<close>

unbundle bit_operations_syntax

section \<open>Data\<close>

datatype Command =
  StopStreaming | StartRealtime | StartBuffered | ResetConditionLatch | SetSoftwareBias

fun command_value :: "Command \<Rightarrow> u16" where
  "command_value StopStreaming = 0x0000"
| "command_value StartRealtime = 0x0002"
| "command_value StartBuffered = 0x0003"
| "command_value ResetConditionLatch = 0x0041"
| "command_value SetSoftwareBias = 0x0042"

record RawRecord =
  rec_rdt_sequence :: u32
  rec_ft_sequence :: u32
  rec_status :: u32
  fx :: int
  fy :: int
  fz :: int
  tx :: int
  ty :: int
  tz :: int

section \<open>Operations\<close>

definition read_u32 :: "u8 list \<Rightarrow> u32" where
  "read_u32 d =
     push_bit 24 (ucast (d ! 0)) OR push_bit 16 (ucast (d ! 1)) OR
     push_bit 8 (ucast (d ! 2)) OR ucast (d ! 3)"

definition read_i32 :: "u8 list \<Rightarrow> int" where
  "read_i32 d =
     (let value = read_u32 d
      in if value \<le> 0x7fffffff then uint value else - uint (NOT value) - 1)"

definition encode_request :: "Command \<Rightarrow> u32 \<Rightarrow> u8 list" where
  "encode_request command count =
     (let value = command_value command
      in [0x12, 0x34, ucast (drop_bit 8 value), ucast value,
          ucast (drop_bit 24 count), ucast (drop_bit 16 count),
          ucast (drop_bit 8 count), ucast count])"

text \<open>
  The decoder reads 36 bytes through the pointer; a buffer that holds fewer would be read
  out of bounds.
\<close>

definition decode_record :: "u8 list option \<Rightarrow> nat \<Rightarrow> (exn, RawRecord) result" where
  "decode_record data sz =
     (if sz \<noteq> 36 then
        Inl (ProtocolError (''RDT record must be exactly 36 bytes, received '' @ to_string_nat sz))
      else case data of
        None \<Rightarrow> Inl (ProtocolError ''RDT record data must not be null'')
      | Some d \<Rightarrow>
          if length d < 36 then Inl UndefinedBehaviour
          else Inr \<lparr>rec_rdt_sequence = read_u32 d, rec_ft_sequence = read_u32 (drop 4 d),
                    rec_status = read_u32 (drop 8 d),
                    fx = read_i32 (drop 12 d), fy = read_i32 (drop 16 d),
                    fz = read_i32 (drop 20 d), tx = read_i32 (drop 24 d),
                    ty = read_i32 (drop 28 d), tz = read_i32 (drop 32 d)\<rparr>)"

section \<open>Wire layout\<close>

text \<open>Big-endian bytes of a field, and the record layout the device sends.\<close>

definition bytes_u32 :: "u32 \<Rightarrow> u8 list" where
  "bytes_u32 w =
     [ucast (drop_bit 24 w), ucast (drop_bit 16 w), ucast (drop_bit 8 w), ucast w]"

definition wire_record :: "RawRecord \<Rightarrow> u8 list" where
  "wire_record r =
     bytes_u32 (rec_rdt_sequence r) @ bytes_u32 (rec_ft_sequence r) @ bytes_u32 (rec_status r) @
     bytes_u32 (word_of_int (fx r)) @ bytes_u32 (word_of_int (fy r)) @
     bytes_u32 (word_of_int (fz r)) @ bytes_u32 (word_of_int (tx r)) @
     bytes_u32 (word_of_int (ty r)) @ bytes_u32 (word_of_int (tz r))"

definition in_i32 :: "int \<Rightarrow> bool" where
  "in_i32 n \<longleftrightarrow> - (2 ^ 31) \<le> n \<and> n < 2 ^ 31"

definition record_in_range :: "RawRecord \<Rightarrow> bool" where
  "record_in_range r \<longleftrightarrow>
     in_i32 (fx r) \<and> in_i32 (fy r) \<and> in_i32 (fz r) \<and>
     in_i32 (tx r) \<and> in_i32 (ty r) \<and> in_i32 (tz r)"

lemma length_bytes_u32 [simp]: "length (bytes_u32 w) = 4"
  by (simp add: bytes_u32_def)

lemma length_wire_record [simp]: "length (wire_record r) = 36"
  by (simp add: wire_record_def)

lemma read_bytes_u32 [simp]: "read_u32 (bytes_u32 w @ rest) = w"
proof (rule bit_word_eqI)
  fix n assume "n < LENGTH(32)"
  then have n: "n < 32" by simp
  consider "n < 8" | "8 \<le> n \<and> n < 16" | "16 \<le> n \<and> n < 24" | "24 \<le> n" by linarith
  then show "bit (read_u32 (bytes_u32 w @ rest)) n = bit w n"
    using n by cases (auto simp: read_u32_def bytes_u32_def bit_simps)
qed

lemma bytes_read_u32:
  assumes "4 \<le> length d"
  shows "bytes_u32 (read_u32 d) = take 4 d"
proof -
  from assms obtain a b c e rest where d: "d = a # b # c # e # rest"
    by (auto simp: numeral_eq_Suc Suc_le_length_iff)
  have "ucast (drop_bit 24 (read_u32 d)) = a" "ucast (drop_bit 16 (read_u32 d)) = b"
    "ucast (drop_bit 8 (read_u32 d)) = c" "ucast (read_u32 d) = e"
    by (rule bit_word_eqI; auto simp: d read_u32_def bit_simps dest: bit_imp_le_length)+
  then show ?thesis by (simp add: bytes_u32_def d)
qed

lemma uint_NOT_32: "uint (NOT (w :: u32)) = 2 ^ 32 - 1 - uint w"
proof -
  have w: "0 \<le> uint w" "uint w < 2 ^ 32" using uint_lt2p [of w] by simp_all
  have "NOT w = word_of_int (- uint w - 1)" by (simp add: not_eq_complement)
  then have "uint (NOT w) = (- uint w - 1) mod 2 ^ 32" by (simp only: uint_word_of_int) simp
  also have "\<dots> = (2 ^ 32 - 1 - uint w) mod 2 ^ 32"
    using mod_add_self2 [of "- uint w - 1" "2 ^ 32"] by (simp add: algebra_simps)
  also have "\<dots> = 2 ^ 32 - 1 - uint w" using w by (intro mod_pos_pos_trivial) linarith+
  finally show ?thesis .
qed

lemma sint_32: "sint (w :: u32) = (if uint w < 2 ^ 31 then uint w else uint w - 2 ^ 32)"
proof -
  have w: "0 \<le> uint w" "uint w < 2 ^ 32" using uint_lt2p [of w] by simp_all
  have s: "sint w = (uint w + 2 ^ 31) mod 2 ^ 32 - 2 ^ 31"
    using int_word_sint [where x = "uint w" and 'a = 32] by simp
  show ?thesis
  proof (cases "uint w < 2 ^ 31")
    case True
    then have "(uint w + 2 ^ 31) mod 2 ^ 32 = uint w + 2 ^ 31" using w by (intro mod_pos_pos_trivial) simp_all
    with True s show ?thesis by simp
  next
    case False
    have "(uint w + 2 ^ 31) mod 2 ^ 32 = (uint w - 2 ^ 31) mod 2 ^ 32"
      using mod_add_self2 [of "uint w - 2 ^ 31" "2 ^ 32"] by (simp add: algebra_simps)
    also have "\<dots> = uint w - 2 ^ 31" using w False by (intro mod_pos_pos_trivial) simp_all
    finally show ?thesis using False s by simp
  qed
qed

text \<open>
  The explicit two's complement conversion of the source is the signed reading of the word;
  none of its intermediate values leaves the 32-bit range.
\<close>

lemma read_i32_sint: "read_i32 d = sint (read_u32 d)"
  using uint_lt2p [of "read_u32 d"]
  by (auto simp: read_i32_def Let_def sint_32 uint_NOT_32 word_le_def)

lemma read_i32_range: "in_i32 (read_i32 d)"
proof -
  obtain u where u: "uint (read_u32 d) = u" "0 \<le> u" "u < 2 ^ 32"
    using uint_lt2p [of "read_u32 d"] uint_ge_0 [of "read_u32 d"] by simp
  from u(2,3) show ?thesis unfolding read_i32_sint sint_32 in_i32_def u(1) by auto
qed

lemma read_bytes_i32 [simp]: "in_i32 n \<Longrightarrow> read_i32 (bytes_u32 (word_of_int n) @ rest) = n"
  by (simp add: read_i32_sint int_word_sint in_i32_def)

lemma word_of_read_i32: "(word_of_int (read_i32 d) :: u32) = read_u32 d"
  by (simp add: read_i32_sint)

section \<open>Properties\<close>

text \<open>
  C26. Records survive the wire: every record with 32-bit axes is decoded from the bytes the
  device sends for it, whatever else the receive buffer holds after them.
\<close>

theorem record_roundtrip:
  assumes "record_in_range r"
  shows "decode_record (Some (wire_record r @ rest)) 36 = Inr r"
  using assms
  by (simp add: decode_record_def record_in_range_def) (simp add: wire_record_def)

theorem record_roundtrip_witness:
  "decode_record (Some (wire_record \<lparr>rec_rdt_sequence = 1, rec_ft_sequence = 2, rec_status = 0,
      fx = - (2 ^ 31), fy = - 1, fz = 7, tx = 0, ty = 2 ^ 31 - 1, tz = - 42\<rparr> @ [0xff])) 36 =
   Inr \<lparr>rec_rdt_sequence = 1, rec_ft_sequence = 2, rec_status = 0,
      fx = - (2 ^ 31), fy = - 1, fz = 7, tx = 0, ty = 2 ^ 31 - 1, tz = - 42\<rparr>"
  by (rule record_roundtrip) (simp add: record_in_range_def in_i32_def)

text \<open>
  The decoder accepts exactly the datagrams of 36 bytes: any other size is a protocol
  error, a full buffer never is, and the accepted record determines all 36 bytes (nothing
  on the wire is ignored) with every axis in the 32-bit range.
\<close>

theorem decode_accepts_36_bytes:
  assumes "36 \<le> length d"
  shows "((\<exists>r. decode_record (Some d) sz = Inr r) \<longleftrightarrow> sz = 36) \<and>
         (\<forall>r. decode_record (Some d) sz = Inr r \<longrightarrow> wire_record r = take 36 d \<and> record_in_range r)"
proof (intro conjI allI impI)
  show "(\<exists>r. decode_record (Some d) sz = Inr r) \<longleftrightarrow> sz = 36"
    using assms by (simp add: decode_record_def)
next
  fix r
  assume "decode_record (Some d) sz = Inr r"
  then have r: "r = \<lparr>rec_rdt_sequence = read_u32 d, rec_ft_sequence = read_u32 (drop 4 d),
      rec_status = read_u32 (drop 8 d), fx = read_i32 (drop 12 d), fy = read_i32 (drop 16 d),
      fz = read_i32 (drop 20 d), tx = read_i32 (drop 24 d), ty = read_i32 (drop 28 d),
      tz = read_i32 (drop 32 d)\<rparr>"
    by (simp add: decode_record_def split: if_splits)
  have split: "take (k + 4) d = take k d @ take 4 (drop k d)" for k
    by (simp add: take_add)
  have "take 36 d = take 4 d @ take 4 (drop 4 d) @ take 4 (drop 8 d) @ take 4 (drop 12 d) @
      take 4 (drop 16 d) @ take 4 (drop 20 d) @ take 4 (drop 24 d) @ take 4 (drop 28 d) @
      take 4 (drop 32 d)"
    using split [of 32] split [of 28] split [of 24] split [of 20] split [of 16] split [of 12]
      split [of 8] split [of 4] by simp
  then show "wire_record r = take 36 d"
    using assms by (simp add: r wire_record_def word_of_read_i32 bytes_read_u32)
  show "record_in_range r" by (simp add: r record_in_range_def read_i32_range)
qed

theorem decode_accepts_36_bytes_witness:
  "(\<exists>r. decode_record (Some (replicate 40 0)) 36 = Inr r) \<and>
   \<not> (\<exists>r. decode_record (Some (replicate 40 0)) 40 = Inr r)"
  using decode_accepts_36_bytes [of "replicate 40 0" 36]
    decode_accepts_36_bytes [of "replicate 40 0" 40] by simp

text \<open>
  Requests are 8 bytes: the header \<open>0x1234\<close>, the command value and the sample count in
  network order, and both can be read back, so no two requests share an encoding.
\<close>

theorem request_encoding:
  "length (encode_request c n) = 8 \<and> take 2 (encode_request c n) = [0x12, 0x34] \<and>
   read_u32 (drop 4 (encode_request c n)) = n \<and>
   (encode_request c n = encode_request c' n' \<longleftrightarrow> c = c' \<and> n = n')"
proof -
  have e: "encode_request c n =
      [0x12, 0x34, ucast (drop_bit 8 (command_value c)), ucast (command_value c)] @ bytes_u32 n" for c n
    by (simp add: encode_request_def bytes_u32_def Let_def)
  have b: "bytes_u32 n = bytes_u32 n' \<longleftrightarrow> n = n'"
    using read_bytes_u32 [of n "[]"] read_bytes_u32 [of n' "[]"] by (metis append_Nil2)
  have c: "(ucast (command_value c) :: u8) = ucast (command_value c') \<longleftrightarrow> c = c'"
    by (cases c; cases c') simp_all
  have "read_u32 (drop 4 (encode_request c n)) = n"
    using read_bytes_u32 [of n "[]"] by (simp add: e)
  then show ?thesis using b c by (auto simp: e)
qed

end
