(* ===== verification/Fault_Latch.thy ===== *)
theory Fault_Latch
  imports Types
begin

text \<open>
  Model of \<open>src/src/detail/fault_latch.hpp\<close> and \<open>fault_latch.cpp\<close>. The latch is one atomic
  fault code; \<open>publish\<close> runs under the data mutex, so that the compare-and-exchange and the
  writes to the health record are one step. Locking a mutex is taken not to fail.
\<close>

record FaultLatch =
  held_fault :: FaultCode

definition FaultLatch_init :: FaultLatch where
  "FaultLatch_init = \<lparr>held_fault = FaultNone\<rparr>"

definition publish ::
    "FaultCode \<Rightarrow> string \<Rightarrow> FaultLatch \<times> HealthSnapshot \<Rightarrow> bool \<times> (FaultLatch \<times> HealthSnapshot)" where
  "publish code message lh =
     (case lh of (latch, health) \<Rightarrow>
        if held_fault latch \<noteq> FaultNone then (False, (latch, health))
        else (True, (latch\<lparr>held_fault := code\<rparr>,
                     health\<lparr>state := Faulted, fault_code := code, last_error := message\<rparr>)))"

definition reset_latch :: "FaultLatch \<Rightarrow> FaultLatch" where
  "reset_latch latch = latch\<lparr>held_fault := FaultNone\<rparr>"

definition latch_faulted :: "FaultLatch \<Rightarrow> bool" where
  "latch_faulted latch = (held_fault latch \<noteq> FaultNone)"

definition latch_code :: "FaultLatch \<Rightarrow> FaultCode" where
  "latch_code latch = held_fault latch"

section \<open>First fault wins\<close>

text \<open>
  What the client relies on: a latch that is open takes the first value offered to it and
  refuses every later one without any effect.
\<close>

locale first_wins =
  fixes offer :: "'v \<Rightarrow> 's \<Rightarrow> bool \<times> 's"
    and held :: "'s \<Rightarrow> 'c"
    and key :: "'v \<Rightarrow> 'c"
    and open_code :: 'c
  assumes offer_open: "held s = open_code \<Longrightarrow> fst (offer v s) \<and> held (snd (offer v s)) = key v"
    and offer_closed: "held s \<noteq> open_code \<Longrightarrow> offer v s = (False, s)"
begin

fun offer_all :: "'v list \<Rightarrow> 's \<Rightarrow> 's" where
  "offer_all [] s = s"
| "offer_all (v # vs) s = offer_all vs (snd (offer v s))"

lemma offer_all_closed: "held s \<noteq> open_code \<Longrightarrow> offer_all vs s = s"
  by (induction vs) (simp_all add: offer_closed)

lemma offer_all_first:
  assumes "held s = open_code" and "key v \<noteq> open_code"
  shows "offer_all (v # vs) s = snd (offer v s)"
  using offer_open [OF assms(1), of v] assms(2) by (simp add: offer_all_closed)

end

definition publish_request ::
    "FaultCode \<times> string \<Rightarrow> FaultLatch \<times> HealthSnapshot \<Rightarrow> bool \<times> (FaultLatch \<times> HealthSnapshot)" where
  "publish_request v s = publish (fst v) (snd v) s"

definition held_code :: "FaultLatch \<times> HealthSnapshot \<Rightarrow> FaultCode" where
  "held_code s = latch_code (fst s)"

interpretation latch: first_wins publish_request held_code fst FaultNone
  by unfold_locales
    (auto simp: publish_request_def publish_def held_code_def latch_code_def split: prod.splits)

definition publish_all ::
    "(FaultCode \<times> string) list \<Rightarrow> FaultLatch \<times> HealthSnapshot \<Rightarrow> FaultLatch \<times> HealthSnapshot" where
  "publish_all vs s = fold (\<lambda>v s. snd (publish (fst v) (snd v) s)) vs s"

lemma publish_all_offers: "publish_all vs s = latch.offer_all vs s"
  by (induction vs arbitrary: s) (simp_all add: publish_all_def publish_request_def)

lemma latch_faulted_iff: "latch_faulted l \<longleftrightarrow> latch_code l \<noteq> FaultNone"
  by (simp add: latch_faulted_def latch_code_def)

section \<open>Properties\<close>

text \<open>
  C27. The first fault wins: after a reset, whatever faults are published in whatever order,
  the latch and the health record show the first one with its message, in state
  \<open>Faulted\<close>, and every later one leaves both untouched.
\<close>

theorem first_fault_wins:
  assumes "code \<noteq> FaultNone"
  shows "publish_all ((code, message) # later) (reset_latch l, h) =
           (l\<lparr>held_fault := code\<rparr>, h\<lparr>state := Faulted, fault_code := code, last_error := message\<rparr>)"
proof -
  have "held_code (reset_latch l, h) = FaultNone"
    by (simp add: held_code_def latch_code_def reset_latch_def)
  from latch.offer_all_first [OF this, of "(code, message)" later] assms show ?thesis
    by (simp add: publish_all_offers publish_request_def publish_def reset_latch_def)
qed

theorem first_fault_wins_witness:
  "latch_code (fst (publish_all [(FaultTimeout, ''a''), (FaultSocket, ''b'')]
     (reset_latch FaultLatch_init, HealthSnapshot_default))) = FaultTimeout"
  using first_fault_wins [of FaultTimeout "''a''" "[(FaultSocket, ''b'')]"]
  by (simp add: latch_code_def)

end
