(* ===== verification/Xml_Config.thy ===== *)
theory Xml_Config
  imports Types "HOL-Library.Sublist"
begin

text \<open>
  Model of \<open>src/src/detail/xml_config.cpp\<close>: the scanner for the configuration document, the
  extraction of the five fields, the number and unit parsers and the assembly of the
  configuration. A position in the document is the text that remains from it. The element
  stack has its top first. Number extraction follows \<open>std::num_get\<close> in the classic locale
  for decimal notation.
\<close>

section \<open>Character and string helpers\<close>

definition kMaximumFieldLength :: nat where
  "kMaximumFieldLength = 128"

definition kRequiredTags :: "string list" where
  "kRequiredTags = [''prodname'', ''cfgcpf'', ''cfgcpt'', ''scfgfu'', ''scfgtu'']"

definition is_ascii_whitespace :: "char \<Rightarrow> bool" where
  "is_ascii_whitespace c \<longleftrightarrow>
     c = CHR '' '' \<or> c = CHR 0x09 \<or> c = CHR 0x0A \<or> c = CHR 0x0D \<or> c = CHR 0x0C \<or> c = CHR 0x0B"

fun trim_front :: "string \<Rightarrow> string" where
  "trim_front [] = []"
| "trim_front (c # cs) = (if is_ascii_whitespace c then trim_front cs else c # cs)"

definition trim_back :: "string \<Rightarrow> string" where
  "trim_back s = rev (trim_front (rev s))"

definition trim_ascii_whitespace :: "string \<Rightarrow> string" where
  "trim_ascii_whitespace s = trim_back (trim_front s)"

text \<open>\<open>required_tag_index\<close> counts up from the index of the head of the list.\<close>

fun tag_index_from :: "int \<Rightarrow> string list \<Rightarrow> string \<Rightarrow> int" where
  "tag_index_from i [] name = - 1"
| "tag_index_from i (t # ts) name = (if name = t then i else tag_index_from (i + 1) ts name)"

definition required_tag_index :: "string \<Rightarrow> int" where
  "required_tag_index name = tag_index_from 0 kRequiredTags name"

text \<open>\<open>string_view::find\<close> of a text and \<open>find_first_of\<close> a set of characters.\<close>

fun find_text :: "string \<Rightarrow> string \<Rightarrow> nat option" where
  "find_text pat [] = (if pat = [] then Some 0 else None)"
| "find_text pat (c # cs) =
     (if prefix pat (c # cs) then Some 0 else map_option Suc (find_text pat cs))"

fun find_first_of :: "(char \<Rightarrow> bool) \<Rightarrow> string \<Rightarrow> nat option" where
  "find_first_of P [] = None"
| "find_first_of P (c # cs) = (if P c then Some 0 else map_option Suc (find_first_of P cs))"

text \<open>\<open>quote\<close> is the quote character inside a quoted attribute value and \<open>None\<close> outside.\<close>

fun find_tag_end :: "char option \<Rightarrow> string \<Rightarrow> (exn, nat) result" where
  "find_tag_end q [] = Inl (DiscoveryError ''sensor configuration contains unterminated markup'')"
| "find_tag_end q (c # cs) =
     (case q of
        Some q' \<Rightarrow>
          bind_result (find_tag_end (if c = q' then None else Some q') cs) (\<lambda>i. Inr (Suc i))
      | None \<Rightarrow>
          if c = CHR 0x27 \<or> c = CHR 0x22 then
            bind_result (find_tag_end (Some c) cs) (\<lambda>i. Inr (Suc i))
          else if c = CHR ''>'' then Inr 0
          else bind_result (find_tag_end None cs) (\<lambda>i. Inr (Suc i)))"

section \<open>Extraction of the fields\<close>

record OpenElement =
  element_name :: string
  required_index :: int

record Extraction =
  required_fields :: "string list"
  seen :: "bool list"
  elements :: "OpenElement list"

definition Extraction_init :: Extraction where
  "Extraction_init =
     \<lparr>required_fields = replicate (length kRequiredTags) [],
      seen = replicate (length kRequiredTags) False, elements = []\<rparr>"

definition append_required_text :: "string \<Rightarrow> Extraction \<Rightarrow> Extraction" where
  "append_required_text body x =
     (case elements x of
        [] \<Rightarrow> x
      | e # _ \<Rightarrow>
          if 0 \<le> required_index e then
            let i = nat (required_index e)
            in x\<lparr>required_fields := (required_fields x)[i := required_fields x ! i @ body]\<rparr>
          else x)"

definition field_error :: "string \<Rightarrow> string \<Rightarrow> exn" where
  "field_error tag problem =
     DiscoveryError (''sensor configuration field '' @ [CHR 0x27] @ tag @ [CHR 0x27] @ problem)"

text \<open>A closing tag: the name after the slash must be the innermost open element.\<close>

definition close_element :: "string \<Rightarrow> Extraction \<Rightarrow> (exn, Extraction) result" where
  "close_element tag x =
     (let name = trim_ascii_whitespace (drop 1 tag)
      in if name = [] \<or> find_first_of (\<lambda>c. is_ascii_whitespace c \<or> c = CHR ''/'') name \<noteq> None
            \<or> elements x = [] \<or> element_name (hd (elements x)) \<noteq> name
         then Inl (DiscoveryError ''sensor configuration contains malformed element nesting'')
         else Inr (x\<lparr>elements := tl (elements x)\<rparr>))"

text \<open>An opening or self-closing tag.\<close>

definition open_element :: "string \<Rightarrow> Extraction \<Rightarrow> (exn, Extraction) result" where
  "open_element tag0 x =
     (let self_closing = (last tag0 = CHR ''/'');
          tag = (if self_closing then trim_ascii_whitespace (butlast tag0) else tag0);
          name = (case find_first_of is_ascii_whitespace tag of None \<Rightarrow> tag | Some n \<Rightarrow> take n tag)
      in if name = [] \<or> hd name = CHR ''/'' then
           Inl (DiscoveryError ''sensor configuration contains malformed markup'')
         else
           let idx = required_tag_index name
           in if elements x \<noteq> [] \<and> 0 \<le> required_index (hd (elements x)) then
                Inl (DiscoveryError ''sensor configuration fields must contain text only'')
              else if 0 \<le> idx \<and> seen x ! nat idx then
                Inl (field_error (kRequiredTags ! nat idx) '' must appear exactly once'')
              else
                let x1 = (if 0 \<le> idx then x\<lparr>seen := (seen x)[nat idx := True]\<rparr> else x)
                in Inr (if self_closing then x1
                        else x1\<lparr>elements :=
                               \<lparr>element_name = name, required_index = idx\<rparr> # elements x1\<rparr>))"

definition handle_tag :: "string \<Rightarrow> Extraction \<Rightarrow> (exn, Extraction) result" where
  "handle_tag raw x =
     (let tag = trim_ascii_whitespace raw
      in if tag = [] then
           Inl (DiscoveryError ''sensor configuration contains malformed markup'')
         else if hd tag = CHR ''/'' then close_element tag x
         else open_element tag x)"

text \<open>
  One round of the scanning loop on a nonempty remainder: the state and the remainder from
  the new position. \<open>m\<close> is the text from the markup character on.
\<close>

definition scan_markup :: "string \<Rightarrow> Extraction \<Rightarrow> (exn, Extraction \<times> string) result" where
  "scan_markup m x =
     (if prefix ''<!--'' m then
        (case find_text ''-->'' (drop 4 m) of
           None \<Rightarrow> Inl (DiscoveryError ''sensor configuration contains an unterminated comment'')
         | Some e \<Rightarrow> Inr (x, drop (4 + e + 3) m))
      else if prefix ''<![CDATA['' m then
        (case find_text '']]>'' (drop 9 m) of
           None \<Rightarrow> Inl (DiscoveryError ''sensor configuration contains unterminated CDATA'')
         | Some e \<Rightarrow> Inr (append_required_text (take e (drop 9 m)) x, drop (9 + e + 3) m))
      else if prefix ''<?'' m then
        (case find_text ''?>'' (drop 2 m) of
           None \<Rightarrow> Inl (DiscoveryError ''sensor configuration contains unterminated markup'')
         | Some e \<Rightarrow> Inr (x, drop (2 + e + 2) m))
      else if prefix ''<!'' m then
        Inl (DiscoveryError ''sensor configuration contains unsupported markup'')
      else
        bind_result (find_tag_end None (drop 1 m)) (\<lambda>e.
        bind_result (handle_tag (take e (drop 1 m)) x) (\<lambda>x'.
        Inr (x', drop (1 + e + 1) m))))"

definition scan_step :: "string \<Rightarrow> Extraction \<Rightarrow> (exn, Extraction \<times> string) result" where
  "scan_step rest x =
     (case find_text ''<'' rest of
        None \<Rightarrow> Inr (append_required_text rest x, [])
      | Some i \<Rightarrow> scan_markup (drop i rest) (append_required_text (take i rest) x))"

lemma scan_markup_shorter:
  "scan_markup m x = Inr (x', rest') \<Longrightarrow> m \<noteq> [] \<Longrightarrow> length rest' < length m"
  by (auto simp: scan_markup_def bind_result_eq_Inr_iff split: if_splits option.splits)

lemma scan_step_shorter:
  assumes "rest \<noteq> []" "scan_step rest x = Inr (x', rest')"
  shows "length rest' < length rest"
proof (cases "find_text ''<'' rest")
  case None
  with assms show ?thesis by (simp add: scan_step_def)
next
  case (Some i)
  show ?thesis
  proof (cases "drop i rest = []")
    case True
    with assms Some show ?thesis by (auto simp: scan_step_def scan_markup_def bind_result_eq_Inr_iff)
  next
    case False
    have "scan_markup (drop i rest) (append_required_text (take i rest) x) = Inr (x', rest')"
      using assms(2) Some by (simp add: scan_step_def)
    then have "length rest' < length (drop i rest)" using False by (rule scan_markup_shorter)
    then show ?thesis by simp
  qed
qed

function scan_loop :: "string \<Rightarrow> Extraction \<Rightarrow> (exn, Extraction) result" where
  "scan_loop rest x =
     (if rest = [] then Inr x
      else case scan_step rest x of
             Inl e \<Rightarrow> Inl e
           | Inr (x', rest') \<Rightarrow> scan_loop rest' x')"
  by pat_completeness auto
termination
  by (relation "measure (\<lambda>(rest, x). length rest)") (auto dest: scan_step_shorter)

declare scan_loop.simps [simp del]

text \<open>The pass over the fields after the loop, from index \<open>i\<close> on.\<close>

definition finish_field :: "nat \<Rightarrow> Extraction \<Rightarrow> (exn, string) result" where
  "finish_field i x =
     (if \<not> seen x ! i then
        (if i = 0 then Inr ''ATI Net F/T''
         else Inl (field_error (kRequiredTags ! i) '' must appear exactly once''))
      else
        let v = trim_ascii_whitespace (required_fields x ! i)
        in if v = [] then Inl (field_error (kRequiredTags ! i) '' is empty'')
           else if kMaximumFieldLength < length v
           then Inl (field_error (kRequiredTags ! i) '' is too long'')
           else Inr v)"

fun finish_fields :: "nat list \<Rightarrow> Extraction \<Rightarrow> (exn, string list) result" where
  "finish_fields [] x = Inr []"
| "finish_fields (i # is) x =
     bind_result (finish_field i x) (\<lambda>v. bind_result (finish_fields is x) (\<lambda>vs. Inr (v # vs)))"

definition extract_required_fields :: "string \<Rightarrow> (exn, string list) result" where
  "extract_required_fields xml =
     bind_result (scan_loop xml Extraction_init) (\<lambda>x.
     if elements x \<noteq> []
     then Inl (DiscoveryError ''sensor configuration contains malformed element nesting'')
     else finish_fields [0..<length kRequiredTags] x)"

section \<open>Numbers\<close>

text \<open>
  The floating-point environment of the calling thread, as \<open>ScopedRoundToNearest\<close> meets it:
  whether each call succeeds, and the direction in force (\<open>None\<close> when it cannot be read).
\<close>

record FloatEnvironment =
  hold_succeeds :: bool
  current_direction :: "rounding_mode option"
  select_succeeds :: bool
  restore_succeeds :: bool

definition restore_environment_or_terminate ::
    "FloatEnvironment \<Rightarrow> (exn, 'a) result \<Rightarrow> (exn, 'a) result" where
  "restore_environment_or_terminate fe r = (if restore_succeeds fe then r else Inl Terminated)"

text \<open>The constructor: the direction in force inside the scope.\<close>

definition ScopedRoundToNearest :: "FloatEnvironment \<Rightarrow> (exn, rounding_mode) result" where
  "ScopedRoundToNearest fe =
     (if \<not> hold_succeeds fe then
        Inl (DiscoveryError ''failed to hold the floating-point environment'')
      else case current_direction fe of
        None \<Rightarrow>
          restore_environment_or_terminate fe
            (Inl (DiscoveryError ''failed to inspect the floating-point rounding mode''))
      | Some m \<Rightarrow>
          if m \<noteq> ToNearest \<and> \<not> select_succeeds fe then
            restore_environment_or_terminate fe
              (Inl (DiscoveryError ''failed to select round-to-nearest floating-point parsing''))
          else Inr ToNearest)"

text \<open>
  Extraction of a \<open>double\<close> by \<open>operator>>\<close> without skipping white space. The characters
  taken are an optional sign, digits with at most one point and, once a digit has been
  seen, an exponent mark with an optional sign and digits. The text taken converts when it
  has a digit before the exponent and, with an exponent mark, a digit after it.
\<close>

definition is_digit :: "char \<Rightarrow> bool" where
  "is_digit c \<longleftrightarrow> 48 \<le> (of_char c :: nat) \<and> (of_char c :: nat) \<le> 57"

definition digits_value :: "string \<Rightarrow> nat" where
  "digits_value ds = foldl (\<lambda>n c. 10 * n + (of_char c - 48)) 0 ds"

definition take_sign :: "string \<Rightarrow> bool \<times> string" where
  "take_sign s =
     (case s of c # cs \<Rightarrow> if c = CHR ''-'' then (True, cs) else if c = CHR ''+'' then (False, cs)
                         else (False, s)
      | [] \<Rightarrow> (False, []))"

definition take_fraction :: "string \<Rightarrow> string \<times> string" where
  "take_fraction s =
     (case s of c # cs \<Rightarrow> if c = CHR ''.'' then (takeWhile is_digit cs, dropWhile is_digit cs)
                         else ([], s)
      | [] \<Rightarrow> ([], []))"

text \<open>The exponent, \<open>None\<close> when the mark is not followed by a digit.\<close>

definition take_exponent :: "bool \<Rightarrow> string \<Rightarrow> int option \<times> string" where
  "take_exponent mantissa s =
     (case s of c # cs \<Rightarrow>
        if mantissa \<and> (c = CHR ''e'' \<or> c = CHR ''E'') then
          (let (neg, ds) = take_sign cs; d = takeWhile is_digit ds
           in (if d = [] then None
               else Some (if neg then - int (digits_value d) else int (digits_value d)),
               dropWhile is_digit ds))
        else (Some 0, s)
      | [] \<Rightarrow> (Some 0, []))"

definition extract_double :: "rounding_mode \<Rightarrow> string \<Rightarrow> (fp \<times> string) option" where
  "extract_double m s =
     (let (neg, s1) = take_sign s;
          whole = takeWhile is_digit s1;
          (frac, s2) = take_fraction (dropWhile is_digit s1);
          (expo, s3) = take_exponent (whole @ frac \<noteq> []) s2
      in if whole @ frac = [] then None
         else case expo of
           None \<Rightarrow> None
         | Some e \<Rightarrow>
             let v = of_nat (digits_value (whole @ frac)) * 10 powi (e - int (length frac));
                 r = fp_round binary64 m (if neg then - v else v)
             in if fp_isfinite r then Some (r, s3) else None)"

definition parse_positive_count :: "FloatEnvironment \<Rightarrow> string \<Rightarrow> string \<Rightarrow> (exn, fp) result" where
  "parse_positive_count fe value tag =
     bind_result (ScopedRoundToNearest fe) (\<lambda>m.
     restore_environment_or_terminate fe
       (let bad = Inl (field_error tag '' must be a finite positive number'')
        in case extract_double m value of
             None \<Rightarrow> bad
           | Some (r, rest) \<Rightarrow>
               if value = [] \<or> hd value = CHR ''+'' \<or> rest \<noteq> [] \<or> \<not> fp_isfinite r
                  \<or> fp_le r (Finite 0)
               then bad else Inr r))"

section \<open>Units and assembly\<close>

definition normalize_torque_spelling :: "string \<Rightarrow> string" where
  "normalize_torque_spelling value =
     (if value = ''Nm'' then ''N-m''
      else if value = ''Nmm'' then ''N-mm''
      else if value = ''kg-cm'' then ''kgf-cm''
      else value)"

definition parse_force_unit :: "string \<Rightarrow> (exn, ForceUnit) result" where
  "parse_force_unit value =
     (case force_unit_from_string value of
        None \<Rightarrow> Inl (DiscoveryError ''sensor configuration contains an unknown force unit'')
      | Some u \<Rightarrow>
          if u = ForceUnknown
          then Inl (DiscoveryError ''sensor configuration contains an unknown force unit'')
          else Inr u)"

definition parse_torque_unit :: "string \<Rightarrow> (exn, TorqueUnit) result" where
  "parse_torque_unit value =
     (case torque_unit_from_string (normalize_torque_spelling value) of
        None \<Rightarrow> Inl (DiscoveryError ''sensor configuration contains an unknown torque unit'')
      | Some u \<Rightarrow>
          if u = TorqueUnknown
          then Inl (DiscoveryError ''sensor configuration contains an unknown torque unit'')
          else Inr u)"

definition parse_sensor_configuration ::
    "FloatEnvironment \<Rightarrow> string \<Rightarrow> (exn, SensorConfiguration) result" where
  "parse_sensor_configuration fe xml =
     bind_result (extract_required_fields xml) (\<lambda>fs.
     bind_result (parse_positive_count fe (fs ! 1) ''cfgcpf'') (\<lambda>cpf.
     bind_result (parse_positive_count fe (fs ! 2) ''cfgcpt'') (\<lambda>cpt.
     bind_result (parse_force_unit (fs ! 3)) (\<lambda>fu.
     bind_result (parse_torque_unit (fs ! 4)) (\<lambda>tu.
     let c = \<lparr>counts_per_force_unit = cpf, counts_per_torque_unit = cpt,
              force_unit = fu, torque_unit = tu\<rparr>
     in bind_result (map_error (\<lambda>e. case e of InvalidArgument m \<Rightarrow> DiscoveryError m | _ \<Rightarrow> e)
          (validate_calibration c)) (\<lambda>_.
        Inr \<lparr>product_name = fs ! 0, calibration = c, source = SourceSensor, revision = 1\<rparr>))))))"

section \<open>Scanning plain elements\<close>

definition plain_name :: "string \<Rightarrow> bool" where
  "plain_name t \<longleftrightarrow>
     t \<noteq> [] \<and> hd t \<notin> {CHR ''!'', CHR ''?''} \<and>
     (\<forall>c \<in> set t. \<not> is_ascii_whitespace c \<and>
        c \<notin> {CHR ''/'', CHR 0x27, CHR 0x22, CHR ''>'', CHR ''<''})"

definition plain_text :: "string \<Rightarrow> bool" where
  "plain_text t \<longleftrightarrow> CHR ''<'' \<notin> set t"

definition element_text :: "string \<times> string \<Rightarrow> string" where
  "element_text e = ''<'' @ fst e @ ''>'' @ snd e @ ''</'' @ fst e @ ''>''"

lemma trim_front_id: "s = [] \<or> \<not> is_ascii_whitespace (hd s) \<Longrightarrow> trim_front s = s"
  by (cases s) auto

lemma trim_id: "\<forall>c \<in> set s. \<not> is_ascii_whitespace c \<Longrightarrow> trim_ascii_whitespace s = s"
  by (cases "s = []") (auto simp: trim_ascii_whitespace_def trim_back_def trim_front_id hd_rev)

lemma find_first_of_None: "find_first_of P s = None \<longleftrightarrow> (\<forall>c \<in> set s. \<not> P c)"
  by (induction s) auto

lemma find_text_lt: "plain_text t \<Longrightarrow> find_text ''<'' (t @ CHR ''<'' # rest) = Some (length t)"
  by (induction t) (auto simp: plain_text_def)

lemma find_tag_end_plain:
  "\<forall>c \<in> set t. c \<notin> {CHR 0x27, CHR 0x22, CHR ''>''} \<Longrightarrow>
     find_tag_end None (t @ CHR ''>'' # rest) = Inr (length t)"
  by (induction t) auto

lemma handle_tag_open:
  assumes "plain_name t"
  shows "handle_tag t x = open_element t x"
proof -
  have "trim_ascii_whitespace t = t" "t \<noteq> []" "hd t \<noteq> CHR ''/''"
    using assms by (auto simp: plain_name_def intro!: trim_id)
  then show ?thesis by (simp add: handle_tag_def)
qed

lemma handle_tag_close:
  assumes "plain_name t"
  shows "handle_tag (CHR ''/'' # t) x = close_element (CHR ''/'' # t) x"
proof -
  have "trim_ascii_whitespace (CHR ''/'' # t) = CHR ''/'' # t"
    using assms by (intro trim_id) (auto simp: plain_name_def is_ascii_whitespace_def)
  then show ?thesis by (simp add: handle_tag_def)
qed

lemma close_element_plain:
  assumes "plain_name t" "elements x = e # es" "element_name e = t"
  shows "close_element (CHR ''/'' # t) x = Inr (x\<lparr>elements := es\<rparr>)"
proof -
  have "trim_ascii_whitespace t = t" "t \<noteq> []"
    using assms(1) by (auto simp: plain_name_def intro!: trim_id)
  moreover have "find_first_of (\<lambda>c. is_ascii_whitespace c \<or> c = CHR ''/'') t = None"
    using assms(1) by (auto simp: plain_name_def find_first_of_None)
  ultimately show ?thesis using assms(2,3) by (simp add: close_element_def)
qed

definition open_plain :: "string \<Rightarrow> Extraction \<Rightarrow> (exn, Extraction) result" where
  "open_plain t x =
     (let idx = required_tag_index t
      in if elements x \<noteq> [] \<and> 0 \<le> required_index (hd (elements x)) then
           Inl (DiscoveryError ''sensor configuration fields must contain text only'')
         else if 0 \<le> idx \<and> seen x ! nat idx then
           Inl (field_error (kRequiredTags ! nat idx) '' must appear exactly once'')
         else Inr (x\<lparr>seen := (if 0 \<le> idx then (seen x)[nat idx := True] else seen x),
                     elements := \<lparr>element_name = t, required_index = idx\<rparr> # elements x\<rparr>))"

lemma open_element_plain:
  assumes "plain_name t"
  shows "open_element t x = open_plain t x"
proof -
  have "last t \<noteq> CHR ''/''" "hd t \<noteq> CHR ''/''" "t \<noteq> []" using assms by (auto simp: plain_name_def)
  moreover have "find_first_of is_ascii_whitespace t = None"
    using assms by (auto simp: plain_name_def find_first_of_None)
  ultimately show ?thesis by (simp add: open_element_def open_plain_def Let_def)
qed

text \<open>A tag at the current position is handled and scanning resumes after it.\<close>

lemma scan_markup_tag:
  assumes "\<forall>c \<in> set t. c \<notin> {CHR 0x27, CHR 0x22, CHR ''>''}" "t \<noteq> []" "hd t \<notin> {CHR ''!'', CHR ''?''}"
  shows "scan_markup (CHR ''<'' # t @ CHR ''>'' # rest) x =
           bind_result (handle_tag t x) (\<lambda>x'. Inr (x', rest))"
proof -
  obtain a t' where t: "t = a # t'" using assms(2) by (cases t) auto
  then have "\<not> prefix ''<!--'' (CHR ''<'' # t @ CHR ''>'' # rest)"
    "\<not> prefix ''<![CDATA['' (CHR ''<'' # t @ CHR ''>'' # rest)"
    "\<not> prefix ''<?'' (CHR ''<'' # t @ CHR ''>'' # rest)"
    "\<not> prefix ''<!'' (CHR ''<'' # t @ CHR ''>'' # rest)"
    using assms(3) by auto
  moreover have "find_tag_end None (t @ CHR ''>'' # rest) = Inr (length t)"
    using assms(1) by (rule find_tag_end_plain)
  ultimately show ?thesis by (simp add: scan_markup_def)
qed

lemma scan_loop_text_tag:
  assumes "plain_text body" "\<forall>c \<in> set t. c \<notin> {CHR 0x27, CHR 0x22, CHR ''>''}" "t \<noteq> []"
    "hd t \<notin> {CHR ''!'', CHR ''?''}"
  shows "scan_loop (body @ CHR ''<'' # t @ CHR ''>'' # rest) x =
           bind_result (handle_tag t (append_required_text body x)) (scan_loop rest)"
proof -
  have step: "scan_step (body @ CHR ''<'' # t @ CHR ''>'' # rest) x =
      bind_result (handle_tag t (append_required_text body x)) (\<lambda>x'. Inr (x', rest))"
    using find_text_lt [OF assms(1)] scan_markup_tag [OF assms(2-4)]
    by (simp add: scan_step_def)
  show ?thesis
    by (subst scan_loop.simps, unfold step)
      (cases "handle_tag t (append_required_text body x)", simp_all)
qed

lemma append_required_text_Nil: "append_required_text [] x = x"
  by (auto simp: append_required_text_def Let_def split: list.splits)

lemma scan_loop_open:
  assumes "plain_name t"
  shows "scan_loop (CHR ''<'' # t @ CHR ''>'' # rest) x = bind_result (open_plain t x) (scan_loop rest)"
  using scan_loop_text_tag [of "[]" t rest x] assms
  by (simp add: append_required_text_Nil handle_tag_open open_element_plain)
    (simp add: plain_name_def plain_text_def)

lemma scan_loop_text_close:
  assumes "plain_name t" "plain_text body" "elements x = e # es" "element_name e = t"
  shows "scan_loop (body @ CHR ''<'' # CHR ''/'' # t @ CHR ''>'' # rest) x =
           scan_loop rest ((append_required_text body x)\<lparr>elements := es\<rparr>)"
proof -
  have "elements (append_required_text body x) = e # es"
    using assms(3) by (simp add: append_required_text_def Let_def)
  from close_element_plain [OF assms(1) this assms(4)]
  show ?thesis
    using scan_loop_text_tag [of body "CHR ''/'' # t" rest x] assms(1,2)
    by (simp add: handle_tag_close) (simp add: plain_name_def)
qed

section \<open>Documents of plain elements\<close>

text \<open>
  A document with one root element whose children carry text only, each preceded by some
  text of its own (line breaks and indentation).
\<close>

record Child =
  lead :: string
  tag :: string
  content :: string

definition child_text :: "Child \<Rightarrow> string" where
  "child_text c = lead c @ element_text (tag c, content c)"

definition children_text :: "Child list \<Rightarrow> string" where
  "children_text cs = concat (map child_text cs)"

definition document :: "string \<Rightarrow> Child list \<Rightarrow> string" where
  "document docname cs = ''<'' @ docname @ ''>'' @ children_text cs @ ''</'' @ docname @ ''>''"

definition plain_child :: "Child \<Rightarrow> bool" where
  "plain_child c \<longleftrightarrow> plain_text (lead c) \<and> plain_name (tag c) \<and> plain_text (content c)"

definition required_tags :: "Child list \<Rightarrow> string list" where
  "required_tags cs = filter (\<lambda>t. t \<in> set kRequiredTags) (map tag cs)"

definition child_content :: "Child list \<Rightarrow> string \<Rightarrow> string option" where
  "child_content cs = map_of (map (\<lambda>c. (tag c, content c)) cs)"

lemma length_kRequiredTags: "length kRequiredTags = 5"
  by (simp add: kRequiredTags_def)

lemma distinct_kRequiredTags: "distinct kRequiredTags"
  by (simp add: kRequiredTags_def)

lemma tag_index_from_cases:
  "(name \<notin> set ts \<and> tag_index_from i ts name = - 1) \<or>
   (\<exists>k < length ts. ts ! k = name \<and> tag_index_from i ts name = i + int k)"
proof (induction ts arbitrary: i)
  case Nil
  then show ?case by simp
next
  case (Cons t ts)
  show ?case
  proof (cases "name = t")
    case True
    then show ?thesis by (auto intro!: exI [of _ 0])
  next
    case False
    from Cons [of "i + 1"] show ?thesis
    proof (elim disjE exE conjE)
      fix k assume "k < length ts" "ts ! k = name" "tag_index_from (i + 1) ts name = i + 1 + int k"
      with False show ?thesis by (intro disjI2 exI [of _ "Suc k"]) simp
    qed (use False in simp)
  qed
qed

lemma required_tag_index_cases:
  obtains (other) "name \<notin> set kRequiredTags" "required_tag_index name = - 1"
  | (required) k where "k < 5" "kRequiredTags ! k = name" "required_tag_index name = int k"
  using tag_index_from_cases [of name kRequiredTags 0]
  by (auto simp: required_tag_index_def length_kRequiredTags)

lemma tag_nth_eq_iff: "i < 5 \<Longrightarrow> k < 5 \<Longrightarrow> kRequiredTags ! i = kRequiredTags ! k \<longleftrightarrow> i = k"
  using nth_eq_iff_index_eq [OF distinct_kRequiredTags] by (simp add: length_kRequiredTags)

lemma tag_nth_mem: "i < 5 \<Longrightarrow> kRequiredTags ! i \<in> set kRequiredTags"
  by (simp add: length_kRequiredTags)

text \<open>What the scanner has collected after the children \<open>cs\<close> of the root element.\<close>

definition collected :: "string \<Rightarrow> Child list \<Rightarrow> Extraction \<Rightarrow> bool" where
  "collected docname cs x \<longleftrightarrow>
     elements x = [\<lparr>element_name = docname, required_index = - 1\<rparr>] \<and>
     length (seen x) = 5 \<and> length (required_fields x) = 5 \<and>
     (\<forall>i < 5. seen x ! i = (child_content cs (kRequiredTags ! i) \<noteq> None) \<and>
              required_fields x ! i =
                (case child_content cs (kRequiredTags ! i) of None \<Rightarrow> [] | Some v \<Rightarrow> v))"

lemma child_content_snoc:
  "child_content (cs @ [c]) t =
     (case child_content cs t of None \<Rightarrow> if t = tag c then Some (content c) else None | Some v \<Rightarrow> Some v)"
  by (simp add: child_content_def map_add_def split: option.splits)

lemma child_content_None: "child_content cs t = None \<longleftrightarrow> t \<notin> set (map tag cs)"
  by (auto simp: child_content_def map_of_eq_None_iff image_image)

text \<open>One child: a repeated field is refused, any other child is collected.\<close>

lemma scan_child_repeated:
  assumes "collected docname cs x" "plain_child c" "tag c \<in> set kRequiredTags" "tag c \<in> set (map tag cs)"
  shows "scan_loop (child_text c @ rest) x = Inl (field_error (tag c) '' must appear exactly once'')"
proof -
  obtain k where k: "k < 5" "kRequiredTags ! k = tag c" "required_tag_index (tag c) = int k"
    using assms(3) by (cases "tag c" rule: required_tag_index_cases) auto
  have "seen x ! k" using assms(1,4) k by (auto simp: collected_def child_content_None)
  moreover have "append_required_text (lead c) x = x"
    using assms(1) by (simp add: collected_def append_required_text_def)
  ultimately have "open_element (tag c) (append_required_text (lead c) x) =
      Inl (field_error (tag c) '' must appear exactly once'')"
    using assms(1,2) k
    by (simp add: open_element_plain plain_child_def open_plain_def collected_def)
  with scan_loop_text_tag [of "lead c" "tag c"] assms(2) show ?thesis
    by (simp add: child_text_def element_text_def plain_child_def handle_tag_open)
      (simp add: plain_name_def)
qed

lemma scan_child:
  assumes "collected docname cs x" "plain_child c"
    "tag c \<in> set kRequiredTags \<Longrightarrow> tag c \<notin> set (map tag cs)"
  shows "\<exists>x'. scan_loop (child_text c @ rest) x = scan_loop rest x' \<and> collected docname (cs @ [c]) x'"
proof -
  have lead: "append_required_text (lead c) x = x"
    using assms(1) by (simp add: collected_def append_required_text_def)
  have open_step: "scan_loop (child_text c @ rest) x =
      bind_result (open_plain (tag c) x)
        (scan_loop (content c @ CHR ''<'' # CHR ''/'' # tag c @ CHR ''>'' # rest))"
    using scan_loop_text_tag [of "lead c" "tag c"] assms(2)
    by (simp add: child_text_def element_text_def plain_child_def handle_tag_open
        open_element_plain) (simp add: plain_name_def lead)
  show ?thesis
  proof (cases "tag c" rule: required_tag_index_cases)
    case other
    let ?x' = "x\<lparr>elements := \<lparr>element_name = tag c, required_index = - 1\<rparr> # elements x\<rparr>"
    have "open_plain (tag c) x = Inr ?x'"
      using other assms(1) by (simp add: open_plain_def collected_def Let_def)
    moreover have "append_required_text (content c) ?x' = ?x'"
      by (simp add: append_required_text_def)
    ultimately have "scan_loop (child_text c @ rest) x = scan_loop rest x"
      using scan_loop_text_close [of "tag c" "content c" ?x'] assms(2) open_step
      by (simp add: plain_child_def)
    moreover have "child_content (cs @ [c]) (kRequiredTags ! i) = child_content cs (kRequiredTags ! i)"
      if "i < 5" for i
      using other(1) tag_nth_mem [OF that] by (auto simp: child_content_snoc split: option.splits)
    then have "collected docname (cs @ [c]) x" using assms(1) by (simp add: collected_def)
    ultimately show ?thesis by blast
  next
    case (required k)
    have fresh: "child_content cs (tag c) = None"
      using assms(3) required tag_nth_mem [of k] by (simp add: child_content_None)
    let ?x' = "x\<lparr>seen := (seen x)[k := True],
                 elements := \<lparr>element_name = tag c, required_index = int k\<rparr> # elements x\<rparr>"
    let ?x'' = "x\<lparr>seen := (seen x)[k := True],
                  required_fields := (required_fields x)[k := required_fields x ! k @ content c]\<rparr>"
    have "open_plain (tag c) x = Inr ?x'"
      using required fresh assms(1) by (auto simp: open_plain_def collected_def)
    moreover have "(append_required_text (content c) ?x')\<lparr>elements := elements x\<rparr> = ?x''"
      by (simp add: append_required_text_def)
    ultimately have "scan_loop (child_text c @ rest) x = scan_loop rest ?x''"
      using scan_loop_text_close [of "tag c" "content c" ?x'] assms(2) open_step
      by (simp add: plain_child_def)
    moreover have "kRequiredTags ! i = tag c \<longleftrightarrow> i = k" if "i < 5" for i
      using tag_nth_eq_iff [OF that required(1)] required(2) by simp
    then have "collected docname (cs @ [c]) ?x''"
      using assms(1) required(1) fresh
      by (simp add: collected_def child_content_snoc nth_list_update split: option.splits)
        (use required(2) in force)
    ultimately show ?thesis by blast
  qed
qed

lemma required_tags_snoc:
  "required_tags (cs @ [c]) = required_tags cs @ (if tag c \<in> set kRequiredTags then [tag c] else [])"
  by (simp add: required_tags_def)

lemma children_text_simps [simp]:
  "children_text [] = []" "children_text (c # cs) = child_text c @ children_text cs"
  by (simp_all add: children_text_def)

lemma scan_children:
  assumes "collected docname before x" "distinct (required_tags before)" "\<forall>c \<in> set cs. plain_child c"
  shows "if distinct (required_tags (before @ cs))
         then \<exists>x'. scan_loop (children_text cs @ rest) x = scan_loop rest x' \<and>
                   collected docname (before @ cs) x'
         else \<exists>t \<in> set kRequiredTags. scan_loop (children_text cs @ rest) x =
                Inl (field_error t '' must appear exactly once'')"
  using assms
proof (induction cs arbitrary: before x)
  case Nil
  then show ?case by auto
next
  case (Cons c cs)
  show ?case
  proof (cases "tag c \<in> set kRequiredTags \<and> tag c \<in> set (map tag before)")
    case True
    then have "\<not> distinct (required_tags (before @ c # cs))"
      by (auto simp: required_tags_def)
    moreover have "scan_loop (child_text c @ (children_text cs @ rest)) x =
        Inl (field_error (tag c) '' must appear exactly once'')"
      using True Cons.prems by (intro scan_child_repeated) auto
    ultimately show ?thesis using True by auto
  next
    case False
    then obtain x' where x': "scan_loop (child_text c @ (children_text cs @ rest)) x =
        scan_loop (children_text cs @ rest) x'" "collected docname (before @ [c]) x'"
      using scan_child [OF Cons.prems(1), of c "children_text cs @ rest"] Cons.prems(3) by auto
    have "distinct (required_tags (before @ [c]))"
      using False Cons.prems(2) by (auto simp: required_tags_snoc) (auto simp: required_tags_def)
    from Cons.IH [OF x'(2) this] Cons.prems(3) x'(1) show ?thesis
      by (auto split: if_splits)
  qed
qed

text \<open>The fields the pass after the loop delivers, from the collected contents.\<close>

definition field_ok :: "Child list \<Rightarrow> nat \<Rightarrow> string \<Rightarrow> bool" where
  "field_ok cs i v \<longleftrightarrow>
     (case child_content cs (kRequiredTags ! i) of
        None \<Rightarrow> i = 0 \<and> v = ''ATI Net F/T''
      | Some raw \<Rightarrow> v = trim_ascii_whitespace raw \<and> v \<noteq> [] \<and> length v \<le> 128)"

lemma finish_field_ok:
  "collected docname cs (x\<lparr>elements := es\<rparr>) \<Longrightarrow> i < 5 \<Longrightarrow>
     finish_field i x = Inr v \<longleftrightarrow> field_ok cs i v"
  by (auto simp: finish_field_def field_ok_def collected_def kMaximumFieldLength_def Let_def
      split: option.splits)

lemma finish_fields_ok:
  "finish_fields is x = Inr vs \<longleftrightarrow> list_all2 (\<lambda>i v. finish_field i x = Inr v) is vs"
  by (induction "is" arbitrary: vs) (auto simp: bind_result_eq_Inr_iff list_all2_Cons1)

lemma scan_document:
  assumes "plain_name docname" "docname \<notin> set kRequiredTags" "\<forall>c \<in> set cs. plain_child c"
  shows "if distinct (required_tags cs)
         then \<exists>x es. scan_loop (document docname cs) Extraction_init = Inr x \<and> elements x = [] \<and>
                     collected docname cs (x\<lparr>elements := es\<rparr>)
         else \<exists>t \<in> set kRequiredTags. scan_loop (document docname cs) Extraction_init =
                Inl (field_error t '' must appear exactly once'')"
proof -
  let ?e = "\<lparr>element_name = docname, required_index = - 1\<rparr>"
  let ?x0 = "Extraction_init\<lparr>elements := [?e]\<rparr>"
  let ?close = "''</'' @ docname @ ''>''"
  have idx: "required_tag_index docname = - 1"
    using assms(2) tag_nth_mem by (cases docname rule: required_tag_index_cases) auto
  have start: "scan_loop (document docname cs) Extraction_init = scan_loop (children_text cs @ ?close) ?x0"
    using scan_loop_open [OF assms(1), of "children_text cs @ ?close" Extraction_init] idx
    by (simp add: document_def open_plain_def Extraction_init_def Let_def)
  have "collected docname [] ?x0"
    by (auto simp: collected_def Extraction_init_def length_kRequiredTags child_content_def)
  from scan_children [OF this _ assms(3), of ?close]
  have *: "if distinct (required_tags cs)
      then \<exists>x'. scan_loop (children_text cs @ ?close) ?x0 = scan_loop ?close x' \<and>
                collected docname cs x'
      else \<exists>t \<in> set kRequiredTags. scan_loop (children_text cs @ ?close) ?x0 =
             Inl (field_error t '' must appear exactly once'')"
    by (simp add: required_tags_def split: if_splits)
  have "scan_loop ?close x' = Inr (x'\<lparr>elements := []\<rparr>)" if "collected docname cs x'" for x'
  proof -
    have "append_required_text [] x' = x'" by (rule append_required_text_Nil)
    with scan_loop_text_close [OF assms(1), of "[]" x' ?e "[]" "[]"] that show ?thesis
      by (simp add: plain_text_def collected_def scan_loop.simps)
  qed
  moreover have "collected docname cs ((x'\<lparr>elements := []\<rparr>)\<lparr>elements := [?e]\<rparr>)"
    if "collected docname cs x'" for x' using that by (simp add: collected_def)
  ultimately show ?thesis using * start by (auto split: if_splits) blast
qed

lemma extract_document_iff:
  assumes "plain_name docname" "docname \<notin> set kRequiredTags" "\<forall>c \<in> set cs. plain_child c"
  shows "extract_required_fields (document docname cs) = Inr fs \<longleftrightarrow>
           distinct (required_tags cs) \<and> list_all2 (field_ok cs) [0, 1, 2, 3, 4] fs"
proof (cases "distinct (required_tags cs)")
  case True
  then obtain x es where x: "scan_loop (document docname cs) Extraction_init = Inr x"
      "elements x = []" "collected docname cs (x\<lparr>elements := es\<rparr>)"
    using scan_document [OF assms] by auto
  have "[0..<length kRequiredTags] = [0, 1, 2, 3, 4]"
    by (simp add: length_kRequiredTags upt_rec numeral_eq_Suc)
  then have "extract_required_fields (document docname cs) = Inr fs \<longleftrightarrow>
      list_all2 (\<lambda>i v. finish_field i x = Inr v) [0, 1, 2, 3, 4] fs"
    using x(1,2) 
    by (simp add: extract_required_fields_def finish_fields_ok del: finish_fields.simps)
  also have "\<dots> \<longleftrightarrow> list_all2 (field_ok cs) [0, 1, 2, 3, 4] fs"
    using finish_field_ok [OF x(3)] by (simp add: list_all2_Cons1)
  finally show ?thesis using True by simp
next
  case False
  then show ?thesis using scan_document [OF assms]
    by (auto simp: extract_required_fields_def)
qed

text \<open>
  C20. In a document whose root element holds text-only children in any order, the five
  fields are extracted exactly when no field is repeated, every calibration field is
  present, and every field that is present, the product name included, is nonempty and at
  most 128 characters long once trimmed. Each field is the trimmed content of its element;
  only a product name that is missing is replaced by the default label. Elements with other
  names and the text between elements do not matter.
\<close>

theorem plain_document_fields:
  assumes "plain_name docname" "docname \<notin> set kRequiredTags" "\<forall>c \<in> set cs. plain_child c"
  shows "extract_required_fields (document docname cs) = Inr fs \<longleftrightarrow>
           distinct (required_tags cs) \<and> list_all2 (field_ok cs) [0, 1, 2, 3, 4] fs"
  using assms by (rule extract_document_iff)

definition sample_children :: "Child list" where
  "sample_children =
     [\<lparr>lead = '' '', tag = ''scfgtu'', content = ''Nm''\<rparr>,
      \<lparr>lead = [], tag = ''cfgcpf'', content = '' 1000000 ''\<rparr>,
      \<lparr>lead = [], tag = ''calsn'', content = ''FT1''\<rparr>,
      \<lparr>lead = [], tag = ''cfgcpt'', content = ''2000''\<rparr>,
      \<lparr>lead = '' '', tag = ''scfgfu'', content = ''N''\<rparr>]"

lemma plain_document_fields_witness:
  "extract_required_fields (document ''netft'' sample_children) =
     Inr [''ATI Net F/T'', ''1000000'', ''2000'', ''N'', ''Nm'']"
proof -
  have "plain_name ''netft''" by (simp add: plain_name_def is_ascii_whitespace_def)
  moreover have "''netft'' \<notin> set kRequiredTags" by (simp add: kRequiredTags_def)
  moreover have "\<forall>c \<in> set sample_children. plain_child c"
    by (simp add: sample_children_def plain_child_def plain_name_def plain_text_def
        is_ascii_whitespace_def)
  moreover have "distinct (required_tags sample_children)"
    by (simp add: required_tags_def sample_children_def kRequiredTags_def)
  moreover have "list_all2 (field_ok sample_children) [0, 1, 2, 3, 4]
      [''ATI Net F/T'', ''1000000'', ''2000'', ''N'', ''Nm'']"
    by (simp add: field_ok_def child_content_def sample_children_def kRequiredTags_def
        trim_ascii_whitespace_def trim_back_def is_ascii_whitespace_def)
  ultimately show ?thesis by (subst plain_document_fields) auto
qed

section \<open>Decimal numbers\<close>

lemma is_digit_digit_char [simp]: "d < 10 \<Longrightarrow> is_digit (digit_char d)"
  by (simp add: is_digit_def digit_char_def)

lemma digits_value_snoc:
  "d < 10 \<Longrightarrow> digits_value (ds @ [digit_char d]) = 10 * digits_value ds + d"
  by (simp add: digits_value_def digit_char_def)

lemma to_string_nat_digits: "\<forall>c \<in> set (to_string_nat n). is_digit c"
  by (induction n rule: to_string_nat.induct) (subst to_string_nat.simps, auto)

lemma to_string_nat_not_Nil [simp]: "to_string_nat n \<noteq> []"
  by (subst to_string_nat.simps) simp

lemma digits_value_to_string_nat: "digits_value (to_string_nat n) = n"
proof (induction n rule: to_string_nat.induct)
  case (1 n)
  have "digits_value [digit_char d] = d" if "d < 10" for d
    using digits_value_snoc [OF that, of "[]"] by (simp add: digits_value_def)
  with 1 show ?case by (subst to_string_nat.simps) (simp add: digits_value_snoc)
qed

lemma length_to_string_nat: "n < 10 ^ Suc k \<Longrightarrow> length (to_string_nat n) \<le> Suc k"
proof (induction k arbitrary: n)
  case 0
  then show ?case by (subst to_string_nat.simps) simp
next
  case (Suc k)
  then have "n div 10 < 10 ^ Suc k" by (simp add: less_mult_imp_div_less)
  with Suc.IH show ?case by (subst to_string_nat.simps) simp
qed

lemma not_is_digit: "\<not> is_digit CHR ''-''" "\<not> is_digit CHR ''+''" "\<not> is_digit CHR ''<''"
  by (simp_all add: is_digit_def)

lemma digits_plain:
  assumes "\<forall>c \<in> set s. is_digit c"
  shows "plain_text s" and "trim_ascii_whitespace s = s" and "take_sign s = (False, s)"
proof -
  show "plain_text s" using assms not_is_digit by (auto simp: plain_text_def)
  have "\<not> is_ascii_whitespace c" if "is_digit c" for c
    using that by (auto simp: is_digit_def is_ascii_whitespace_def)
  then show "trim_ascii_whitespace s = s" using assms by (intro trim_id) blast
  show "take_sign s = (False, s)"
    using assms not_is_digit by (auto simp: take_sign_def split: list.splits)
qed

lemma extract_double_nat:
  assumes "n < 2 ^ 53"
  shows "extract_double m (to_string_nat n) = Some (Finite (of_nat n), [])"
proof -
  note d = to_string_nat_digits [of n]
  have all_taken: "takeWhile is_digit (to_string_nat n) = to_string_nat n"
    "dropWhile is_digit (to_string_nat n) = []"
    using d by (simp_all add: takeWhile_eq_all_conv dropWhile_eq_Nil_conv)
  have "fp_round binary64 m (of_nat n) = Finite (of_nat n)"
    using fp_of_int_binary64 [of "int n" m] assms by (simp add: fp_of_int_def)
  then show ?thesis
    by (simp add: extract_double_def digits_plain [OF d] all_taken take_fraction_def
        take_exponent_def digits_value_to_string_nat Let_def)
qed

definition float_environment_works :: "FloatEnvironment \<Rightarrow> bool" where
  "float_environment_works fe \<longleftrightarrow>
     hold_succeeds fe \<and> current_direction fe \<noteq> None \<and> select_succeeds fe \<and> restore_succeeds fe"

lemma ScopedRoundToNearest_works:
  "float_environment_works fe \<Longrightarrow> ScopedRoundToNearest fe = Inr ToNearest"
  by (auto simp: float_environment_works_def ScopedRoundToNearest_def)

lemma parse_positive_count_nat:
  assumes "float_environment_works fe" "0 < n" "n < 2 ^ 53"
  shows "parse_positive_count fe (to_string_nat n) t = Inr (Finite (of_nat n))"
proof -
  have "hd (to_string_nat n) \<noteq> CHR ''+''"
    using to_string_nat_digits [of n] not_is_digit hd_in_set [OF to_string_nat_not_Nil] by metis
  then show ?thesis
    using assms by (simp add: parse_positive_count_def ScopedRoundToNearest_works
        restore_environment_or_terminate_def float_environment_works_def extract_double_nat)
qed

lemma validate_calibration_counts:
  assumes "1 \<le> x" "1 \<le> y" "fu \<noteq> ForceUnknown" "tu \<noteq> TorqueUnknown"
  shows "validate_calibration \<lparr>counts_per_force_unit = Finite x, counts_per_torque_unit = Finite y,
           force_unit = fu, torque_unit = tu\<rparr> = Inr ()"
proof -
  have "require_safe_count name (Finite z) = Inr ()" if "1 \<le> z" for name z
  proof -
    have "(2 ^ 51 + 1) / 2 ^ 1044 \<le> (1::rat)" by simp
    with that have "\<not> z < (2 ^ 51 + 1) / 2 ^ 1044" by linarith
    with that show ?thesis
      by (simp add: require_safe_count_def require_positive_finite_def kMinimumCount_eq)
  qed
  with assms show ?thesis by (simp add: validate_calibration_def)
qed

text \<open>The document a sensor publishes for a configuration with whole counts.\<close>

definition sensor_children :: "string \<Rightarrow> nat \<Rightarrow> nat \<Rightarrow> ForceUnit \<Rightarrow> TorqueUnit \<Rightarrow> Child list" where
  "sensor_children name cpf cpt fu tu =
     [\<lparr>lead = [], tag = ''prodname'', content = name\<rparr>,
      \<lparr>lead = [], tag = ''cfgcpf'', content = to_string_nat cpf\<rparr>,
      \<lparr>lead = [], tag = ''cfgcpt'', content = to_string_nat cpt\<rparr>,
      \<lparr>lead = [], tag = ''scfgfu'', content = to_string_ForceUnit fu\<rparr>,
      \<lparr>lead = [], tag = ''scfgtu'', content = to_string_TorqueUnit tu\<rparr>]"

lemma force_unit_text:
  "plain_text (to_string_ForceUnit fu)"
  "trim_ascii_whitespace (to_string_ForceUnit fu) = to_string_ForceUnit fu"
  "to_string_ForceUnit fu \<noteq> []" "length (to_string_ForceUnit fu) \<le> 128"
  by (cases fu; simp add: plain_text_def trim_id is_ascii_whitespace_def)+

lemma torque_unit_text:
  "plain_text (to_string_TorqueUnit tu)"
  "trim_ascii_whitespace (to_string_TorqueUnit tu) = to_string_TorqueUnit tu"
  "to_string_TorqueUnit tu \<noteq> []" "length (to_string_TorqueUnit tu) \<le> 128"
  "normalize_torque_spelling (to_string_TorqueUnit tu) = to_string_TorqueUnit tu"
  by (cases tu; simp add: plain_text_def trim_id is_ascii_whitespace_def normalize_torque_spelling_def)+

lemmas unit_text_plain = force_unit_text torque_unit_text

lemma sensor_children_fields:
  assumes "plain_name docname" "docname \<notin> set kRequiredTags" "plain_text name"
    "trim_ascii_whitespace name = name" "name \<noteq> []" "length name \<le> 128"
    "cpf < 2 ^ 53" "cpt < 2 ^ 53"
  shows "extract_required_fields (document docname (sensor_children name cpf cpt fu tu)) =
           Inr [name, to_string_nat cpf, to_string_nat cpt, to_string_ForceUnit fu, to_string_TorqueUnit tu]"
proof (subst extract_document_iff [OF assms(1,2)])
  show "\<forall>c \<in> set (sensor_children name cpf cpt fu tu). plain_child c"
    using assms(3) by (simp add: sensor_children_def plain_child_def unit_text_plain
        digits_plain to_string_nat_digits) (simp add: plain_name_def plain_text_def is_ascii_whitespace_def)
  have len: "length (to_string_nat n) \<le> 128" if "n < 2 ^ 53" for n
    using length_to_string_nat [of n 15] that by simp
  show "distinct (required_tags (sensor_children name cpf cpt fu tu)) \<and>
      list_all2 (field_ok (sensor_children name cpf cpt fu tu)) [0, 1, 2, 3, 4]
        [name, to_string_nat cpf, to_string_nat cpt, to_string_ForceUnit fu, to_string_TorqueUnit tu]"
    using assms(4-6) len [OF assms(7)] len [OF assms(8)]
    by (simp add: field_ok_def child_content_def sensor_children_def required_tags_def
        kRequiredTags_def unit_text_plain digits_plain to_string_nat_digits)
qed

lemma parse_sensor_children:
  assumes "float_environment_works fe"
    and "plain_name docname" "docname \<notin> set kRequiredTags" "plain_text name"
      "trim_ascii_whitespace name = name" "name \<noteq> []" "length name \<le> 128"
    and "0 < cpf" "cpf < 2 ^ 53" "0 < cpt" "cpt < 2 ^ 53"
    and "fu \<noteq> ForceUnknown" "tu \<noteq> TorqueUnknown"
  shows "parse_sensor_configuration fe (document docname (sensor_children name cpf cpt fu tu)) =
           Inr \<lparr>product_name = name,
                calibration = \<lparr>counts_per_force_unit = Finite (of_nat cpf),
                               counts_per_torque_unit = Finite (of_nat cpt),
                               force_unit = fu, torque_unit = tu\<rparr>,
                source = SourceSensor, revision = 1\<rparr>"
proof -
  have "parse_force_unit (to_string_ForceUnit fu) = Inr fu"
    "parse_torque_unit (to_string_TorqueUnit tu) = Inr tu"
    using assms(12,13) by (simp_all add: parse_force_unit_def parse_torque_unit_def
        unit_text_plain force_names.parse_print torque_names.parse_print)
  moreover have "(1::rat) \<le> of_nat cpf" "(1::rat) \<le> of_nat cpt" using assms(8,10) by simp_all
  ultimately show ?thesis
    using assms by (simp add: parse_sensor_configuration_def sensor_children_fields
        parse_positive_count_nat validate_calibration_counts)
qed

text \<open>
  C16. Round trip of the sensor document: for a product name without markup, whole counts
  below \<open>2^53\<close> and known units, written with the names the library prints, parsing gives
  back exactly that configuration with the source recorded as the sensor, whatever rounding
  direction the calling thread had selected.
\<close>

theorem sensor_document_roundtrip:
  assumes "float_environment_works fe"
    and "plain_name docname" "docname \<notin> set kRequiredTags" "plain_text name"
      "trim_ascii_whitespace name = name" "name \<noteq> []" "length name \<le> 128"
    and "0 < cpf" "cpf < 2 ^ 53" "0 < cpt" "cpt < 2 ^ 53"
    and "fu \<noteq> ForceUnknown" "tu \<noteq> TorqueUnknown"
  shows "parse_sensor_configuration fe (document docname (sensor_children name cpf cpt fu tu)) =
           Inr \<lparr>product_name = name,
                calibration = \<lparr>counts_per_force_unit = Finite (of_nat cpf),
                               counts_per_torque_unit = Finite (of_nat cpt),
                               force_unit = fu, torque_unit = tu\<rparr>,
                source = SourceSensor, revision = 1\<rparr>"
  using assms by (rule parse_sensor_children)

lemma sensor_document_roundtrip_witness:
  "parse_sensor_configuration
     \<lparr>hold_succeeds = True, current_direction = Some Upward, select_succeeds = True, restore_succeeds = True\<rparr>
     (document ''netft'' (sensor_children ''Gamma'' 1000000 2000 Newton NewtonMeter)) =
   Inr \<lparr>product_name = ''Gamma'',
        calibration = \<lparr>counts_per_force_unit = Finite 1000000, counts_per_torque_unit = Finite 2000,
                       force_unit = Newton, torque_unit = NewtonMeter\<rparr>,
        source = SourceSensor, revision = 1\<rparr>"
proof -
  let ?fe = "\<lparr>hold_succeeds = True, current_direction = Some Upward, select_succeeds = True,
              restore_succeeds = True\<rparr>"
  have "float_environment_works ?fe" by (simp add: float_environment_works_def)
  moreover have "plain_name ''netft''" by (simp add: plain_name_def is_ascii_whitespace_def)
  moreover have "''netft'' \<notin> set kRequiredTags" by (simp add: kRequiredTags_def)
  moreover have "plain_text ''Gamma''" by (simp add: plain_text_def)
  moreover have "trim_ascii_whitespace ''Gamma'' = ''Gamma''"
    by (simp add: trim_id is_ascii_whitespace_def)
  ultimately show ?thesis
    using sensor_document_roundtrip [of ?fe "''netft''" "''Gamma''" 1000000 2000 Newton NewtonMeter]
    by simp
qed

section \<open>Every outcome of parsing\<close>

lemma extracted_name:
  assumes "extract_required_fields xml = Inr fs"
  shows "fs ! 0 \<noteq> [] \<and> length (fs ! 0) \<le> 128"
proof -
  obtain x where "finish_fields (0 # [1..<length kRequiredTags]) x = Inr fs"
    using assms by (auto simp: extract_required_fields_def bind_result_eq_Inr_iff upt_conv_Cons
        length_kRequiredTags simp del: finish_fields.simps split: if_splits)
  then obtain v vs where "fs = v # vs" "finish_field 0 x = Inr v"
    by (auto simp: bind_result_eq_Inr_iff)
  then show ?thesis
    by (auto simp: finish_field_def kMaximumFieldLength_def Let_def split: if_splits)
qed

text \<open>The exceptions that discovery reports.\<close>

definition is_discovery_error :: "exn \<Rightarrow> bool" where
  "is_discovery_error e \<longleftrightarrow> (\<exists>m. e = DiscoveryError m)"

lemma is_discovery_error_simps [simp]:
  "is_discovery_error (DiscoveryError m)" "is_discovery_error (field_error t m)"
  by (simp_all add: is_discovery_error_def field_error_def)

lemma handle_tag_error: "handle_tag raw x = Inl e \<Longrightarrow> is_discovery_error e"
  by (auto simp: handle_tag_def close_element_def open_element_def Let_def split: if_splits)

lemma find_tag_end_error: "find_tag_end q s = Inl e \<Longrightarrow> is_discovery_error e"
  by (induction q s rule: find_tag_end.induct)
    (auto simp: bind_result_eq_Inl_iff split: option.splits if_splits)

lemma scan_step_error: "scan_step rest x = Inl e \<Longrightarrow> is_discovery_error e"
  by (auto simp: scan_step_def scan_markup_def bind_result_eq_Inl_iff
      dest: handle_tag_error find_tag_end_error split: option.splits if_splits)

lemma scan_loop_error: "scan_loop rest x = Inl e \<Longrightarrow> is_discovery_error e"
proof (induction rest x rule: scan_loop.induct)
  case (1 rest x)
  from 1(2) show ?case
    by (subst (asm) scan_loop.simps)
      (auto split: if_splits sum.splits dest: scan_step_error intro: 1(1))
qed

lemma finish_fields_error: "finish_fields is x = Inl e \<Longrightarrow> is_discovery_error e"
  by (induction "is") (auto simp: bind_result_eq_Inl_iff finish_field_def Let_def split: if_splits)

lemma extract_error: "extract_required_fields xml = Inl e \<Longrightarrow> is_discovery_error e"
  unfolding extract_required_fields_def bind_result_eq_Inl_iff
  by (auto split: if_splits dest: scan_loop_error finish_fields_error simp del: finish_fields.simps)

lemma parse_positive_count_error:
  "restore_succeeds fe \<Longrightarrow> parse_positive_count fe v t = Inl e \<Longrightarrow> is_discovery_error e"
  by (auto simp: parse_positive_count_def ScopedRoundToNearest_def bind_result_eq_Inl_iff
      restore_environment_or_terminate_def Let_def split: if_splits option.splits prod.splits)

lemma validate_calibration_error: "validate_calibration c = Inl e \<Longrightarrow> \<exists>m. e = InvalidArgument m"
  by (auto simp: validate_calibration_def require_safe_count_def require_positive_finite_def
      bind_result_eq_Inl_iff)

lemma parse_units_error:
  "parse_force_unit v = Inl e \<Longrightarrow> is_discovery_error e"
  "parse_torque_unit w = Inl e \<Longrightarrow> is_discovery_error e"
  by (auto simp: parse_force_unit_def parse_torque_unit_def split: option.splits if_splits)

lemma map_error_eq_Inl_iff: "map_error f r = Inl e \<longleftrightarrow> (\<exists>e'. r = Inl e' \<and> e = f e')"
  by (cases r) auto

lemma parse_error:
  assumes "restore_succeeds fe" "parse_sensor_configuration fe xml = Inl e"
  shows "is_discovery_error e"
  using assms(2) parse_positive_count_error [OF assms(1)]
  by (auto simp: parse_sensor_configuration_def bind_result_eq_Inl_iff Let_def
      map_error_eq_Inl_iff dest: extract_error parse_units_error
      dest!: validate_calibration_error)

text \<open>
  C36. Parsing any document ends in one of two ways: a configuration whose calibration the
  validator accepts, with a nonempty product name of at most 128 characters, marked as read
  from the sensor and numbered 1; or a discovery error. No other exception leaves the
  parser as long as the floating-point environment can be restored.
\<close>

theorem parse_outcome:
  assumes "restore_succeeds fe"
  shows "case parse_sensor_configuration fe xml of
           Inr c \<Rightarrow> validate_calibration (calibration c) = Inr () \<and> product_name c \<noteq> [] \<and>
                    length (product_name c) \<le> 128 \<and> source c = SourceSensor \<and> revision c = 1
         | Inl e \<Rightarrow> is_discovery_error e"
proof (cases "parse_sensor_configuration fe xml")
  case (Inl e)
  with parse_error [OF assms] show ?thesis by simp
next
  case (Inr c)
  then have "validate_calibration (calibration c) = Inr () \<and> source c = SourceSensor \<and>
      revision c = 1 \<and> (\<exists>fs. extract_required_fields xml = Inr fs \<and> product_name c = fs ! 0)"
    by (auto simp: parse_sensor_configuration_def bind_result_eq_Inr_iff Let_def)
  then obtain fs where "extract_required_fields xml = Inr fs" "product_name c = fs ! 0"
      "validate_calibration (calibration c) = Inr ()" "source c = SourceSensor" "revision c = 1"
    by blast
  with Inr extracted_name [of xml fs] show ?thesis by simp
qed

lemma parse_outcome_witness:
  "parse_sensor_configuration
     \<lparr>hold_succeeds = True, current_direction = None, select_succeeds = True, restore_succeeds = True\<rparr>
     ''<!DOCTYPE a>'' \<in> range (\<lambda>m. Inl (DiscoveryError m))"
proof -
  let ?fe = "\<lparr>hold_succeeds = True, current_direction = None, select_succeeds = True,
              restore_succeeds = True\<rparr>"
  have "\<not> is_ok (parse_sensor_configuration ?fe ''<!DOCTYPE a>'')"
    by (simp add: parse_sensor_configuration_def extract_required_fields_def scan_loop.simps
        scan_step_def scan_markup_def)
  with parse_outcome [of ?fe "''<!DOCTYPE a>''"] show ?thesis
    by (auto simp: is_discovery_error_def split: sum.splits)
qed

end
