(* ===== verification/Discovery.thy ===== *)
theory Discovery
  imports Xml_Config
begin

text \<open>
  Model of \<open>src/src/discovery.cpp\<close>: validation of the options, the HTTP request, the
  bounded response buffer and the order of the checks after the transfer. libcurl is a
  record of functions; what the theorems rely on of it is the documented contract of
  \<open>curl_easy_perform\<close> with a write callback. Static initialization, which happens once per
  process, is a piece of state.
\<close>

section \<open>Options\<close>

record DiscoveryOptions =
  opt_sensor_host :: string
  opt_http_port :: int
  opt_connect_timeout :: fp
  opt_total_timeout :: fp

definition DiscoveryOptions_default :: DiscoveryOptions where
  "DiscoveryOptions_default =
     \<lparr>opt_sensor_host = ''192.168.1.1'', opt_http_port = 80, opt_connect_timeout = dbl (1 / 2),
      opt_total_timeout = dbl 1\<rparr>"

definition kMaximumResponseBytes :: nat where
  "kMaximumResponseBytes = 65536"

definition kAtiConfigurationProtocol :: string where
  "kAtiConfigurationProtocol = ''http''"

definition is_ascii_blank :: "string \<Rightarrow> bool" where
  "is_ascii_blank value \<longleftrightarrow>
     value = [] \<or>
     list_all (\<lambda>c. c = CHR '' '' \<or> c = CHR 0x09 \<or> c = CHR 0x0A \<or> c = CHR 0x0D \<or>
                   c = CHR 0x0C \<or> c = CHR 0x0B) value"

definition rounded_milliseconds :: "platform \<Rightarrow> fp \<Rightarrow> fp" where
  "rounded_milliseconds p seconds =
     fp_ceil (fp_mul (long_double p) (rounding_direction p)
       (fp_convert (long_double p) (rounding_direction p) seconds) (ld_const p 1000))"

definition timeout_milliseconds :: "platform \<Rightarrow> fp \<Rightarrow> string \<Rightarrow> (exn, int) result" where
  "timeout_milliseconds p seconds name =
     (let bad = Inl (DiscoveryError (name @ '' must be finite, positive, and representable''))
      in if \<not> fp_isfinite seconds \<or> fp_le seconds (Finite 0) then bad
         else let ms = rounded_milliseconds p seconds
              in if \<not> fp_isfinite ms \<or> fp_less (ld_const p (long_max p)) ms then bad
                 else case fp_to_int (- long_max p - 1) (long_max p) ms of
                        None \<Rightarrow> Inl UndefinedBehaviour
                      | Some n \<Rightarrow> Inr n)"

definition validate_options :: "platform \<Rightarrow> DiscoveryOptions \<Rightarrow> (exn, unit) result" where
  "validate_options p options =
     bind_result (throw_if (is_ascii_blank (opt_sensor_host options))
                    (DiscoveryError ''sensor_host must not be blank'')) (\<lambda>_.
     bind_result (throw_if (opt_http_port options < 1 \<or> 65535 < opt_http_port options)
                    (DiscoveryError ''http_port must be in the range 1..65535'')) (\<lambda>_.
     bind_result (timeout_milliseconds p (opt_connect_timeout options) ''connect_timeout'') (\<lambda>_.
     bind_result (timeout_milliseconds p (opt_total_timeout options) ''total_timeout'') (\<lambda>_.
     Inr ()))))"

section \<open>Response buffer\<close>

record ResponseBuffer =
  body :: string
  too_large :: bool
  write_failed :: bool

definition ResponseBuffer_init :: ResponseBuffer where
  "ResponseBuffer_init = \<lparr>body = [], too_large = False, write_failed = False\<rparr>"

text \<open>
  One invocation of the write callback: \<open>chunk_size\<close> and \<open>chunk_count\<close> are the two
  \<open>size_t\<close> arguments, \<open>chunk_data\<close> the bytes and \<open>append_throws\<close> whether
  \<open>std::string::append\<close> runs out of memory.
\<close>

record Chunk =
  chunk_data :: string
  chunk_size :: u64
  chunk_count :: u64
  append_throws :: bool

definition append_response :: "Chunk \<Rightarrow> ResponseBuffer \<Rightarrow> u64 \<times> ResponseBuffer" where
  "append_response c r =
     (if chunk_size c \<noteq> 0 \<and> chunk_count c > (- 1) div chunk_size c then (0, r\<lparr>too_large := True\<rparr>)
      else let byte_count = chunk_size c * chunk_count c
           in if byte_count > of_nat kMaximumResponseBytes - of_nat (length (body r))
              then (0, r\<lparr>too_large := True\<rparr>)
              else if append_throws c then (0, r\<lparr>write_failed := True\<rparr>)
              else (byte_count, r\<lparr>body := body r @ take (unat byte_count) (chunk_data c)\<rparr>))"

section \<open>The request\<close>

text \<open>libcurl result codes are numbers, with 0 for success.\<close>

type_synonym CURLcode = nat

definition CURLE_OK :: CURLcode where
  "CURLE_OK = 0"

definition CURLE_FAILED_INIT :: CURLcode where
  "CURLE_FAILED_INIT = 2"

datatype CURLUPart = CURLUPART_SCHEME | CURLUPART_HOST | CURLUPART_PORT | CURLUPART_PATH

type_synonym CURLU = "CURLUPart \<rightharpoonup> string"

datatype CURLoption =
    CURLOPT_CURLU | CURLOPT_PROTOCOLS_STR | CURLOPT_FOLLOWLOCATION | CURLOPT_MAXREDIRS
  | CURLOPT_NOSIGNAL | CURLOPT_PROXY | CURLOPT_CONNECTTIMEOUT_MS | CURLOPT_TIMEOUT_MS
  | CURLOPT_WRITEFUNCTION | CURLOPT_WRITEDATA

datatype OptionValue = UrlValue CURLU | StringValue string | LongValue int | CallbackValue | BufferValue

type_synonym CURL = "CURLoption \<rightharpoonup> OptionValue"

text \<open>
  What \<open>curl_easy_perform\<close> does: its code, the invocations of the write callback in order,
  and what \<open>curl_easy_getinfo\<close> reports afterwards (a code and the HTTP status).
\<close>

record Transfer =
  transfer_result :: CURLcode
  transfer_chunks :: "Chunk list"
  getinfo_result :: "CURLcode \<times> int"

record Curl =
  curl_global_init :: CURLcode
  curl_easy_init :: bool
  curl_url :: bool
  curl_url_set :: "CURLU \<Rightarrow> CURLUPart \<Rightarrow> string \<Rightarrow> CURLcode"
  curl_easy_setopt :: "CURL \<Rightarrow> CURLoption \<Rightarrow> OptionValue \<Rightarrow> CURLcode"
  curl_easy_perform :: "CURL \<Rightarrow> Transfer"
  curl_easy_strerror :: "CURLcode \<Rightarrow> string"

text \<open>The static result of the one initialization of the process, \<open>None\<close> before it.\<close>

definition initialize_curl_once :: "Curl \<Rightarrow> CURLcode option \<Rightarrow> CURLcode \<times> CURLcode option" where
  "initialize_curl_once curl initialization =
     (case initialization of
        Some result \<Rightarrow> (result, initialization)
      | None \<Rightarrow> (curl_global_init curl, Some (curl_global_init curl)))"

definition set_curl_option ::
    "Curl \<Rightarrow> CURLoption \<Rightarrow> OptionValue \<Rightarrow> CURL \<Rightarrow> (exn, CURL) result" where
  "set_curl_option curl option v handle =
     (if curl_easy_setopt curl handle option v \<noteq> CURLE_OK
      then Inl (DiscoveryError ''failed to configure sensor discovery request'')
      else Inr (handle(option \<mapsto> v)))"

definition set_url_part :: "Curl \<Rightarrow> CURLUPart \<Rightarrow> string \<Rightarrow> CURLU \<Rightarrow> (exn, CURLU) result" where
  "set_url_part curl part v url =
     (if curl_url_set curl url part v \<noteq> CURLE_OK
      then Inl (DiscoveryError ''invalid sensor discovery URL'')
      else Inr (url(part \<mapsto> v)))"

definition bracketed_host :: "string \<Rightarrow> string" where
  "bracketed_host host =
     (if CHR '':'' \<in> set host \<and>
         (length host < 2 \<or> hd host \<noteq> CHR ''['' \<or> last host \<noteq> CHR '']'')
      then ''['' @ host @ '']'' else host)"

definition discovery_url :: "Curl \<Rightarrow> DiscoveryOptions \<Rightarrow> (exn, CURLU) result" where
  "discovery_url curl options =
     bind_result (set_url_part curl CURLUPART_SCHEME kAtiConfigurationProtocol Map.empty) (\<lambda>u.
     bind_result (set_url_part curl CURLUPART_HOST (c_str (bracketed_host (opt_sensor_host options))) u) (\<lambda>u.
     bind_result (set_url_part curl CURLUPART_PORT (to_string_int (opt_http_port options)) u) (\<lambda>u.
     set_url_part curl CURLUPART_PATH ''/netftapi2.xml'' u)))"

definition discovery_handle ::
    "platform \<Rightarrow> Curl \<Rightarrow> DiscoveryOptions \<Rightarrow> CURLU \<Rightarrow> (exn, CURL) result" where
  "discovery_handle p curl options url =
     bind_result (set_curl_option curl CURLOPT_CURLU (UrlValue url) Map.empty) (\<lambda>h.
     bind_result (set_curl_option curl CURLOPT_PROTOCOLS_STR (StringValue kAtiConfigurationProtocol) h) (\<lambda>h.
     bind_result (set_curl_option curl CURLOPT_FOLLOWLOCATION (LongValue 0) h) (\<lambda>h.
     bind_result (set_curl_option curl CURLOPT_MAXREDIRS (LongValue 0) h) (\<lambda>h.
     bind_result (set_curl_option curl CURLOPT_NOSIGNAL (LongValue 1) h) (\<lambda>h.
     bind_result (set_curl_option curl CURLOPT_PROXY (StringValue []) h) (\<lambda>h.
     bind_result (timeout_milliseconds p (opt_connect_timeout options) ''connect_timeout'') (\<lambda>connect_ms.
     bind_result (set_curl_option curl CURLOPT_CONNECTTIMEOUT_MS (LongValue connect_ms) h) (\<lambda>h.
     bind_result (timeout_milliseconds p (opt_total_timeout options) ''total_timeout'') (\<lambda>total_ms.
     bind_result (set_curl_option curl CURLOPT_TIMEOUT_MS (LongValue total_ms) h) (\<lambda>h.
     bind_result (set_curl_option curl CURLOPT_WRITEFUNCTION CallbackValue h) (\<lambda>h.
     set_curl_option curl CURLOPT_WRITEDATA BufferValue h)))))))))))"

definition receive_response :: "Chunk list \<Rightarrow> ResponseBuffer \<Rightarrow> ResponseBuffer" where
  "receive_response chunks r = fold (\<lambda>c r. snd (append_response c r)) chunks r"

text \<open>The checks after the transfer, in the order of the code.\<close>

definition finish_transfer ::
    "Curl \<Rightarrow> FloatEnvironment \<Rightarrow> Transfer \<Rightarrow> ResponseBuffer \<Rightarrow> (exn, SensorConfiguration) result" where
  "finish_transfer curl fe t response =
     (if too_large response then
        Inl (DiscoveryError ''sensor configuration response exceeds 65536 bytes'')
      else if write_failed response then
        Inl (DiscoveryError ''failed to store sensor configuration response'')
      else if transfer_result t \<noteq> CURLE_OK then
        Inl (DiscoveryError (''sensor configuration request failed: '' @
                             curl_easy_strerror curl (transfer_result t)))
      else if fst (getinfo_result t) \<noteq> CURLE_OK then
        Inl (DiscoveryError ''failed to inspect sensor configuration response'')
      else if snd (getinfo_result t) \<noteq> 200 then
        Inl (DiscoveryError (''sensor configuration request returned HTTP '' @
                             to_string_int (snd (getinfo_result t))))
      else parse_sensor_configuration fe (body response))"

definition discover_sensor ::
    "platform \<Rightarrow> Curl \<Rightarrow> FloatEnvironment \<Rightarrow> DiscoveryOptions \<Rightarrow> CURLcode option \<Rightarrow>
     (exn, SensorConfiguration) result \<times> CURLcode option" where
  "discover_sensor p curl fe options initialization =
     (case validate_options p options of
        Inl e \<Rightarrow> (Inl e, initialization)
      | Inr _ \<Rightarrow>
          (case initialize_curl_once curl initialization of (result, initialization') \<Rightarrow>
            (if result \<noteq> CURLE_OK then Inl (DiscoveryError ''failed to initialize HTTP transport'')
             else if \<not> curl_easy_init curl then Inl (DiscoveryError ''failed to create HTTP transport'')
             else if \<not> curl_url curl then
               Inl (DiscoveryError ''failed to create sensor discovery URL'')
             else
               bind_result (discovery_url curl options) (\<lambda>url.
               bind_result (discovery_handle p curl options url) (\<lambda>handle.
               let t = curl_easy_perform curl handle
               in finish_transfer curl fe t (receive_response (transfer_chunks t) ResponseBuffer_init))),
             initialization')))"

section \<open>The buffer stays within its bound\<close>

definition chunk_ok :: "Chunk \<Rightarrow> bool" where
  "chunk_ok c \<longleftrightarrow> length (chunk_data c) = unat (chunk_size c) * unat (chunk_count c)"

lemma unat_size_max: "unat (- 1 :: u64) = 2 ^ 64 - 1"
  by (simp add: unsigned_minus_1_eq_mask mask_eq_exp_minus_1)

lemma remaining_room:
  assumes "length (body r) \<le> kMaximumResponseBytes"
  shows "unat (of_nat kMaximumResponseBytes - of_nat (length (body r)) :: u64) =
           kMaximumResponseBytes - length (body r)"
  unfolding of_nat_diff [OF assms, symmetric] by (simp add: unat_of_nat kMaximumResponseBytes_def)

lemma no_overflow_iff:
  fixes a b :: u64
  shows "(a \<noteq> 0 \<and> b > (- 1) div a) \<longleftrightarrow> 2 ^ 64 \<le> unat a * unat b"
proof (cases "a = 0")
  case True
  then show ?thesis by simp
next
  case False
  then have pos: "0 < unat a" by (simp add: unat_gt_0)
  have "(- 1) div a < b \<longleftrightarrow> (2 ^ 64 - 1) div unat a < unat b"
    by (simp add: word_less_nat_alt unat_div unat_size_max)
  also have "\<dots> \<longleftrightarrow> 2 ^ 64 - 1 < unat b * unat a"
    using pos by (simp add: div_less_iff_less_mult)
  also have "\<dots> \<longleftrightarrow> 2 ^ 64 \<le> unat a * unat b"
    by (simp add: mult.commute) linarith
  finally show ?thesis using False by simp
qed

lemma unat_mult_exact:
  fixes a b :: u64
  assumes "\<not> 2 ^ 64 \<le> unat a * unat b"
  shows "unat (a * b) = unat a * unat b"
  using assms by (simp add: unat_word_ariths)

text \<open>What one callback does, in terms of natural numbers.\<close>

lemma append_response_cases:
  assumes "chunk_ok c" "length (body r) \<le> kMaximumResponseBytes"
  shows "append_response c r =
           (if kMaximumResponseBytes - length (body r) < length (chunk_data c) then (0, r\<lparr>too_large := True\<rparr>)
            else if append_throws c then (0, r\<lparr>write_failed := True\<rparr>)
            else (of_nat (length (chunk_data c)), r\<lparr>body := body r @ chunk_data c\<rparr>))"
proof (cases "2 ^ 64 \<le> unat (chunk_size c) * unat (chunk_count c)")
  case True
  then have "kMaximumResponseBytes - length (body r) < length (chunk_data c)"
    using assms(1) by (simp add: chunk_ok_def kMaximumResponseBytes_def)
  with True show ?thesis
    unfolding append_response_def no_overflow_iff by simp
next
  case False
  let ?n = "chunk_size c * chunk_count c"
  have n: "unat ?n = length (chunk_data c)"
    using unat_mult_exact [OF False] assms(1) by (simp add: chunk_ok_def)
  have "?n > of_nat kMaximumResponseBytes - of_nat (length (body r)) \<longleftrightarrow>
      kMaximumResponseBytes - length (body r) < length (chunk_data c)"
    by (simp add: word_less_nat_alt n remaining_room [OF assms(2)])
  moreover have "?n = of_nat (length (chunk_data c))" unfolding n [symmetric] by simp
  ultimately show ?thesis using False n
    unfolding append_response_def no_overflow_iff by (simp add: Let_def)
qed

lemma append_response_bounded:
  assumes "length (body r) \<le> kMaximumResponseBytes"
  shows "length (body (snd (append_response c r))) \<le> kMaximumResponseBytes"
  using assms remaining_room [OF assms]
  by (auto simp: append_response_def Let_def word_less_nat_alt not_less)

lemma receive_response_bounded:
  "length (body r) \<le> kMaximumResponseBytes \<Longrightarrow>
     length (body (receive_response chunks r)) \<le> kMaximumResponseBytes"
  unfolding receive_response_def
  by (induction chunks arbitrary: r) (auto intro: append_response_bounded)

lemma receive_response_Nil [simp]: "receive_response [] r = r"
  by (simp add: receive_response_def)

lemma receive_response_Cons [simp]:
  "receive_response (c # cs) r = receive_response cs (snd (append_response c r))"
  by (simp add: receive_response_def)

lemma append_response_flags:
  "too_large r \<Longrightarrow> too_large (snd (append_response c r))"
  "write_failed r \<Longrightarrow> write_failed (snd (append_response c r))"
  by (auto simp: append_response_def Let_def)

lemma receive_response_flags:
  "too_large r \<Longrightarrow> too_large (receive_response cs r)"
  "write_failed r \<Longrightarrow> write_failed (receive_response cs r)"
  by (induction cs arbitrary: r) (auto dest: append_response_flags)

lemma receive_response_complete:
  assumes "length (body r) \<le> kMaximumResponseBytes" "list_all chunk_ok cs"
    "\<not> too_large (receive_response cs r)" "\<not> write_failed (receive_response cs r)"
  shows "body (receive_response cs r) = body r @ concat (map chunk_data cs)"
  using assms
proof (induction cs arbitrary: r)
  case Nil
  then show ?case by simp
next
  case (Cons c cs)
  have "snd (append_response c r) = r\<lparr>body := body r @ chunk_data c\<rparr>"
    using Cons.prems append_response_cases [of c r]
      receive_response_flags [of "snd (append_response c r)" cs]
    by (auto split: if_splits)
  moreover have "length (body (snd (append_response c r))) \<le> kMaximumResponseBytes"
    using Cons.prems(1) by (rule append_response_bounded)
  ultimately show ?case using Cons by simp
qed

text \<open>
  C25. Whatever the sensor or the network delivers, the response buffer never holds more
  than 65536 bytes. When neither flag is raised it holds exactly the delivered bytes, in
  order; and a response that fits, stored without running out of memory, raises no flag.
\<close>

theorem response_buffer_bounded:
  assumes "list_all chunk_ok chunks"
  shows "length (body (receive_response chunks ResponseBuffer_init)) \<le> 65536 \<and>
         (\<not> too_large (receive_response chunks ResponseBuffer_init) \<and>
            \<not> write_failed (receive_response chunks ResponseBuffer_init) \<longrightarrow>
          body (receive_response chunks ResponseBuffer_init) = concat (map chunk_data chunks)) \<and>
         (length (concat (map chunk_data chunks)) \<le> 65536 \<and> list_all (\<lambda>c. \<not> append_throws c) chunks \<longrightarrow>
          receive_response chunks ResponseBuffer_init =
            \<lparr>body = concat (map chunk_data chunks), too_large = False, write_failed = False\<rparr>)"
proof -
  have fits: "receive_response cs r = r\<lparr>body := body r @ concat (map chunk_data cs)\<rparr>"
    if "length (body r) + length (concat (map chunk_data cs)) \<le> kMaximumResponseBytes"
      "list_all chunk_ok cs" "list_all (\<lambda>c. \<not> append_throws c) cs" for cs r
    using that
  proof (induction cs arbitrary: r)
    case Nil
    then show ?case by simp
  next
    case (Cons c cs)
    then have "append_response c r =
        (of_nat (length (chunk_data c)), r\<lparr>body := body r @ chunk_data c\<rparr>)"
      by (subst append_response_cases) auto
    with Cons show ?case by simp
  qed
  show ?thesis
    using receive_response_bounded [of ResponseBuffer_init chunks]
      receive_response_complete [of ResponseBuffer_init chunks]
      fits [of ResponseBuffer_init chunks] assms
    by (simp add: ResponseBuffer_init_def kMaximumResponseBytes_def)
qed

lemma response_buffer_bounded_witness:
  "body (receive_response [\<lparr>chunk_data = ''ab'', chunk_size = 1, chunk_count = 2, append_throws = False\<rparr>,
                           \<lparr>chunk_data = ''c'', chunk_size = 1, chunk_count = 1, append_throws = False\<rparr>]
           ResponseBuffer_init) = ''abc''"
  using response_buffer_bounded [of "[\<lparr>chunk_data = ''ab'', chunk_size = 1, chunk_count = 2, append_throws = False\<rparr>,
                           \<lparr>chunk_data = ''c'', chunk_size = 1, chunk_count = 1, append_throws = False\<rparr>]"]
  by (simp add: chunk_ok_def)

section \<open>Timeouts\<close>

lemma rounded_milliseconds_cases:
  assumes "platform_ok p" "0 < s"
  shows "rounded_milliseconds p (Finite s) = Infinity True \<or>
         (\<exists>n \<ge> 0. rounded_milliseconds p (Finite s) = Finite (of_int n))"
proof -
  let ?f = "long_double p" and ?m = "rounding_direction p"
  have k: "ld_const p 1000 = Finite 1000" using ld_small_const [OF assms(1), of 1000] by simp
  have wf: "0 < fp_precision ?f" using assms(1) by (simp add: platform_ok_def)
  consider "fp_round ?f ?m s = Infinity True" | y where "fp_round ?f ?m s = Finite y" "0 \<le> y"
    using fp_round_nonneg [of s ?f ?m] assms(2) wf by auto
  then show ?thesis
  proof cases
    case 1
    then show ?thesis by (simp add: rounded_milliseconds_def k)
  next
    case (2 y)
    then have "fp_round ?f ?m (y * 1000) = Infinity True \<or>
        (\<exists>z. fp_round ?f ?m (y * 1000) = Finite z \<and> 0 \<le> z)"
      using wf by (intro fp_round_nonneg) auto
    then show ?thesis
      using 2(1) by (auto simp: rounded_milliseconds_def k)
  qed
qed

text \<open>
  The conversion is defined as soon as the value lies below the limit, which is what
  \<open>validate(const Config &)\<close> checks with \<open>\<ge>\<close>.
\<close>

lemma timeout_milliseconds_defined:
  assumes "0 < s" "rounded_milliseconds p (Finite s) = Finite (of_int n)" "0 \<le> n"
    "n \<le> long_max p" "\<not> fp_less (ld_const p (long_max p)) (Finite (of_int n))"
  shows "timeout_milliseconds p (Finite s) name = Inr n"
  using assms by (auto simp: timeout_milliseconds_def Let_def trunc_rat_def)

lemma long_max_bound:
  assumes "platform_ok p"
  shows "\<exists>y. ld_const p (long_max p) = Finite y \<and> y \<le> of_int (long_max p) + 1"
proof -
  have l: "long_max p = 2 ^ 31 - 1 \<or> long_max p = 2 ^ 63 - 1"
    using assms by (simp add: platform_ok_def)
  then show ?thesis
  proof
    assume l: "long_max p = 2 ^ 31 - 1"
    with ld_const_le [OF assms, of "long_max p" 31] show ?thesis by auto
  next
    assume l: "long_max p = 2 ^ 63 - 1"
    with ld_const_le [OF assms, of "long_max p" 63] show ?thesis by auto
  qed
qed

lemma http_timeout_converts:
  assumes "platform_ok p" and "require_safe_timeout p now name v True = Inr ()"
  shows "\<exists>ms. timeout_milliseconds p v option_name = Inr ms \<and> 0 \<le> ms \<and> ms \<le> long_max p"
proof -
  obtain x where x: "v = Finite x" "0 < x"
      "\<not> fp_le (ld_const p (long_max p)) (rounded_milliseconds p v)"
    using require_safe_timeout_ok [OF assms] by (auto simp: rounded_milliseconds_def)
  obtain y where y: "ld_const p (long_max p) = Finite y" "y \<le> of_int (long_max p) + 1"
    using long_max_bound [OF assms(1)] by blast
  then obtain n where n: "rounded_milliseconds p v = Finite (of_int n)" "0 \<le> n"
    using rounded_milliseconds_cases [OF assms(1) x(2)] x(1,3) by (auto simp: fp_le_def)
  with x(3) y(1) have less: "of_int n < y" by simp
  then have "(of_int n :: rat) < of_int (long_max p + 1)" using y(2) by simp
  then have "n \<le> long_max p" by (simp only: of_int_less_iff)
  moreover have "\<not> fp_less (ld_const p (long_max p)) (Finite (of_int n))"
    using less y(1) by simp
  ultimately show ?thesis
    using timeout_milliseconds_defined [OF x(2), of p n option_name] n x(1) by auto
qed

text \<open>
  The HTTP timeouts of a configuration that passed \<open>validate\<close> convert without error:
  discovery gets a number of milliseconds between 0 and the largest \<open>long\<close>, on every
  supported platform.
\<close>

theorem accepted_http_timeout_converts:
  assumes "platform_ok p" and "require_safe_timeout p now name v True = Inr ()"
  shows "\<exists>ms. timeout_milliseconds p v option_name = Inr ms \<and> 0 \<le> ms \<and> ms \<le> long_max p"
  using assms by (rule http_timeout_converts)

lemma accepted_http_timeout_converts_witness:
  "\<exists>ms. timeout_milliseconds macos_arm64 (dbl 1) ''total_timeout'' = Inr ms \<and> 0 \<le> ms \<and>
        ms \<le> long_max macos_arm64"
proof -
  have "ordinary_timeout (dbl 1)" by (rule ordinary_timeout_dbl) simp_all
  then have "require_safe_timeout macos_arm64 0 ''http_total_timeout'' (dbl 1) True = Inr ()"
    by (intro require_safe_timeout_accepts platform_ok_supported)
      (simp_all add: macos_arm64_def linux_x86_64_def)
  then show ?thesis by (intro accepted_http_timeout_converts) simp_all
qed

text \<open>
  The same conversion for options given directly to \<open>discover_sensor\<close>. The limit is
  compared with \<open>>\<close>: where \<open>long double\<close> holds the largest \<open>long\<close> exactly, this rejects every
  value the conversion cannot represent.
\<close>

definition long_exact :: "platform \<Rightarrow> bool" where
  "long_exact p \<longleftrightarrow> 64 \<le> fp_precision (long_double p) \<or> long_max p = 2 ^ 31 - 1"

lemma ld_long_max_exact:
  assumes "platform_ok p" "long_exact p"
  shows "ld_const p (long_max p) = Finite (of_int (long_max p))"
proof -
  note ok = assms(1) [unfolded platform_ok_def]
  have l: "0 \<le> long_max p" "long_max p \<le> 2 ^ 63 - 1" using ok by auto
  have "long_max p < 2 ^ fp_precision (long_double p)"
  proof (cases "64 \<le> fp_precision (long_double p)")
    case True
    then have "(2::int) ^ 64 \<le> 2 ^ fp_precision (long_double p)" by (intro power_increasing) auto
    with l(2) show ?thesis by simp
  next
    case False
    have "(2::int) ^ 53 \<le> 2 ^ fp_precision (long_double p)" using ok by (intro power_increasing) auto
    with False assms(2) show ?thesis by (simp add: long_exact_def)
  qed
  moreover have "(of_int (long_max p) :: rat) \<le> of_int (2 ^ 64)"
    using l(2) by (intro of_int_le_iff [THEN iffD2]) simp
  then have "of_int (long_max p) \<le> fp_max (long_double p)"
    using ld_two_power(2) [OF assms(1), of 64] by simp
  ultimately show ?thesis unfolding ld_const_def using l ok by (intro fp_of_int_exact) auto
qed

lemma timeout_milliseconds_outcome:
  assumes "platform_ok p" "long_exact p"
  shows "case timeout_milliseconds p v name of
           Inr ms \<Rightarrow> 0 \<le> ms \<and> ms \<le> long_max p
         | Inl e \<Rightarrow> is_discovery_error e"
proof (cases "\<exists>s > 0. v = Finite s")
  case True
  then obtain s where s: "v = Finite s" "0 < s" by blast
  from rounded_milliseconds_cases [OF assms(1) s(2)] show ?thesis
  proof (elim disjE exE conjE)
    assume "rounded_milliseconds p (Finite s) = Infinity True"
    with s show ?thesis by (simp add: timeout_milliseconds_def)
  next
    fix n :: int assume n: "0 \<le> n" "rounded_milliseconds p (Finite s) = Finite (of_int n)"
    show ?thesis
    proof (cases "n \<le> long_max p")
      case True
      then show ?thesis
        using timeout_milliseconds_defined [OF s(2) n(2,1) True] s(1) n(1)
        by (simp add: ld_long_max_exact [OF assms])
    next
      case False
      with s n ld_long_max_exact [OF assms] show ?thesis by (simp add: timeout_milliseconds_def)
    qed
  qed
next
  case False
  then show ?thesis by (cases v) (auto simp: timeout_milliseconds_def fp_le_def Let_def)
qed

lemma macos_limit: "ld_const macos_arm64 (long_max macos_arm64) = Finite (2 ^ 63)"
proof -
  have "fp_round binary64 ToNearest (2 ^ 63 - 1) = Finite (of_int (2 ^ 53) * 2 ^ 10)"
  proof (rule fp_round_normal [where k = 62])
    show "round_int ToNearest ((2 ^ 63 - 1) / 2 ^ 10) = 2 ^ 53"
      unfolding round_int.simps by (rule round_nearest_even_near) simp_all
  qed (simp_all add: binary64_def fp_max_def)
  then show ?thesis
    by (simp add: ld_const_def fp_of_int_def macos_arm64_def linux_x86_64_def)
qed

lemma macos_large_timeout:
  "rounded_milliseconds macos_arm64 (Finite 9223372036854776) = Finite (2 ^ 63)"
proof -
  have "fp_round binary64 ToNearest 9223372036854776 = Finite 9223372036854776"
  proof (rule fp_round_exact)
    show "representable binary64 9223372036854776" unfolding representable_def
      by (rule exI [of _ 4611686018427388], rule exI [of _ 1]) (simp add: binary64_def)
  qed (simp add: fp_max_binary64)
  moreover have "fp_round binary64 ToNearest (9223372036854776 * 1000) =
      Finite (of_int (2 ^ 52) * 2 ^ 11)"
  proof (rule fp_round_normal [where k = 63])
    show "round_int ToNearest (9223372036854776 * 1000 / 2 ^ 11) = 2 ^ 52"
      unfolding round_int.simps by (rule round_nearest_even_near) simp_all
  qed (simp_all add: binary64_def fp_max_def)
  moreover have "ld_const macos_arm64 1000 = Finite 1000"
    using ld_small_const [of macos_arm64 1000] by simp
  ultimately show ?thesis
    by (simp add: rounded_milliseconds_def macos_arm64_def linux_x86_64_def)
qed

lemma macos_large_duration:
  "checked_duration macos_arm64 (Finite 9223372036854776) =
     Inl (InvalidArgument ''duration is outside the supported steady-clock range'')"
proof -
  note ok = platform_ok_supported(3)
  have b: "long_double macos_arm64 = binary64" "rounding_direction macos_arm64 = ToNearest"
    "period_den macos_arm64 = 1000000000" "period_num macos_arm64 = 1" "rep_max macos_arm64 = long_max macos_arm64"
    by (simp_all add: macos_arm64_def linux_x86_64_def)
  have r: "representable binary64 9223372036854776" unfolding representable_def
    by (rule exI [of _ 4611686018427388], rule exI [of _ 1]) (simp add: binary64_def)
  have v: "fp_convert binary64 ToNearest (Finite 9223372036854776) = Finite 9223372036854776"
    using ld_extends_double [OF ok r] b by (simp add: fp_max_binary64)
  have two: "representable binary64 (2 ^ 63)" using ld_two_power [OF ok, of 63] b(1) by simp
  have w: "fp_wf binary64" using ok b(1) by (simp add: platform_ok_def)
  obtain y where y: "fp_round binary64 ToNearest (9223372036854776 * 1000000000) = Finite y" "2 ^ 63 \<le> y"
    using fp_round_ge [of binary64 "2 ^ 63" "9223372036854776 * 1000000000" ToNearest] two w
    by (auto simp: fp_max_binary64)
  have "representable binary64 (2 ^ 84)" unfolding representable_def
    by (rule exI [of _ 1], rule exI [of _ 84]) (simp add: binary64_def)
  then have "y \<le> 2 ^ 84"
    using fp_round_le [of binary64 "9223372036854776 * 1000000000" "2 ^ 84" ToNearest] w y(1)
    by (auto simp: fp_max_binary64)
  moreover have "representable binary64 y"
    by (rule fp_round_representable [OF w _ y(1)]) (simp add: fp_max_binary64)
  ultimately have "fp_round binary64 ToNearest y = Finite y"
    using y(2) by (intro fp_round_exact) (auto simp: fp_max_binary64)
  moreover have "ld_const macos_arm64 1000000000 = Finite 1000000000" "ld_const macos_arm64 1 = Finite 1"
    using ld_round_int [OF ok, of 1000000000] ld_round_int [OF ok, of 1] by (simp_all add: ld_const_def fp_of_int_def)
  ultimately have "checked_ticks macos_arm64 (Finite 9223372036854776) = Finite y"
    using v y(1) by (simp add: checked_ticks_def b)
  then show ?thesis using y(2) macos_limit by (simp add: checked_duration_def b(5) Let_def)
qed

text \<open>
  On a platform whose \<open>long double\<close> has the 53 bits of \<open>double\<close> and whose \<open>long\<close> has 64 bits,
  the limit of \<open>timeout_milliseconds\<close> itself rounds up to \<open>2^63\<close>, and a timeout of
  9223372036854776 seconds passes the test with \<open>>\<close>: the cast to \<open>long\<close> that follows is
  undefined. The configuration check refuses the same value before it comes to its own test
  of the HTTP timer range, because it is beyond the range of the steady clock; discovery
  with its own options makes no such test.
\<close>

lemma timeout_limit_not_rejected:
  "timeout_milliseconds macos_arm64 (Finite 9223372036854776) name = Inl UndefinedBehaviour \<and>
   require_safe_timeout macos_arm64 now name (Finite 9223372036854776) http =
     Inl (InvalidArgument ''duration is outside the supported steady-clock range'')"
proof
  show "timeout_milliseconds macos_arm64 (Finite 9223372036854776) name = Inl UndefinedBehaviour"
    by (simp add: timeout_milliseconds_def macos_large_timeout macos_limit Let_def trunc_rat_def)
      (simp add: macos_arm64_def linux_x86_64_def)
  show "require_safe_timeout macos_arm64 now name (Finite 9223372036854776) http =
      Inl (InvalidArgument ''duration is outside the supported steady-clock range'')"
    by (simp add: require_safe_timeout_def require_positive_finite_def macos_large_duration)
qed

section \<open>Outcomes of discovery\<close>

lemma set_url_part_ok:
  "set_url_part curl part v url = Inr url' \<Longrightarrow> url' = url(part \<mapsto> v)"
  by (simp add: set_url_part_def split: if_splits)

lemma set_curl_option_ok:
  "set_curl_option curl option v h = Inr h' \<Longrightarrow> h' = h(option \<mapsto> v)"
  by (simp add: set_curl_option_def split: if_splits)

lemma request_errors:
  "set_url_part curl part v url = Inl e \<Longrightarrow> is_discovery_error e"
  "set_curl_option curl option v' h = Inl e \<Longrightarrow> is_discovery_error e"
  by (auto simp: set_url_part_def set_curl_option_def split: if_splits)

text \<open>The request every discovery makes.\<close>

definition request_url :: "DiscoveryOptions \<Rightarrow> CURLU" where
  "request_url options =
     [CURLUPART_SCHEME \<mapsto> ''http'',
      CURLUPART_HOST \<mapsto> c_str (bracketed_host (opt_sensor_host options)),
      CURLUPART_PORT \<mapsto> to_string_int (opt_http_port options),
      CURLUPART_PATH \<mapsto> ''/netftapi2.xml'']"

definition request_handle :: "DiscoveryOptions \<Rightarrow> int \<Rightarrow> int \<Rightarrow> CURL" where
  "request_handle options connect_ms total_ms =
     [CURLOPT_CURLU \<mapsto> UrlValue (request_url options), CURLOPT_PROTOCOLS_STR \<mapsto> StringValue ''http'',
      CURLOPT_FOLLOWLOCATION \<mapsto> LongValue 0, CURLOPT_MAXREDIRS \<mapsto> LongValue 0,
      CURLOPT_NOSIGNAL \<mapsto> LongValue 1, CURLOPT_PROXY \<mapsto> StringValue [],
      CURLOPT_CONNECTTIMEOUT_MS \<mapsto> LongValue connect_ms, CURLOPT_TIMEOUT_MS \<mapsto> LongValue total_ms,
      CURLOPT_WRITEFUNCTION \<mapsto> CallbackValue, CURLOPT_WRITEDATA \<mapsto> BufferValue]"

lemma discovery_url_ok: "discovery_url curl options = Inr url \<Longrightarrow> url = request_url options"
  by (auto simp: discovery_url_def bind_result_eq_Inr_iff request_url_def
      kAtiConfigurationProtocol_def dest!: set_url_part_ok)

lemma discovery_handle_ok:
  "discovery_handle p curl options (request_url options) = Inr h \<Longrightarrow>
     \<exists>connect_ms total_ms.
       timeout_milliseconds p (opt_connect_timeout options) ''connect_timeout'' = Inr connect_ms \<and>
       timeout_milliseconds p (opt_total_timeout options) ''total_timeout'' = Inr total_ms \<and>
       h = request_handle options connect_ms total_ms"
  by (auto simp: discovery_handle_def bind_result_eq_Inr_iff request_handle_def
      kAtiConfigurationProtocol_def dest!: set_curl_option_ok)

lemma finish_transfer_ok:
  assumes "finish_transfer curl fe t (receive_response (transfer_chunks t) ResponseBuffer_init) = Inr c"
    "list_all chunk_ok (transfer_chunks t)"
  shows "transfer_result t = CURLE_OK \<and> getinfo_result t = (CURLE_OK, 200) \<and>
         length (concat (map chunk_data (transfer_chunks t))) \<le> kMaximumResponseBytes \<and>
         parse_sensor_configuration fe (concat (map chunk_data (transfer_chunks t))) = Inr c"
proof -
  let ?r = "receive_response (transfer_chunks t) ResponseBuffer_init"
  have flags: "\<not> too_large ?r" "\<not> write_failed ?r"
    using assms(1) by (auto simp: finish_transfer_def split: if_splits)
  have "body ?r = concat (map chunk_data (transfer_chunks t))"
    using receive_response_complete [OF _ assms(2) flags] by (simp add: ResponseBuffer_init_def)
  moreover have "length (body ?r) \<le> kMaximumResponseBytes"
    by (rule receive_response_bounded) (simp add: ResponseBuffer_init_def)
  ultimately show ?thesis using assms(1) flags
    by (auto simp: finish_transfer_def prod_eq_iff split: if_splits)
qed

definition chunks_well_formed :: "Curl \<Rightarrow> bool" where
  "chunks_well_formed curl \<longleftrightarrow> (\<forall>h. list_all chunk_ok (transfer_chunks (curl_easy_perform curl h)))"

text \<open>
  C21. A configuration returned by discovery is the parse of the whole response to one plain
  HTTP request for \<open>/netftapi2.xml\<close> on the configured host and port, sent without redirects
  and without a proxy and with the configured timeouts. The transfer succeeded, the status
  was 200 and the response has at most 65536 bytes.
\<close>

theorem discovery_success:
  assumes "fst (discover_sensor p curl fe options initialization) = Inr c"
    and "chunks_well_formed curl"
  shows "\<exists>connect_ms total_ms t.
           timeout_milliseconds p (opt_connect_timeout options) ''connect_timeout'' = Inr connect_ms \<and>
           timeout_milliseconds p (opt_total_timeout options) ''total_timeout'' = Inr total_ms \<and>
           t = curl_easy_perform curl (request_handle options connect_ms total_ms) \<and>
           transfer_result t = CURLE_OK \<and> getinfo_result t = (CURLE_OK, 200) \<and>
           length (concat (map chunk_data (transfer_chunks t))) \<le> 65536 \<and>
           parse_sensor_configuration fe (concat (map chunk_data (transfer_chunks t))) = Inr c"
proof -
  obtain url h where url: "discovery_url curl options = Inr url"
    and h: "discovery_handle p curl options url = Inr h"
    and fin: "finish_transfer curl fe (curl_easy_perform curl h)
        (receive_response (transfer_chunks (curl_easy_perform curl h)) ResponseBuffer_init) = Inr c"
    using assms(1)
    by (auto simp: discover_sensor_def bind_result_eq_Inr_iff Let_def
        split: sum.splits prod.splits if_splits)
  have "list_all chunk_ok (transfer_chunks (curl_easy_perform curl h))"
    using assms(2) by (simp add: chunks_well_formed_def)
  from finish_transfer_ok [OF fin this] discovery_handle_ok h discovery_url_ok [OF url]
  show ?thesis by (fastforce simp: kMaximumResponseBytes_def)
qed

text \<open>A libcurl that answers every request with a given document.\<close>

definition answering :: "string \<Rightarrow> Curl" where
  "answering doc =
     \<lparr>curl_global_init = CURLE_OK, curl_easy_init = True, curl_url = True,
      curl_url_set = (\<lambda>_ _ _. CURLE_OK), curl_easy_setopt = (\<lambda>_ _ _. CURLE_OK),
      curl_easy_perform =
        (\<lambda>_. \<lparr>transfer_result = CURLE_OK,
              transfer_chunks = [\<lparr>chunk_data = doc, chunk_size = 1,
                                  chunk_count = of_nat (length doc), append_throws = False\<rparr>],
              getinfo_result = (CURLE_OK, 200)\<rparr>),
      curl_easy_strerror = (\<lambda>_. [])\<rparr>"

lemma discover_answering:
  assumes "length doc \<le> 65536"
    "validate_options p options = Inr ()"
  shows "fst (discover_sensor p (answering doc) fe options None) = parse_sensor_configuration fe doc"
    and "chunks_well_formed (answering doc)"
proof -
  have ok: "chunk_ok \<lparr>chunk_data = doc, chunk_size = 1, chunk_count = of_nat (length doc),
              append_throws = False\<rparr>"
    using assms(1) by (simp add: chunk_ok_def unat_of_nat)
  then show "chunks_well_formed (answering doc)" by (simp add: chunks_well_formed_def answering_def)
  have "receive_response [\<lparr>chunk_data = doc, chunk_size = 1, chunk_count = of_nat (length doc),
      append_throws = False\<rparr>] ResponseBuffer_init = ResponseBuffer_init\<lparr>body := doc\<rparr>"
    using assms(1) append_response_cases [OF ok, of ResponseBuffer_init]
    by (simp add: ResponseBuffer_init_def kMaximumResponseBytes_def)
  then show "fst (discover_sensor p (answering doc) fe options None) = parse_sensor_configuration fe doc"
    using assms(2)
    by (auto simp: discover_sensor_def initialize_curl_once_def answering_def discovery_url_def
        set_url_part_def discovery_handle_def set_curl_option_def finish_transfer_def
        validate_options_def bind_result_eq_Inr_iff ResponseBuffer_init_def)
qed

lemma default_options_valid: "validate_options linux_x86_64 DiscoveryOptions_default = Inr ()"
proof -
  have "\<exists>ms. timeout_milliseconds linux_x86_64 (dbl x) name = Inr ms"
    if "1 / 500000000 \<le> x" "x \<le> 2 ^ 20" for x name
  proof -
    have "require_safe_timeout linux_x86_64 0 [] (dbl x) True = Inr ()"
      using ordinary_timeout_dbl [OF that]
      by (intro require_safe_timeout_accepts platform_ok_supported) (simp_all add: linux_x86_64_def)
    from http_timeout_converts [OF platform_ok_supported(1) this, of name] show ?thesis by blast
  qed
  from this [of "1 / 2" "''connect_timeout''"] this [of 1 "''total_timeout''"] show ?thesis
    by (auto simp: validate_options_def DiscoveryOptions_default_def is_ascii_blank_def)
qed

lemma discovery_success_witness:
  "\<exists>connect_ms total_ms t.
     timeout_milliseconds linux_x86_64 (dbl (1 / 2)) ''connect_timeout'' = Inr connect_ms \<and>
     timeout_milliseconds linux_x86_64 (dbl 1) ''total_timeout'' = Inr total_ms \<and>
     t = curl_easy_perform (answering (document ''netft'' (sensor_children ''Gamma'' 5 7 Newton NewtonMeter)))
           (request_handle DiscoveryOptions_default connect_ms total_ms) \<and>
     transfer_result t = CURLE_OK \<and> getinfo_result t = (CURLE_OK, 200)"
proof -
  let ?doc = "document ''netft'' (sensor_children ''Gamma'' 5 7 Newton NewtonMeter)"
  let ?fe = "\<lparr>hold_succeeds = True, current_direction = Some ToNearest, select_succeeds = True,
              restore_succeeds = True\<rparr>"
  have len: "length ?doc \<le> 65536"
    by (simp add: document_def children_text_def child_text_def element_text_def
        sensor_children_def to_string_nat.simps)
  have "float_environment_works ?fe" by (simp add: float_environment_works_def)
  moreover have "plain_name ''netft''" by (simp add: plain_name_def is_ascii_whitespace_def)
  moreover have "''netft'' \<notin> set kRequiredTags" by (simp add: kRequiredTags_def)
  moreover have "plain_text ''Gamma''" by (simp add: plain_text_def)
  moreover have "trim_ascii_whitespace ''Gamma'' = ''Gamma''"
    by (simp add: trim_id is_ascii_whitespace_def)
  ultimately obtain c where c: "parse_sensor_configuration ?fe ?doc = Inr c"
    using parse_sensor_children [of ?fe "''netft''" "''Gamma''" 5 7 Newton NewtonMeter] by auto
  from discovery_success [of linux_x86_64 "answering ?doc" ?fe DiscoveryOptions_default None c]
    discover_answering [OF len default_options_valid] c
  show ?thesis by (auto simp: DiscoveryOptions_default_def)
qed

text \<open>
  C37. Every failure of discovery is reported as a discovery error, on platforms whose
  \<open>long double\<close> holds the largest \<open>long\<close> exactly: no conversion is undefined and no other
  exception escapes.
\<close>

theorem discovery_failure:
  assumes "platform_ok p" "long_exact p" "restore_succeeds fe"
    and "fst (discover_sensor p curl fe options initialization) = Inl e"
  shows "is_discovery_error e"
proof -
  have ms: "is_discovery_error e'" if "timeout_milliseconds p v name = Inl e'" for v name e'
    using timeout_milliseconds_outcome [OF assms(1,2), of v name] that by simp
  have parse: "is_discovery_error e'" if "parse_sensor_configuration fe xml = Inl e'" for xml e'
    using parse_error [OF assms(3) that] .
  have "validate_options p options = Inl e \<or> discovery_url curl options = Inl e \<or>
      (\<exists>url. discovery_handle p curl options url = Inl e) \<or>
      (\<exists>t r. finish_transfer curl fe t r = Inl e) \<or> is_discovery_error e"
    using assms(4)
    by (auto simp: discover_sensor_def bind_result_eq_Inl_iff Let_def
        split: sum.splits prod.splits if_splits)
  then show ?thesis
  proof (elim disjE exE)
    assume "validate_options p options = Inl e"
    then show ?thesis using ms by (auto simp: validate_options_def bind_result_eq_Inl_iff)
  next
    assume "discovery_url curl options = Inl e"
    then show ?thesis by (auto simp: discovery_url_def bind_result_eq_Inl_iff dest: request_errors)
  next
    fix url assume "discovery_handle p curl options url = Inl e"
    then show ?thesis using ms
      by (auto simp: discovery_handle_def bind_result_eq_Inl_iff dest: request_errors)
  next
    fix t r assume "finish_transfer curl fe t r = Inl e"
    then show ?thesis using parse by (auto simp: finish_transfer_def split: if_splits)
  qed
qed

lemma discovery_failure_witness:
  "is_discovery_error (DiscoveryError ''sensor_host must not be blank'') \<and>
   fst (discover_sensor linux_x86_64 (answering []) 
     \<lparr>hold_succeeds = True, current_direction = None, select_succeeds = True, restore_succeeds = True\<rparr>
     (DiscoveryOptions_default\<lparr>opt_sensor_host := '' ''\<rparr>) None)
   = Inl (DiscoveryError ''sensor_host must not be blank'')"
proof -
  let ?fe = "\<lparr>hold_succeeds = True, current_direction = None, select_succeeds = True,
              restore_succeeds = True\<rparr>"
  have e: "fst (discover_sensor linux_x86_64 (answering []) ?fe
      (DiscoveryOptions_default\<lparr>opt_sensor_host := '' ''\<rparr>) None)
      = Inl (DiscoveryError ''sensor_host must not be blank'')"
    by (simp add: discover_sensor_def validate_options_def is_ascii_blank_def)
  have "long_exact linux_x86_64" by (simp add: long_exact_def linux_x86_64_def x87_extended_def)
  then show ?thesis using discovery_failure [OF _ _ _ e] e by simp
qed

end
