(* ===== verification/Udp_Transport.thy ===== *)
theory Udp_Transport
  imports Time Protocol
begin

text \<open>
  Model of the UDP transport: \<open>src/src/detail/udp_transport.hpp\<close> with its POSIX and its
  WinSock implementation. Each operating-system call is a field of a record of functions.
  The transport's state is the stored socket and the shutdown flag; \<open>open_sockets\<close> is the list
  of descriptors the object has open, kept to state that none leaks, and \<open>shutdown_calls\<close> the
  sockets \<open>::shutdown\<close> was called on. A receive holds the
  mutex only for short sections: \<open>later i\<close> is the shutdown flag as its \<open>i\<close>-th later section
  reads it, set by another thread or not. A wait that may repeat has a bound on its rounds,
  and \<open>None\<close> when it is exceeded.
\<close>

section \<open>Shared parts\<close>

record UdpTransport =
  socket :: u64
  shutdown_requested :: bool
  open_sockets :: "u64 list"
  shutdown_calls :: "u64 list"

definition kInvalidSocket :: u64 where
  "kInvalidSocket = - 1"

definition UdpTransport_init :: UdpTransport where
  "UdpTransport_init = \<lparr>socket = kInvalidSocket, shutdown_requested = False, open_sockets = [],
      shutdown_calls = []\<rparr>"

text \<open>Addresses are opaque.\<close>

type_synonym Address = nat

definition int_max :: int where
  "int_max = 2 ^ 31 - 1"

definition poll_timeout_milliseconds :: "platform \<Rightarrow> fp \<Rightarrow> (exn, int) result" where
  "poll_timeout_milliseconds p timeout =
     (let milliseconds = fp_ceil (fp_mul binary64 (rounding_direction p) timeout (Finite 1000))
      in if fp_le (fp_of_int binary64 ToNearest int_max) milliseconds then Inr int_max
         else case fp_to_int (- int_max - 1) int_max milliseconds of
                None \<Rightarrow> Inl UndefinedBehaviour
              | Some n \<Rightarrow> Inr n)"

text \<open>Conversion of a number of clock ticks to \<open>std::chrono::duration<double>\<close>.\<close>

definition seconds_of_ticks :: "platform \<Rightarrow> int \<Rightarrow> fp" where
  "seconds_of_ticks p n =
     fp_div binary64 (rounding_direction p)
       (fp_mul binary64 (rounding_direction p)
          (fp_of_int binary64 (rounding_direction p) n)
          (fp_of_int binary64 ToNearest (period_num p)))
       (fp_of_int binary64 ToNearest (period_den p))"

section \<open>POSIX\<close>

record PosixOs =
  getaddrinfo :: "string \<Rightarrow> string \<Rightarrow> int \<times> Address list"
  gai_strerror :: "int \<Rightarrow> string"
  strerror :: "int \<Rightarrow> string"
  os_socket :: "u64 list \<Rightarrow> Address \<Rightarrow> 32 word \<times> int"
  os_connect :: "32 word \<Rightarrow> Address \<Rightarrow> int \<times> int"
  os_send :: "32 word \<Rightarrow> u8 list \<Rightarrow> int \<times> int"
  os_poll :: "nat \<Rightarrow> 32 word \<Rightarrow> int \<Rightarrow> int \<times> int \<times> bool"
  os_recv :: "32 word \<Rightarrow> nat \<Rightarrow> (int, u8 list) result"
  steady_now :: "nat \<Rightarrow> int"

definition EINTR :: int where
  "EINTR = 4"

definition socket_error :: "PosixOs \<Rightarrow> string \<Rightarrow> int \<Rightarrow> exn" where
  "socket_error os operation errno = RuntimeError (operation @ '': '' @ strerror os errno)"

definition posix_fd :: "u64 \<Rightarrow> 32 word" where
  "posix_fd s = ucast s"

text \<open>
  The loop over the resolved addresses, with the descriptor of the last attempt, the last
  error and the open descriptors. A descriptor that does not connect is closed at once.
\<close>

fun posix_connect_loop ::
    "PosixOs \<Rightarrow> Address list \<Rightarrow> 32 word \<Rightarrow> int \<Rightarrow> u64 list \<Rightarrow> 32 word \<times> int \<times> u64 list" where
  "posix_connect_loop os [] connected_socket last_error fds = (connected_socket, last_error, fds)"
| "posix_connect_loop os (a # as) connected_socket last_error fds =
     (case os_socket os fds a of (fd, errno) \<Rightarrow>
        if sint fd < 0 then posix_connect_loop os as fd errno fds
        else case os_connect os fd a of (r, errno') \<Rightarrow>
          if r = 0 then (fd, last_error, scast fd # fds)
          else posix_connect_loop os as (- 1) errno' (remove1 (scast fd) (scast fd # fds)))"

definition posix_connect ::
    "PosixOs \<Rightarrow> string \<Rightarrow> int \<Rightarrow> UdpTransport \<Rightarrow> (exn, unit) result \<times> UdpTransport" where
  "posix_connect os host port t =
     (case getaddrinfo os (c_str host) (to_string_int port) of (r, addresses) \<Rightarrow>
        if r \<noteq> 0 then
          (Inl (RuntimeError (''failed to resolve sensor: '' @ gai_strerror os r)), t)
        else case posix_connect_loop os addresses (- 1) 0 (open_sockets t) of
          (fd, last_error, fds) \<Rightarrow>
            if sint fd < 0 then
              (Inl (socket_error os ''failed to connect UDP socket'' last_error),
               t\<lparr>open_sockets := fds\<rparr>)
            else
              (Inr (),
               t\<lparr>socket := scast fd, shutdown_requested := False,
                 open_sockets := (if socket t \<noteq> kInvalidSocket then remove1 (socket t) fds else fds)\<rparr>))"

definition posix_send :: "PosixOs \<Rightarrow> u8 list \<Rightarrow> UdpTransport \<Rightarrow> (exn, unit) result" where
  "posix_send os request t =
     (if socket t = kInvalidSocket then Inl (RuntimeError ''UDP socket is not connected'')
      else case os_send os (posix_fd (socket t)) request of (sent, errno) \<Rightarrow>
        if sent < 0 then Inl (socket_error os ''failed to send UDP request'' errno)
        else if nat sent \<noteq> length request then Inl (RuntimeError ''short UDP request write'')
        else Inr ())"

text \<open>
  The wait: \<open>Some (Inr None)\<close> is a timeout, \<open>Some (Inr (Some (r, nval)))\<close> the result of
  \<open>poll\<close> and whether \<open>POLLNVAL\<close> is set. \<open>i\<close> numbers the calls of \<open>poll\<close>.
\<close>

fun posix_wait ::
    "nat \<Rightarrow> platform \<Rightarrow> PosixOs \<Rightarrow> 32 word \<Rightarrow> int \<Rightarrow> fp \<Rightarrow> nat \<Rightarrow>
     (exn, (int \<times> bool) option) result option" where
  "posix_wait 0 p os fd deadline remaining i = None"
| "posix_wait (Suc fuel) p os fd deadline remaining i =
     (case poll_timeout_milliseconds p remaining of
        Inl e \<Rightarrow> Some (Inl e)
      | Inr ms \<Rightarrow>
          (case os_poll os i fd ms of (r, errno, nval) \<Rightarrow>
             if 0 \<le> r then Some (Inr (Some (r, nval)))
             else if errno \<noteq> EINTR then
               Some (Inl (socket_error os ''failed to wait for UDP record'' errno))
             else let now = steady_now os (Suc i)
                  in if deadline \<le> now then Some (Inr None)
                     else posix_wait fuel p os fd deadline (seconds_of_ticks p (deadline - now)) (Suc i)))"

definition posix_receive ::
    "nat \<Rightarrow> platform \<Rightarrow> PosixOs \<Rightarrow> (nat \<Rightarrow> bool) \<Rightarrow> nat \<Rightarrow> fp \<Rightarrow> UdpTransport \<Rightarrow>
     (exn, u8 list) result option" where
  "posix_receive fuel p os later capacity timeout t =
     (if socket t = kInvalidSocket then Some (Inl (RuntimeError ''UDP socket is not connected''))
      else if shutdown_requested t then Some (Inr [])
      else
        let fd = posix_fd (socket t)
        in case checked_deadline p (steady_now os 0) timeout of
             Inl e \<Rightarrow> Some (Inl e)
           | Inr deadline \<Rightarrow>
               (case posix_wait fuel p os fd deadline timeout 0 of
                  None \<Rightarrow> None
                | Some (Inl e) \<Rightarrow> Some (Inl e)
                | Some (Inr None) \<Rightarrow> Some (Inr [])
                | Some (Inr (Some (r, nval))) \<Rightarrow>
                    if r = 0 then Some (Inr [])
                    else if later 0 then Some (Inr [])
                    else if nval then Some (Inl (RuntimeError ''UDP socket became invalid''))
                    else (case os_recv os fd capacity of
                            Inl errno \<Rightarrow>
                              if errno = EINTR then Some (Inr [])
                              else Some (Inl (socket_error os ''failed to receive UDP record'' errno))
                          | Inr data \<Rightarrow> Some (Inr data))))"

definition posix_shutdown :: "UdpTransport \<Rightarrow> UdpTransport" where
  "posix_shutdown t =
     (let t' = t\<lparr>shutdown_requested := True\<rparr>
      in if socket t' \<noteq> kInvalidSocket then t'\<lparr>shutdown_calls := socket t' # shutdown_calls t'\<rparr>
         else t')"

definition posix_close :: "UdpTransport \<Rightarrow> UdpTransport" where
  "posix_close t =
     (let t' = t\<lparr>shutdown_requested := True\<rparr>
      in if socket t' \<noteq> kInvalidSocket
         then t'\<lparr>open_sockets := remove1 (socket t') (open_sockets t'), socket := kInvalidSocket\<rparr>
         else t')"

section \<open>WinSock\<close>

record WinOs =
  win_getaddrinfo :: "string \<Rightarrow> string \<Rightarrow> int \<times> Address list"
  win_socket :: "u64 list \<Rightarrow> Address \<Rightarrow> u64 \<times> int"
  win_connect :: "u64 \<Rightarrow> Address \<Rightarrow> int \<times> int"
  win_send :: "u64 \<Rightarrow> u8 list \<Rightarrow> int \<times> int"
  win_poll :: "nat \<Rightarrow> u64 \<Rightarrow> int \<Rightarrow> (int, nat \<times> u16) result"
  win_getsockopt_error :: "u64 \<Rightarrow> (int, int) result"
  win_recv :: "u64 \<Rightarrow> nat \<Rightarrow> (int, u8 list) result"
  win_now :: "nat \<Rightarrow> int"

definition INVALID_SOCKET :: u64 where
  "INVALID_SOCKET = - 1"

definition SOCKET_ERROR :: int where
  "SOCKET_ERROR = - 1"

definition WSAEINTR :: int where
  "WSAEINTR = 10004"

definition WSAENOTSOCK :: int where
  "WSAENOTSOCK = 10038"

definition WSAECONNRESET :: int where
  "WSAECONNRESET = 10054"

definition WSAESHUTDOWN :: int where
  "WSAESHUTDOWN = 10058"

definition WSAEHOSTUNREACH :: int where
  "WSAEHOSTUNREACH = 10065"

definition POLLERR :: u16 where
  "POLLERR = 1"

definition POLLHUP :: u16 where
  "POLLHUP = 2"

definition POLLNVAL :: u16 where
  "POLLNVAL = 4"

definition winsock_error :: "string \<Rightarrow> int \<Rightarrow> exn" where
  "winsock_error operation err =
     RuntimeError (operation @ '' (WinSock error '' @ to_string_int err @ '')'')"

text \<open>\<open>err\<close> is what \<open>WSAGetLastError\<close> returns after the failed call.\<close>

definition last_winsock_error :: "string \<Rightarrow> int \<Rightarrow> exn" where
  "last_winsock_error operation err = winsock_error operation err"

definition windows_timeout_milliseconds :: "platform \<Rightarrow> fp \<Rightarrow> (exn, int) result" where
  "windows_timeout_milliseconds p timeout =
     (let milliseconds = fp_ceil (fp_mul binary64 (rounding_direction p) timeout (Finite 1000))
      in if fp_le (fp_of_int binary64 ToNearest int_max) milliseconds then Inr int_max
         else case fp_to_int (- int_max - 1) int_max milliseconds of
                None \<Rightarrow> Inl UndefinedBehaviour
              | Some n \<Rightarrow> Inr n)"

definition socket_wait_error :: "WinOs \<Rightarrow> u64 \<Rightarrow> u16 \<Rightarrow> int" where
  "socket_wait_error os s events =
     (if and events POLLNVAL \<noteq> 0 then WSAENOTSOCK
      else if and events POLLERR \<noteq> 0 then
        (case win_getsockopt_error os s of
           Inr err \<Rightarrow> if err \<noteq> 0 then err else WSAECONNRESET
         | Inl _ \<Rightarrow> WSAECONNRESET)
      else WSAECONNRESET)"

fun win_connect_loop ::
    "WinOs \<Rightarrow> Address list \<Rightarrow> u64 \<Rightarrow> int \<Rightarrow> u64 list \<Rightarrow> u64 \<times> int \<times> u64 list" where
  "win_connect_loop os [] connected_socket last_error fds = (connected_socket, last_error, fds)"
| "win_connect_loop os (a # as) connected_socket last_error fds =
     (case win_socket os fds a of (s, err) \<Rightarrow>
        if s = INVALID_SOCKET then win_connect_loop os as s err fds
        else case win_connect os s a of (r, err') \<Rightarrow>
          if r = 0 then (s, last_error, s # fds)
          else win_connect_loop os as INVALID_SOCKET err' (remove1 s (s # fds)))"

definition windows_connect ::
    "WinOs \<Rightarrow> string \<Rightarrow> int \<Rightarrow> UdpTransport \<Rightarrow> (exn, unit) result \<times> UdpTransport" where
  "windows_connect os host port t =
     (case win_getaddrinfo os (c_str host) (to_string_int port) of (r, addresses) \<Rightarrow>
        if r \<noteq> 0 then (Inl (winsock_error ''failed to resolve sensor'' r), t)
        else case win_connect_loop os addresses INVALID_SOCKET WSAEHOSTUNREACH (open_sockets t) of
          (s, last_error, fds) \<Rightarrow>
            if s = INVALID_SOCKET then
              (Inl (winsock_error ''failed to connect UDP socket'' last_error),
               t\<lparr>open_sockets := fds\<rparr>)
            else
              (Inr (),
               t\<lparr>socket := s, shutdown_requested := False,
                 open_sockets := (if socket t \<noteq> kInvalidSocket then remove1 (socket t) fds else fds)\<rparr>))"

definition windows_send :: "WinOs \<Rightarrow> u8 list \<Rightarrow> UdpTransport \<Rightarrow> (exn, unit) result" where
  "windows_send os request t =
     (if socket t = kInvalidSocket then Inl (RuntimeError ''UDP socket is not connected'')
      else case win_send os (socket t) request of (sent, err) \<Rightarrow>
        if sent = SOCKET_ERROR then Inl (last_winsock_error ''failed to send UDP request'' err)
        else if (of_int sent :: u64) \<noteq> of_nat (length request) then
          Inl (RuntimeError ''short UDP request write'')
        else Inr ())"

definition kShutdownCheckIntervalMilliseconds :: int where
  "kShutdownCheckIntervalMilliseconds = 50"

definition kShutdownCheckInterval :: fp where
  "kShutdownCheckInterval =
     fp_div binary64 ToNearest (fp_of_int binary64 ToNearest kShutdownCheckIntervalMilliseconds)
       (Finite 1000)"

text \<open>\<open>std::min\<close> on durations: the first argument unless the second is smaller.\<close>

definition fp_min :: "fp \<Rightarrow> fp \<Rightarrow> fp" where
  "fp_min a b = (if fp_less b a then b else a)"

definition windows_poll_timeout :: "platform \<Rightarrow> int \<Rightarrow> (exn, int) result" where
  "windows_poll_timeout p remaining =
     bind_result
       (windows_timeout_milliseconds p
          (if 0 < remaining then fp_min (seconds_of_ticks p remaining) kShutdownCheckInterval
           else Finite 0))
       (\<lambda>ms. Inr (min kShutdownCheckIntervalMilliseconds ms))"

text \<open>
  The wait in slices of at most 50 ms. Round \<open>i\<close> reads the shutdown flag as \<open>later i\<close> and the
  clock at \<open>2 * i + 1\<close> and \<open>2 * i + 2\<close>. The result carries the number of rounds made and
  the events of a poll that reported any.
\<close>

fun windows_wait ::
    "nat \<Rightarrow> platform \<Rightarrow> WinOs \<Rightarrow> (nat \<Rightarrow> bool) \<Rightarrow> u64 \<Rightarrow> int \<Rightarrow> nat \<Rightarrow>
     (exn, (nat \<times> u16) option) result option" where
  "windows_wait 0 p os later s deadline i = None"
| "windows_wait (Suc fuel) p os later s deadline i =
     (if later i then Some (Inr None)
      else case windows_poll_timeout p (deadline - win_now os (2 * i + 1)) of
        Inl e \<Rightarrow> Some (Inl e)
      | Inr ms \<Rightarrow>
          (case win_poll os i s ms of
             Inl err \<Rightarrow>
               if err = WSAEINTR then Some (Inr None)
               else Some (Inl (winsock_error ''failed to wait for UDP record'' err))
           | Inr (n, events) \<Rightarrow>
               if 0 < n then Some (Inr (Some (Suc i, events)))
               else if deadline \<le> win_now os (2 * i + 2) then Some (Inr None)
               else windows_wait fuel p os later s deadline (Suc i)))"

definition windows_receive ::
    "nat \<Rightarrow> platform \<Rightarrow> WinOs \<Rightarrow> (nat \<Rightarrow> bool) \<Rightarrow> nat \<Rightarrow> fp \<Rightarrow> UdpTransport \<Rightarrow>
     (exn, u8 list) result option" where
  "windows_receive fuel p os later capacity timeout t =
     (if socket t = kInvalidSocket then Some (Inl (RuntimeError ''UDP socket is not connected''))
      else if shutdown_requested t then Some (Inr [])
      else
        case bind_result (checked_duration p timeout) (\<lambda>_. checked_deadline p (win_now os 0) timeout) of
          Inl e \<Rightarrow> Some (Inl e)
        | Inr deadline \<Rightarrow>
            (case windows_wait fuel p os later (socket t) deadline 0 of
               None \<Rightarrow> None
             | Some (Inl e) \<Rightarrow> Some (Inl e)
             | Some (Inr None) \<Rightarrow> Some (Inr [])
             | Some (Inr (Some (i, events))) \<Rightarrow>
                 if later i then Some (Inr [])
                 else if and events (or (or POLLERR POLLHUP) POLLNVAL) \<noteq> 0 then
                   Some (Inl (winsock_error ''failed to wait for UDP record''
                                (socket_wait_error os (socket t) events)))
                 else (case win_recv os (socket t) (min capacity (nat int_max)) of
                         Inr data \<Rightarrow> Some (Inr data)
                       | Inl err \<Rightarrow>
                           if later (Suc i) then Some (Inr [])
                           else if err = WSAEINTR \<or> err = WSAESHUTDOWN then Some (Inr [])
                           else Some (Inl (winsock_error ''failed to receive UDP record'' err)))))"

definition windows_shutdown :: "UdpTransport \<Rightarrow> UdpTransport" where
  "windows_shutdown t =
     (let t' = t\<lparr>shutdown_requested := True\<rparr>
      in if socket t' \<noteq> kInvalidSocket then t'\<lparr>shutdown_calls := socket t' # shutdown_calls t'\<rparr>
         else t')"

definition windows_close :: "UdpTransport \<Rightarrow> UdpTransport" where
  "windows_close t =
     (let t' = t\<lparr>shutdown_requested := True\<rparr>
      in if socket t' \<noteq> kInvalidSocket
         then t'\<lparr>open_sockets := remove1 (socket t') (open_sockets t'), socket := kInvalidSocket\<rparr>
         else t')"

section \<open>The contract of a transport\<close>

text \<open>
  What the client relies on, whichever backend is compiled in: when a transport is
  connected and when it is shut, what the operations do to the two, and that they keep
  the account of open descriptors (\<open>tidy\<close>) provided the system hands out descriptors that
  are not in use (\<open>fresh\<close>).
\<close>

datatype 'c transport_op = Connect 'c | Shutdown | Close

fun transport_step ::
    "('c \<Rightarrow> 's \<Rightarrow> (exn, unit) result \<times> 's) \<Rightarrow> ('s \<Rightarrow> 's) \<Rightarrow> ('s \<Rightarrow> 's) \<Rightarrow> 'c transport_op \<Rightarrow> 's \<Rightarrow> 's" where
  "transport_step connect_op shutdown_op close_op (Connect c) t = snd (connect_op c t)"
| "transport_step connect_op shutdown_op close_op Shutdown t = shutdown_op t"
| "transport_step connect_op shutdown_op close_op Close t = close_op t"

definition no_connect :: "'c transport_op list \<Rightarrow> bool" where
  "no_connect ops \<longleftrightarrow> list_all (\<lambda>op. case op of Connect _ \<Rightarrow> False | _ \<Rightarrow> True) ops"

definition fresh_connects :: "('c \<Rightarrow> bool) \<Rightarrow> 'c transport_op list \<Rightarrow> bool" where
  "fresh_connects fresh ops \<longleftrightarrow> list_all (\<lambda>op. case op of Connect c \<Rightarrow> fresh c | _ \<Rightarrow> True) ops"

locale transport =
  fixes connected :: "'s \<Rightarrow> bool" and shut :: "'s \<Rightarrow> bool" and tidy :: "'s \<Rightarrow> bool"
    and fresh :: "'c \<Rightarrow> bool"
    and connect_op :: "'c \<Rightarrow> 's \<Rightarrow> (exn, unit) result \<times> 's"
    and send_op :: "'d \<Rightarrow> 's \<Rightarrow> (exn, unit) result"
    and receive_op :: "'r \<Rightarrow> 's \<Rightarrow> (exn, u8 list) result option"
    and shutdown_op :: "'s \<Rightarrow> 's" and close_op :: "'s \<Rightarrow> 's"
  assumes connect_ok: "fst (connect_op c t) = Inr u \<Longrightarrow>
      connected (snd (connect_op c t)) \<and> \<not> shut (snd (connect_op c t))"
    and connect_failed: "fst (connect_op c t) = Inl e \<Longrightarrow>
      connected (snd (connect_op c t)) = connected t \<and> shut (snd (connect_op c t)) = shut t"
    and connect_tidy: "fresh c \<Longrightarrow> tidy t \<Longrightarrow> tidy (snd (connect_op c t))"
    and send_unconnected: "\<not> connected t \<Longrightarrow>
      send_op d t = Inl (RuntimeError ''UDP socket is not connected'')"
    and receive_unconnected: "\<not> connected t \<Longrightarrow>
      receive_op r t = Some (Inl (RuntimeError ''UDP socket is not connected''))"
    and receive_shut: "connected t \<Longrightarrow> shut t \<Longrightarrow> receive_op r t = Some (Inr [])"
    and shutdown_effect: "connected (shutdown_op t) = connected t" "shut (shutdown_op t)"
      "tidy t \<Longrightarrow> tidy (shutdown_op t)"
    and close_effect: "\<not> connected (close_op t)" "shut (close_op t)" "tidy t \<Longrightarrow> tidy (close_op t)"
begin

lemma stopped_receive:
  "shut t \<Longrightarrow> receive_op r t = (if connected t then Some (Inr [])
     else Some (Inl (RuntimeError ''UDP socket is not connected'')))"
  by (simp add: receive_unconnected receive_shut)

lemma shut_stays:
  "shut t \<Longrightarrow> no_connect ops \<Longrightarrow> shut (fold (transport_step connect_op shutdown_op close_op) ops t)"
proof (induction ops arbitrary: t)
  case (Cons op ops)
  then have "shut (transport_step connect_op shutdown_op close_op op t)"
    by (cases op) (auto simp: shutdown_effect close_effect no_connect_def)
  with Cons show ?case by (simp add: no_connect_def)
qed simp

lemma stopped_until_connect:
  assumes "op \<in> {Shutdown, Close}" "no_connect ops"
  shows "receive_op r (fold (transport_step connect_op shutdown_op close_op) (op # ops) t) \<in>
           {Some (Inr []), Some (Inl (RuntimeError ''UDP socket is not connected''))}"
proof -
  have "shut (fold (transport_step connect_op shutdown_op close_op) (op # ops) t)"
    unfolding fold_simps using assms by (intro shut_stays) (auto simp: shutdown_effect close_effect)
  then show ?thesis using stopped_receive by auto
qed

lemma tidy_run:
  "tidy t \<Longrightarrow> fresh_connects fresh ops \<Longrightarrow> tidy (fold (transport_step connect_op shutdown_op close_op) ops t)"
proof (induction ops arbitrary: t)
  case (Cons op ops)
  then have "tidy (transport_step connect_op shutdown_op close_op op t)"
    by (cases op) (auto intro: connect_tidy shutdown_effect close_effect simp: fresh_connects_def)
  with Cons show ?case by (simp add: fresh_connects_def)
qed simp

lemma close_after_run:
  "tidy t \<Longrightarrow> fresh_connects fresh ops \<Longrightarrow>
     tidy (close_op (fold (transport_step connect_op shutdown_op close_op) ops t)) \<and>
     \<not> connected (close_op (fold (transport_step connect_op shutdown_op close_op) ops t))"
  using tidy_run close_effect by blast

end

definition holds_socket :: "UdpTransport \<Rightarrow> bool" where
  "holds_socket t \<longleftrightarrow> socket t \<noteq> kInvalidSocket"

text \<open>The only open descriptor is the one the transport holds.\<close>

definition no_leak :: "UdpTransport \<Rightarrow> bool" where
  "no_leak t \<longleftrightarrow> open_sockets t = (if socket t = kInvalidSocket then [] else [socket t])"

lemma no_leak_init: "no_leak UdpTransport_init"
  by (simp add: no_leak_def UdpTransport_init_def)

definition posix_fresh :: "PosixOs \<Rightarrow> bool" where
  "posix_fresh os \<longleftrightarrow>
     (\<forall>fds a. 0 \<le> sint (fst (os_socket os fds a)) \<longrightarrow> scast (fst (os_socket os fds a)) \<notin> set fds)"

lemma scast_descriptor:
  fixes fd :: "32 word"
  assumes "0 \<le> sint fd"
  shows "(scast fd :: u64) \<noteq> - 1"
proof
  assume "(scast fd :: u64) = - 1"
  then have "sint (scast fd :: u64) = - 1" by simp
  moreover have "sint (scast fd :: u64) = sint fd"
    by (rule sint_up_scast) (simp add: is_up)
  ultimately show False using assms by simp
qed

lemma posix_connect_loop_result:
  assumes "posix_fresh os" "posix_connect_loop os as cs le fds = (fd, le', fds')" "sint cs < 0"
  shows "(sint fd < 0 \<and> fds' = fds) \<or>
         (0 \<le> sint fd \<and> fds' = scast fd # fds \<and> scast fd \<notin> set fds)"
  using assms(2,3)
proof (induction as arbitrary: cs le)
  case Nil
  then show ?case by simp
next
  case (Cons a as)
  obtain s errno where s: "os_socket os fds a = (s, errno)" by (cases "os_socket os fds a")
  obtain r errno' where r: "os_connect os s a = (r, errno')" by (cases "os_connect os s a")
  have "scast s \<notin> set fds" if "0 \<le> sint s"
    using assms(1) s that unfolding posix_fresh_def by (metis fst_conv)
  moreover have "sint (- 1 :: 32 word) < 0" by simp
  ultimately show ?case
    using Cons s r by (auto split: if_splits simp: not_less)
qed

text \<open>The POSIX operations with the parameters of a call in one tuple.\<close>

type_synonym posix_call = "PosixOs \<times> string \<times> int"

definition posix_connect_call :: "posix_call \<Rightarrow> UdpTransport \<Rightarrow> (exn, unit) result \<times> UdpTransport" where
  "posix_connect_call = (\<lambda>(os, host, port). posix_connect os host port)"

definition posix_send_call :: "PosixOs \<times> u8 list \<Rightarrow> UdpTransport \<Rightarrow> (exn, unit) result" where
  "posix_send_call = (\<lambda>(os, request). posix_send os request)"

definition posix_receive_call ::
    "nat \<times> platform \<times> PosixOs \<times> (nat \<Rightarrow> bool) \<times> nat \<times> fp \<Rightarrow> UdpTransport \<Rightarrow>
     (exn, u8 list) result option" where
  "posix_receive_call = (\<lambda>(fuel, p, os, later, capacity, timeout).
     posix_receive fuel p os later capacity timeout)"

lemma posix_connect_no_leak:
  assumes "posix_fresh os" "no_leak t"
  shows "no_leak (snd (posix_connect os host port t))"
proof -
  obtain r as where r: "getaddrinfo os (c_str host) (to_string_int port) = (r, as)"
    by (cases "getaddrinfo os (c_str host) (to_string_int port)")
  obtain fd le fds where l: "posix_connect_loop os as (- 1) 0 (open_sockets t) = (fd, le, fds)"
    by (cases "posix_connect_loop os as (- 1) 0 (open_sockets t)")
  have "(sint fd < 0 \<and> fds = open_sockets t) \<or>
      (0 \<le> sint fd \<and> fds = scast fd # open_sockets t \<and> scast fd \<notin> set (open_sockets t))"
    using posix_connect_loop_result [OF assms(1) l] by simp
  with assms(2) r l scast_descriptor [of fd] show ?thesis
    by (auto simp: posix_connect_def no_leak_def kInvalidSocket_def)
qed

interpretation posix: transport holds_socket shutdown_requested no_leak
  "\<lambda>(os, _). posix_fresh os" posix_connect_call posix_send_call posix_receive_call
  posix_shutdown posix_close
proof
  fix c :: posix_call and t u e
  show "fst (posix_connect_call c t) = Inr u \<Longrightarrow>
      holds_socket (snd (posix_connect_call c t)) \<and> \<not> shutdown_requested (snd (posix_connect_call c t))"
    using scast_descriptor
    by (auto simp: posix_connect_call_def posix_connect_def holds_socket_def kInvalidSocket_def
        not_less split: prod.splits if_splits)
  show "fst (posix_connect_call c t) = Inl e \<Longrightarrow>
      holds_socket (snd (posix_connect_call c t)) = holds_socket t \<and>
      shutdown_requested (snd (posix_connect_call c t)) = shutdown_requested t"
    by (auto simp: posix_connect_call_def posix_connect_def holds_socket_def
        split: prod.splits if_splits)
  show "(case c of (os, _) \<Rightarrow> posix_fresh os) \<Longrightarrow> no_leak t \<Longrightarrow> no_leak (snd (posix_connect_call c t))"
    using posix_connect_no_leak by (auto simp: posix_connect_call_def split: prod.splits)
qed (auto simp: posix_send_call_def posix_receive_call_def posix_send_def posix_receive_def
    posix_shutdown_def posix_close_def holds_socket_def no_leak_def Let_def)

definition windows_fresh :: "WinOs \<Rightarrow> bool" where
  "windows_fresh os \<longleftrightarrow>
     (\<forall>fds a. fst (win_socket os fds a) \<noteq> INVALID_SOCKET \<longrightarrow> fst (win_socket os fds a) \<notin> set fds)"

lemma win_connect_loop_result:
  assumes "windows_fresh os" "win_connect_loop os as cs le fds = (s, le', fds')" "cs = INVALID_SOCKET"
  shows "(s = INVALID_SOCKET \<and> fds' = fds) \<or>
         (s \<noteq> INVALID_SOCKET \<and> fds' = s # fds \<and> s \<notin> set fds)"
  using assms(2,3)
proof (induction as arbitrary: cs le)
  case Nil
  then show ?case by simp
next
  case (Cons a as)
  obtain s' err where s: "win_socket os fds a = (s', err)" by (cases "win_socket os fds a")
  obtain r err' where r: "win_connect os s' a = (r, err')" by (cases "win_connect os s' a")
  have "s' \<notin> set fds" if "s' \<noteq> INVALID_SOCKET"
    using assms(1) s that unfolding windows_fresh_def by (metis fst_conv)
  then show ?case
    using Cons s r by (auto split: if_splits)
qed

type_synonym windows_call = "WinOs \<times> string \<times> int"

definition windows_connect_call ::
    "windows_call \<Rightarrow> UdpTransport \<Rightarrow> (exn, unit) result \<times> UdpTransport" where
  "windows_connect_call = (\<lambda>(os, host, port). windows_connect os host port)"

definition windows_send_call :: "WinOs \<times> u8 list \<Rightarrow> UdpTransport \<Rightarrow> (exn, unit) result" where
  "windows_send_call = (\<lambda>(os, request). windows_send os request)"

definition windows_receive_call ::
    "nat \<times> platform \<times> WinOs \<times> (nat \<Rightarrow> bool) \<times> nat \<times> fp \<Rightarrow> UdpTransport \<Rightarrow>
     (exn, u8 list) result option" where
  "windows_receive_call = (\<lambda>(fuel, p, os, later, capacity, timeout).
     windows_receive fuel p os later capacity timeout)"

lemma windows_connect_no_leak:
  assumes "windows_fresh os" "no_leak t"
  shows "no_leak (snd (windows_connect os host port t))"
proof -
  obtain r as where r: "win_getaddrinfo os (c_str host) (to_string_int port) = (r, as)"
    by (cases "win_getaddrinfo os (c_str host) (to_string_int port)")
  obtain s le fds where l: "win_connect_loop os as INVALID_SOCKET WSAEHOSTUNREACH (open_sockets t) =
      (s, le, fds)"
    by (cases "win_connect_loop os as INVALID_SOCKET WSAEHOSTUNREACH (open_sockets t)")
  from win_connect_loop_result [OF assms(1) l] assms(2) r l show ?thesis
    by (auto simp: windows_connect_def no_leak_def kInvalidSocket_def INVALID_SOCKET_def)
qed

interpretation windows: transport holds_socket shutdown_requested no_leak
  "\<lambda>(os, _). windows_fresh os" windows_connect_call windows_send_call windows_receive_call
  windows_shutdown windows_close
proof
  fix c :: windows_call and t u e
  show "fst (windows_connect_call c t) = Inr u \<Longrightarrow>
      holds_socket (snd (windows_connect_call c t)) \<and>
      \<not> shutdown_requested (snd (windows_connect_call c t))"
    by (auto simp: windows_connect_call_def windows_connect_def holds_socket_def kInvalidSocket_def
        INVALID_SOCKET_def split: prod.splits if_splits)
  show "fst (windows_connect_call c t) = Inl e \<Longrightarrow>
      holds_socket (snd (windows_connect_call c t)) = holds_socket t \<and>
      shutdown_requested (snd (windows_connect_call c t)) = shutdown_requested t"
    by (auto simp: windows_connect_call_def windows_connect_def holds_socket_def
        split: prod.splits if_splits)
  show "(case c of (os, _) \<Rightarrow> windows_fresh os) \<Longrightarrow> no_leak t \<Longrightarrow>
      no_leak (snd (windows_connect_call c t))"
    using windows_connect_no_leak by (auto simp: windows_connect_call_def split: prod.splits)
qed (auto simp: windows_send_call_def windows_receive_call_def windows_send_def windows_receive_def
    windows_shutdown_def windows_close_def holds_socket_def no_leak_def Let_def)

section \<open>Properties of both backends\<close>

text \<open>
  C28. After a shutdown or a close, and until the next connect, a receive neither waits nor
  delivers data, on either backend: it returns nothing, or reports that the socket is not
  connected.
\<close>

theorem stopped_transport_does_not_wait:
  assumes "op \<in> {Shutdown, Close}" "no_connect ops" "op' \<in> {Shutdown, Close}" "no_connect ops'"
  shows "posix_receive fuel p os later capacity timeout
           (fold (transport_step posix_connect_call posix_shutdown posix_close) (op # ops) t)
         \<in> {Some (Inr []), Some (Inl (RuntimeError ''UDP socket is not connected''))} \<and>
         windows_receive fuel p wos later capacity timeout
           (fold (transport_step windows_connect_call windows_shutdown windows_close) (op' # ops') t)
         \<in> {Some (Inr []), Some (Inl (RuntimeError ''UDP socket is not connected''))}"
  using posix.stopped_until_connect [OF assms(1,2), of "(fuel, p, os, later, capacity, timeout)" t]
    windows.stopped_until_connect [OF assms(3,4), of "(fuel, p, wos, later, capacity, timeout)" t]
  by (simp add: posix_receive_call_def windows_receive_call_def)

lemma stopped_transport_does_not_wait_witness:
  "posix_receive 0 linux_x86_64
     \<lparr>getaddrinfo = (\<lambda>_ _. (0, [])), gai_strerror = (\<lambda>_. []), strerror = (\<lambda>_. []),
      os_socket = (\<lambda>_ _. (3, 0)), os_connect = (\<lambda>_ _. (0, 0)), os_send = (\<lambda>_ _. (8, 0)),
      os_poll = (\<lambda>_ _ _. (1, 0, False)), os_recv = (\<lambda>_ _. Inr [1]), steady_now = (\<lambda>_. 0)\<rparr>
     (\<lambda>_. False) 36 (Finite 1)
     (fold (transport_step posix_connect_call posix_shutdown posix_close) [Shutdown, Close]
        (UdpTransport_init\<lparr>socket := 3, open_sockets := [3]\<rparr>))
   \<in> {Some (Inr []), Some (Inl (RuntimeError ''UDP socket is not connected''))}"
  using stopped_transport_does_not_wait [of "Shutdown :: posix_call transport_op" "[Close]"
      "Shutdown :: windows_call transport_op" "[]"]
  by (simp add: no_connect_def)

text \<open>
  C14. No descriptor leaks. Whatever the sequence of connects (successful, failed or
  repeated on an open transport), shutdowns and closes, the transport's only open descriptor
  is the one it holds, and after a close it has none, on either backend. The system is
  assumed to return descriptors that are not in use.
\<close>

theorem transport_does_not_leak:
  assumes "fresh_connects (\<lambda>(os, _). posix_fresh os) ops"
    and "fresh_connects (\<lambda>(os, _). windows_fresh os) ops'"
  shows "no_leak (fold (transport_step posix_connect_call posix_shutdown posix_close) ops UdpTransport_init) \<and>
         open_sockets (posix_close
           (fold (transport_step posix_connect_call posix_shutdown posix_close) ops UdpTransport_init)) = [] \<and>
         no_leak (fold (transport_step windows_connect_call windows_shutdown windows_close) ops' UdpTransport_init) \<and>
         open_sockets (windows_close
           (fold (transport_step windows_connect_call windows_shutdown windows_close) ops' UdpTransport_init)) = []"
  using posix.tidy_run [OF no_leak_init assms(1)] posix.close_after_run [OF no_leak_init assms(1)]
    windows.tidy_run [OF no_leak_init assms(2)] windows.close_after_run [OF no_leak_init assms(2)]
  by (simp add: no_leak_def holds_socket_def)

text \<open>A system whose third address is reachable.\<close>

definition sample_posix :: PosixOs where
  "sample_posix =
     \<lparr>getaddrinfo = (\<lambda>_ _. (0, [0, 1, 2])), gai_strerror = (\<lambda>_. []), strerror = (\<lambda>_. []),
      os_socket = (\<lambda>fds a. if a = 0 then (- 1, 97) else if 3 \<in> set fds then (- 1, 24) else (3, 0)),
      os_connect = (\<lambda>_ a. if a = 1 then (- 1, 101) else (0, 0)), os_send = (\<lambda>_ _. (8, 0)),
      os_poll = (\<lambda>i _ _. (- 1, EINTR, False)), os_recv = (\<lambda>_ n. Inr (take n [1])),
      steady_now = (\<lambda>i. 200000000 * int i)\<rparr>"

lemma transport_does_not_leak_witness:
  "open_sockets (snd (posix_connect sample_posix ''192.168.1.1'' 49152 UdpTransport_init)) = [3]"
proof -
  have "fresh_connects (\<lambda>(os, _). posix_fresh os) [Connect (sample_posix, ''192.168.1.1'', 49152 :: int)]"
    by (auto simp: fresh_connects_def posix_fresh_def sample_posix_def)
  from transport_does_not_leak [OF this, of "[]"]
  have "no_leak (snd (posix_connect sample_posix ''192.168.1.1'' 49152 UdpTransport_init))"
    by (simp add: fresh_connects_def posix_connect_call_def)
  moreover have "socket (snd (posix_connect sample_posix ''192.168.1.1'' 49152 UdpTransport_init)) = 3"
    by (simp add: posix_connect_def sample_posix_def UdpTransport_init_def)
  ultimately show ?thesis by (simp add: no_leak_def kInvalidSocket_def)
qed

section \<open>Waiting\<close>

definition fp_nonneg :: "fp \<Rightarrow> bool" where
  "fp_nonneg v \<longleftrightarrow> v = Infinity True \<or> (\<exists>x. v = Finite x \<and> 0 \<le> x)"

lemma fp_nonneg_round: "0 \<le> x \<Longrightarrow> fp_nonneg (fp_round binary64 m x)"
  unfolding fp_nonneg_def by (rule fp_round_nonneg) (simp_all add: binary64_def)

lemma fp_nonneg_mul_pos: "fp_nonneg v \<Longrightarrow> 0 < k \<Longrightarrow> fp_nonneg (fp_mul binary64 m v (Finite k))"
  by (auto simp: fp_nonneg_def [of v] intro!: fp_nonneg_round) (simp add: fp_nonneg_def)

lemma fp_nonneg_div_pos: "fp_nonneg v \<Longrightarrow> 0 < k \<Longrightarrow> fp_nonneg (fp_div binary64 m v (Finite k))"
  by (auto simp: fp_nonneg_def [of v] intro!: fp_nonneg_round) (simp add: fp_nonneg_def)

lemma fp_int_max: "fp_of_int binary64 ToNearest int_max = Finite (of_int int_max)"
  by (rule fp_of_int_binary64) (simp add: int_max_def)

lemma poll_timeout_defined:
  assumes "fp_nonneg v"
  shows "\<exists>ms. poll_timeout_milliseconds p v = Inr ms \<and> 0 \<le> ms \<and> ms \<le> int_max"
proof -
  have "fp_nonneg (fp_mul binary64 (rounding_direction p) v (Finite 1000))"
    using assms by (rule fp_nonneg_mul_pos) simp
  then consider "fp_mul binary64 (rounding_direction p) v (Finite 1000) = Infinity True"
    | x where "fp_mul binary64 (rounding_direction p) v (Finite 1000) = Finite x" "0 \<le> x"
    by (auto simp: fp_nonneg_def)
  then show ?thesis
  proof cases
    case 1
    then show ?thesis
      by (simp add: poll_timeout_milliseconds_def fp_int_max fp_le_def Let_def) (simp add: int_max_def)
  next
    case (2 x)
    then obtain n where n: "\<lceil>x\<rceil> = n" "0 \<le> n" by simp
    have cmp: "fp_le (Finite (of_int int_max)) (Finite (of_int n)) \<longleftrightarrow> int_max \<le> n"
      by (simp only: fp_le_simps of_int_le_iff)
    have "0 \<le> int_max" by (simp add: int_max_def)
    with n 2(1) show ?thesis
      by (cases "int_max \<le> n")
        (auto simp: poll_timeout_milliseconds_def fp_int_max cmp trunc_rat_def Let_def)
  qed
qed

definition nanosecond_clock :: "platform \<Rightarrow> bool" where
  "nanosecond_clock p \<longleftrightarrow> period_num p = 1 \<and> period_den p = 1000000000"

lemma seconds_of_ticks_nonneg:
  assumes "nanosecond_clock p" "0 \<le> n"
  shows "fp_nonneg (seconds_of_ticks p n)"
proof -
  have c: "fp_of_int binary64 ToNearest 1 = Finite 1"
    "fp_of_int binary64 ToNearest 1000000000 = Finite 1000000000"
    using fp_of_int_binary64 [of 1 ToNearest] fp_of_int_binary64 [of 1000000000 ToNearest] by simp_all
  have "fp_nonneg (fp_of_int binary64 (rounding_direction p) n)"
    unfolding fp_of_int_def using assms(2) by (intro fp_nonneg_round) simp
  then show ?thesis
    using assms(1) unfolding seconds_of_ticks_def nanosecond_clock_def
    by (simp add: c fp_nonneg_div_pos fp_nonneg_mul_pos)
qed

lemma kShutdownCheckInterval_nonneg: "fp_nonneg kShutdownCheckInterval"
proof -
  have "fp_of_int binary64 ToNearest 50 = Finite 50"
    using fp_of_int_binary64 [of 50 ToNearest] by simp
  then show ?thesis unfolding kShutdownCheckInterval_def kShutdownCheckIntervalMilliseconds_def
    by (simp add: fp_nonneg_round)
qed

text \<open>A WinSock poll waits at most 50 ms, so that shutdown is noticed.\<close>

lemma windows_timeout_is_posix_timeout: "windows_timeout_milliseconds = poll_timeout_milliseconds"
  by (intro ext) (simp only: windows_timeout_milliseconds_def poll_timeout_milliseconds_def)

lemma windows_poll_timeout_range:
  assumes "nanosecond_clock p"
  shows "\<exists>ms. windows_poll_timeout p remaining = Inr ms \<and> 0 \<le> ms \<and> ms \<le> 50"
proof -
  have "fp_nonneg (if 0 < remaining then fp_min (seconds_of_ticks p remaining) kShutdownCheckInterval
      else Finite 0)"
    using kShutdownCheckInterval_nonneg seconds_of_ticks_nonneg [OF assms, of remaining]
    by (simp add: fp_min_def fp_nonneg_def)
  from poll_timeout_defined [OF this, of p] show ?thesis
    by (auto simp: windows_poll_timeout_def windows_timeout_is_posix_timeout kShutdownCheckIntervalMilliseconds_def)
qed

lemma posix_wait_returns:
  assumes "nanosecond_clock p" "fp_nonneg remaining" "i < k" "deadline \<le> steady_now os k" "k - i \<le> fuel"
  shows "\<exists>r. posix_wait fuel p os fd deadline remaining i = Some r \<and> r \<noteq> Inl UndefinedBehaviour"
  using assms(2-5)
proof (induction fuel arbitrary: i remaining)
  case 0
  then show ?case by simp
next
  case (Suc fuel)
  obtain ms where ms: "poll_timeout_milliseconds p remaining = Inr ms"
    using poll_timeout_defined [OF Suc.prems(1)] by blast
  show ?case
  proof (cases "Suc i = k")
    case True
    with Suc.prems(3) ms show ?thesis by (auto simp: socket_error_def Let_def split: prod.splits)
  next
    case False
    then have k: "Suc i < k" using Suc.prems(2) by simp
    let ?rem = "seconds_of_ticks p (deadline - steady_now os (Suc i))"
    have "\<exists>r. posix_wait fuel p os fd deadline ?rem (Suc i) = Some r \<and> r \<noteq> Inl UndefinedBehaviour"
      if "\<not> deadline \<le> steady_now os (Suc i)"
      using that k Suc.prems by (intro Suc.IH seconds_of_ticks_nonneg assms(1)) auto
    with ms show ?thesis by (auto simp: socket_error_def Let_def split: prod.splits)
  qed
qed

lemma windows_wait_returns:
  assumes "nanosecond_clock p" "i \<le> k" "later k \<or> deadline \<le> win_now os (2 * k + 2)" "k - i < fuel"
  shows "\<exists>r. windows_wait fuel p os later s deadline i = Some r \<and> r \<noteq> Inl UndefinedBehaviour"
  using assms(2-4)
proof (induction fuel arbitrary: i)
  case 0
  then show ?case by simp
next
  case (Suc fuel)
  obtain ms where ms: "windows_poll_timeout p (deadline - win_now os (2 * i + 1)) = Inr ms"
    using windows_poll_timeout_range [OF assms(1)] by blast
  show ?case
  proof (cases "i = k")
    case True
    with Suc.prems(2) ms show ?thesis by (auto simp: winsock_error_def split: sum.splits prod.splits)
  next
    case False
    with Suc.prems have "\<exists>r. windows_wait fuel p os later s deadline (Suc i) = Some r \<and>
        r \<noteq> Inl UndefinedBehaviour"
      by (intro Suc.IH) auto
    with ms show ?thesis by (auto simp: winsock_error_def split: sum.splits prod.splits)
  qed
qed

definition recv_bounded :: "('h \<Rightarrow> nat \<Rightarrow> (int, u8 list) result) \<Rightarrow> bool" where
  "recv_bounded f \<longleftrightarrow> (\<forall>s n data. f s n = Inr data \<longrightarrow> length data \<le> n)"

lemma posix_receive_length:
  "recv_bounded (os_recv os) \<Longrightarrow> posix_receive fuel p os later capacity timeout t = Some (Inr data) \<Longrightarrow>
     length data \<le> capacity"
  by (auto simp: posix_receive_def recv_bounded_def Let_def
      split: if_splits option.splits sum.splits prod.splits)

lemma windows_receive_length:
  assumes "recv_bounded (win_recv os)"
    "windows_receive fuel p os later capacity timeout t = Some (Inr data)"
  shows "length data \<le> capacity"
proof -
  have "length d \<le> capacity" if "win_recv os s (min capacity (nat int_max)) = Inr d" for s d
    using assms(1) that unfolding recv_bounded_def by fastforce
  then show ?thesis using assms(2)
    by (auto simp: windows_receive_def split: if_splits option.splits sum.splits prod.splits)
qed

text \<open>
  C29. A POSIX receive returns: if the clock has reached the deadline by the \<open>k\<close>-th
  reading, at most \<open>k\<close> rounds of \<open>poll\<close> are made however often signals interrupt them, every
  conversion of the timeout is defined, and the data fits the buffer.
\<close>

theorem posix_receive_returns:
  assumes "platform_ok p" "nanosecond_clock p" "fp_nonneg timeout" "recv_bounded (os_recv os)"
    and "0 < k" "\<forall>deadline. checked_deadline p (steady_now os 0) timeout = Inr deadline \<longrightarrow>
                 deadline \<le> steady_now os k" "k \<le> fuel"
  shows "\<exists>r. posix_receive fuel p os later capacity timeout t = Some r \<and> r \<noteq> Inl UndefinedBehaviour \<and>
             (\<forall>data. r = Inr data \<longrightarrow> length data \<le> capacity)"
proof -
  have "\<exists>r. posix_receive fuel p os later capacity timeout t = Some r \<and> r \<noteq> Inl UndefinedBehaviour"
  proof (cases "checked_deadline p (steady_now os 0) timeout")
    case (Inl e)
    with checked_deadline_defined [OF assms(1)] show ?thesis by (auto simp: posix_receive_def)
  next
    case (Inr deadline)
    with assms(6) have "deadline \<le> steady_now os k" by simp
    from posix_wait_returns [OF assms(2,3,5) this, of fuel "posix_fd (socket t)"] assms(7)
    obtain r where "posix_wait fuel p os (posix_fd (socket t)) deadline timeout 0 = Some r"
      "r \<noteq> Inl UndefinedBehaviour" by auto
    with Inr show ?thesis
      by (auto simp: posix_receive_def socket_error_def Let_def
          split: sum.splits option.splits prod.splits)
  qed
  with posix_receive_length [OF assms(4)] show ?thesis by blast
qed

lemma posix_receive_returns_witness:
  "\<exists>r. posix_receive 6 linux_x86_64 sample_posix (\<lambda>_. False) 37 (Finite 1)
         (UdpTransport_init\<lparr>socket := 3, open_sockets := [3]\<rparr>) = Some r \<and> r \<noteq> Inl UndefinedBehaviour \<and>
       (\<forall>data. r = Inr data \<longrightarrow> length data \<le> 37)"
proof (rule posix_receive_returns [where k = 6])
  show "platform_ok linux_x86_64" by simp
  show "nanosecond_clock linux_x86_64" by (simp add: nanosecond_clock_def linux_x86_64_def)
  show "fp_nonneg (Finite 1)" by (simp add: fp_nonneg_def)
  show "recv_bounded (os_recv sample_posix)" by (auto simp: recv_bounded_def sample_posix_def)
  have "fp_convert (long_double linux_x86_64) (rounding_direction linux_x86_64) (Finite 1) = Finite 1"
    using ld_round_int [of linux_x86_64 1] by simp
  then have "checked_duration linux_x86_64 (Finite 1) = Inr 1000000000"
    by (intro checked_duration_exact) (simp_all add: platform_ok_supported(1),
        simp_all add: linux_x86_64_def)
  then show "\<forall>deadline. checked_deadline linux_x86_64 (steady_now sample_posix 0) (Finite 1) = Inr deadline \<longrightarrow>
      deadline \<le> steady_now sample_posix 6"
    by (auto simp: checked_deadline_def sample_posix_def split: if_splits)
qed simp_all

text \<open>
  C30. A WinSock receive returns within \<open>k + 1\<close> slices if by slice \<open>k\<close> the shutdown flag is
  set or the clock has reached the deadline. Each slice waits between 0 and 50 ms, so a
  shutdown is noticed after at most one slice; every conversion is defined and the data
  fits the buffer.
\<close>

theorem windows_receive_returns:
  assumes "platform_ok p" "nanosecond_clock p" "recv_bounded (win_recv os)"
    and "\<forall>deadline. checked_deadline p (win_now os 0) timeout = Inr deadline \<longrightarrow>
           later k \<or> deadline \<le> win_now os (2 * k + 2)" "k < fuel"
  shows "(\<exists>r. windows_receive fuel p os later capacity timeout t = Some r \<and> r \<noteq> Inl UndefinedBehaviour \<and>
              (\<forall>data. r = Inr data \<longrightarrow> length data \<le> capacity)) \<and>
         (\<exists>ms. windows_poll_timeout p remaining = Inr ms \<and> 0 \<le> ms \<and> ms \<le> 50)"
proof -
  have "\<exists>r. windows_receive fuel p os later capacity timeout t = Some r \<and> r \<noteq> Inl UndefinedBehaviour"
  proof (cases "bind_result (checked_duration p timeout) (\<lambda>_. checked_deadline p (win_now os 0) timeout)")
    case (Inl e)
    with checked_deadline_defined [OF assms(1)] checked_duration_defined [OF assms(1)] show ?thesis
      by (auto simp: windows_receive_def bind_result_eq_Inl_iff)
  next
    case (Inr deadline)
    then have "checked_deadline p (win_now os 0) timeout = Inr deadline"
      by (auto simp: bind_result_eq_Inr_iff)
    with assms(4) have "later k \<or> deadline \<le> win_now os (2 * k + 2)" by simp
    from windows_wait_returns [of p 0 k later deadline os fuel "socket t"] this assms(2,5)
    obtain r where "windows_wait fuel p os later (socket t) deadline 0 = Some r"
      "r \<noteq> Inl UndefinedBehaviour" by auto
    with Inr show ?thesis
      by (auto simp: windows_receive_def winsock_error_def
          split: sum.splits option.splits prod.splits)
  qed
  with windows_receive_length [OF assms(3)] windows_poll_timeout_range [OF assms(2)]
  show ?thesis by blast
qed

definition sample_windows :: WinOs where
  "sample_windows =
     \<lparr>win_getaddrinfo = (\<lambda>_ _. (0, [0])), win_socket = (\<lambda>fds _. if 8 \<in> set fds then (- 1, 24) else (8, 0)),
      win_connect = (\<lambda>_ _. (0, 0)), win_send = (\<lambda>_ _. (8, 0)), win_poll = (\<lambda>_ _ _. Inr (0, 0)),
      win_getsockopt_error = (\<lambda>_. Inr 0), win_recv = (\<lambda>_ n. Inr (take n [1])),
      win_now = (\<lambda>_. 0)\<rparr>"

lemma windows_receive_returns_witness:
  "\<exists>r. windows_receive 4 windows_x86_64 sample_windows (\<lambda>i. 3 \<le> i) 37 (Finite 1)
         (UdpTransport_init\<lparr>socket := 8, open_sockets := [8]\<rparr>) = Some r \<and> r \<noteq> Inl UndefinedBehaviour"
proof -
  have "nanosecond_clock windows_x86_64"
    by (simp add: nanosecond_clock_def linux_x86_64_def windows_x86_64_def)
  moreover have "recv_bounded (win_recv sample_windows)"
    by (auto simp: recv_bounded_def sample_windows_def)
  ultimately show ?thesis
    using windows_receive_returns [of windows_x86_64 sample_windows "Finite 1" "\<lambda>i. 3 \<le> i" 3 4 37
        "UdpTransport_init\<lparr>socket := 8, open_sockets := [8]\<rparr>"] by auto
qed

end
