(* ===== verification/Udp_Lifetime.thy ===== *)
theory Udp_Lifetime
  imports Udp_Transport
begin

text \<open>
  Construction and destruction of the UDP transport. Both destructors close the socket. On
  Windows the transport owns a \<open>WinSockRuntime\<close>, whose constructor and destructor start and
  release the WinSock library; the library counts the start-ups of a process. The member
  is constructed before the transport's own data and destroyed after the body of the
  transport's destructor, so that the socket is closed while the library is still
  started. \<open>early_calls\<close> counts the library calls made while no start-up is in force.
\<close>

section \<open>The WinSock library\<close>

record WinSockLibrary =
  startups :: nat
  early_calls :: nat

definition WinSockLibrary_init :: WinSockLibrary where
  "WinSockLibrary_init = \<lparr>startups = 0, early_calls = 0\<rparr>"

definition library_call :: "WinSockLibrary \<Rightarrow> WinSockLibrary" where
  "library_call lib = (if startups lib = 0 then lib\<lparr>early_calls := Suc (early_calls lib)\<rparr> else lib)"

text \<open>\<open>startup_result\<close> is what \<open>WSAStartup\<close> returns.\<close>

definition WinSockRuntime_construct :: "int \<Rightarrow> WinSockLibrary \<Rightarrow> (exn, unit) result \<times> WinSockLibrary" where
  "WinSockRuntime_construct startup_result lib =
     (if startup_result \<noteq> 0
      then (Inl (winsock_error ''failed to initialize WinSock'' startup_result), lib)
      else (Inr (), lib\<lparr>startups := Suc (startups lib)\<rparr>))"

definition WinSockRuntime_destroy :: "WinSockLibrary \<Rightarrow> WinSockLibrary" where
  "WinSockRuntime_destroy lib = (library_call lib)\<lparr>startups := startups lib - 1\<rparr>"

section \<open>The transport\<close>

definition posix_destroy :: "UdpTransport \<Rightarrow> UdpTransport" where
  "posix_destroy t = posix_close t"

definition windows_construct :: "int \<Rightarrow> WinSockLibrary \<Rightarrow> (exn, UdpTransport) result \<times> WinSockLibrary" where
  "windows_construct startup_result lib =
     (case WinSockRuntime_construct startup_result lib of
        (Inl e, lib') \<Rightarrow> (Inl e, lib')
      | (Inr _, lib') \<Rightarrow> (Inr UdpTransport_init, lib'))"

definition windows_destroy :: "UdpTransport \<Rightarrow> WinSockLibrary \<Rightarrow> UdpTransport \<times> WinSockLibrary" where
  "windows_destroy t lib =
     (let lib' = (if socket t \<noteq> kInvalidSocket then library_call lib else lib)
      in (windows_close t, WinSockRuntime_destroy lib'))"

section \<open>A process with several transports\<close>

text \<open>
  The transports of a process by number, the library they share, and the sockets that
  were left open by transports that no longer exist. A step on a transport that does
  not exist, or the construction of one that does, is not a step of a program.
\<close>

record WinProcess =
  library :: WinSockLibrary
  transports :: "nat \<rightharpoonup> UdpTransport"
  abandoned :: "u64 list"

definition WinProcess_init :: WinProcess where
  "WinProcess_init = \<lparr>library = WinSockLibrary_init, transports = Map.empty, abandoned = []\<rparr>"

datatype process_op = Construct nat int | Use nat "windows_call transport_op" | Destroy nat

definition use_transport :: "windows_call transport_op \<Rightarrow> UdpTransport \<Rightarrow> UdpTransport" where
  "use_transport = transport_step windows_connect_call windows_shutdown windows_close"

fun process_step :: "process_op \<Rightarrow> WinProcess \<Rightarrow> WinProcess option" where
  "process_step (Construct k r) P =
     (if transports P k \<noteq> None then None
      else case windows_construct r (library P) of
        (Inl e, lib) \<Rightarrow> Some (P\<lparr>library := lib\<rparr>)
      | (Inr t, lib) \<Rightarrow> Some (P\<lparr>library := lib, transports := (transports P)(k \<mapsto> t)\<rparr>))"
| "process_step (Use k op) P =
     (case transports P k of
        None \<Rightarrow> None
      | Some t \<Rightarrow> Some (P\<lparr>library := library_call (library P),
                         transports := (transports P)(k \<mapsto> use_transport op t)\<rparr>))"
| "process_step (Destroy k) P =
     (case transports P k of
        None \<Rightarrow> None
      | Some t \<Rightarrow>
          (case windows_destroy t (library P) of (t', lib) \<Rightarrow>
             Some (P\<lparr>library := lib, transports := (transports P)(k := None),
                     abandoned := open_sockets t' @ abandoned P\<rparr>)))"

fun process_run :: "process_op list \<Rightarrow> WinProcess \<Rightarrow> WinProcess option" where
  "process_run [] P = Some P"
| "process_run (op # ops) P = Option.bind (process_step op P) (process_run ops)"

fun fresh_op :: "process_op \<Rightarrow> bool" where
  "fresh_op (Use k (Connect (os, c))) \<longleftrightarrow> windows_fresh os"
| "fresh_op _ \<longleftrightarrow> True"

definition process_ok :: "WinProcess \<Rightarrow> bool" where
  "process_ok P \<longleftrightarrow> finite (dom (transports P)) \<and> startups (library P) = card (dom (transports P)) \<and>
     early_calls (library P) = 0 \<and> abandoned P = [] \<and>
     (\<forall>k t. transports P k = Some t \<longrightarrow> no_leak t)"

lemma process_ok_init: "process_ok WinProcess_init"
  by (simp add: process_ok_def WinProcess_init_def WinSockLibrary_init_def)

lemma process_ok_started:
  assumes "process_ok P" "transports P k = Some t"
  shows "0 < startups (library P)"
proof -
  have "dom (transports P) \<noteq> {}" using assms(2) by auto
  with assms(1) show ?thesis by (simp add: process_ok_def card_gt_0_iff)
qed

lemma use_transport_no_leak: "fresh_op (Use k op) \<Longrightarrow> no_leak t \<Longrightarrow> no_leak (use_transport op t)"
  using windows.connect_tidy windows.shutdown_effect(3) windows.close_effect(3)
  by (cases op) (force simp: use_transport_def)+

lemma destroyed_closed: "no_leak t \<Longrightarrow> open_sockets (windows_close t) = []"
  by (auto simp: windows_close_def no_leak_def Let_def)

lemma process_step_ok:
  assumes "process_ok P" "fresh_op op" "process_step op P = Some P'"
  shows "process_ok P'"
proof (cases op)
  case (Construct k r)
  with assms(3) have none: "transports P k = None" by (auto split: if_splits)
  show ?thesis
  proof (cases "r = 0")
    case True
    with Construct assms(3) none have P': "P' = P\<lparr>library := (library P)\<lparr>startups := Suc (startups (library P))\<rparr>,
        transports := (transports P)(k \<mapsto> UdpTransport_init)\<rparr>"
      by (simp add: windows_construct_def WinSockRuntime_construct_def)
    from none have "k \<notin> dom (transports P)" by auto
    with P' assms(1) show ?thesis by (simp add: process_ok_def no_leak_init)
  next
    case False
    with Construct assms(1,3) none show ?thesis
      by (simp add: windows_construct_def WinSockRuntime_construct_def process_ok_def)
  qed
next
  case (Use k c)
  then obtain t where t: "transports P k = Some t" using assms(3) by (auto split: option.splits)
  note process_ok_started [OF assms(1) t]
  moreover have "no_leak (use_transport c t)"
    using use_transport_no_leak assms(1,2) Use t by (auto simp: process_ok_def)
  moreover have "insert k (dom (transports P)) = dom (transports P)" using t by auto
  ultimately show ?thesis using assms Use t
    by (auto simp: process_ok_def library_call_def split: if_splits)
next
  case (Destroy k)
  then obtain t where t: "transports P k = Some t" using assms(3) by (auto split: option.splits)
  have lib: "library_call (library P) = library P"
    using process_ok_started [OF assms(1) t] by (simp add: library_call_def)
  have "open_sockets (windows_close t) = []"
    using destroyed_closed assms(1) t by (auto simp: process_ok_def)
  with Destroy t assms(3) lib have P': "P' = P\<lparr>library := (library P)\<lparr>startups := startups (library P) - 1\<rparr>,
      transports := (transports P)(k := None)\<rparr>"
    by (cases "socket t = kInvalidSocket") (auto simp: windows_destroy_def WinSockRuntime_destroy_def Let_def)
  have "card (dom (transports P) - {k}) = card (dom (transports P)) - 1"
    using card_Diff_singleton [of k "dom (transports P)"] t by (simp add: domI)
  with P' assms(1) show ?thesis by (auto simp: process_ok_def split: if_splits)
qed

lemma process_run_ok:
  "process_ok P \<Longrightarrow> list_all fresh_op ops \<Longrightarrow> process_run ops P = Some P' \<Longrightarrow> process_ok P'"
proof (induction ops arbitrary: P)
  case (Cons op ops)
  then show ?case using process_step_ok by (cases "process_step op P") auto
qed simp

text \<open>
  C40. The WinSock library is started as often as there are transports. Over any sequence of
  constructions, some of which fail, connects, shutdowns, closes and destructions of any
  number of transports, every library call is made while the library is started, no
  socket outlives its transport, and once the last transport is gone the library
  has been released as often as it was started.
\<close>

theorem winsock_is_balanced:
  assumes "list_all fresh_op ops" "process_run ops WinProcess_init = Some P"
  shows "early_calls (library P) = 0 \<and> abandoned P = [] \<and>
         startups (library P) = card (dom (transports P)) \<and>
         (transports P = Map.empty \<longrightarrow> startups (library P) = 0)"
  using process_run_ok [OF process_ok_init assms] by (auto simp: process_ok_def)

text \<open>A system with one reachable address.\<close>

definition sample_windows :: WinOs where
  "sample_windows =
     \<lparr>win_getaddrinfo = (\<lambda>_ _. (0, [1])),
      win_socket = (\<lambda>fds _. if 7 \<in> set fds then (- 1, 10024) else (7, 0)),
      win_connect = (\<lambda>_ _. (0, 0)), win_send = (\<lambda>_ _. (8, 0)),
      win_poll = (\<lambda>_ _ _. Inr (0, 0)), win_getsockopt_error = (\<lambda>_. Inr 0),
      win_recv = (\<lambda>_ _. Inr []), win_now = (\<lambda>i. int i)\<rparr>"

lemma winsock_is_balanced_witness:
  "\<exists>P. process_run [Construct 0 0, Construct 2 10091, Construct 2 0,
          Use 2 (Connect (sample_windows, ''192.168.1.1'', 49152)), Destroy 2] WinProcess_init = Some P \<and>
       startups (library P) = card {0 :: nat} \<and> abandoned P = []"
proof -
  let ?ops = "[Construct 0 0, Construct 2 10091, Construct 2 0,
      Use 2 (Connect (sample_windows, ''192.168.1.1'', 49152)), Destroy 2]"
  have fresh: "list_all fresh_op ?ops"
    by (auto simp: windows_fresh_def sample_windows_def INVALID_SOCKET_def)
  have "\<exists>P. process_run ?ops WinProcess_init = Some P \<and> dom (transports P) = {0}"
    by (simp add: WinProcess_init_def windows_construct_def WinSockRuntime_construct_def windows_destroy_def
        Let_def)
  then obtain P where P: "process_run ?ops WinProcess_init = Some P" "dom (transports P) = {0}"
    by blast
  from winsock_is_balanced [OF fresh P(1)] P show ?thesis by auto
qed

end
