(* ===== verification/Client_Impl.thy ===== *)
theory Client_Impl
  imports Sequence Status Protocol Fault_Latch Discovery Udp_Transport
begin

text \<open>
  Model of the state of \<open>Client::Impl\<close> (\<open>src/src/detail/client_impl.hpp\<close>) and of the parts of
  \<open>src/src/detail/client_impl.cpp\<close> that run as one step: the sections a thread executes while it
  holds the command, record or data mutex, and the pure helpers. A time point is a number
  of clock ticks, the default-constructed one is 0. Three fields are a history that no
  operation reads, newest last: \<open>invoked\<close> the samples handed to the callback, \<open>sent\<close> the requests
  handed to the transport, \<open>waited\<close> the delays before reconnects, each with whether the session
  before it had a valid record.
\<close>

section \<open>Session results\<close>

datatype SessionResult =
    SessionStopped | SessionSensorConfiguration | SessionTimeout | SessionSocket
  | SessionSeriousStatus | SessionFtStall | SessionFtBackward | SessionMalformedStorm
  | SessionCallback

record SessionOutcome =
  so_result :: SessionResult
  so_message :: string
  so_received_valid_record :: bool

fun fault_for :: "SessionResult \<Rightarrow> FaultCode" where
  "fault_for SessionSensorConfiguration = FaultSensorConfiguration"
| "fault_for SessionTimeout = FaultTimeout"
| "fault_for SessionSocket = FaultSocket"
| "fault_for SessionSeriousStatus = FaultSeriousStatus"
| "fault_for SessionFtStall = FaultFtStall"
| "fault_for SessionFtBackward = FaultFtBackward"
| "fault_for SessionMalformedStorm = FaultMalformedStorm"
| "fault_for SessionCallback = FaultCallback"
| "fault_for SessionStopped = FaultNone"

fun message_for :: "SessionResult \<Rightarrow> string" where
  "message_for SessionSensorConfiguration = ''sensor configuration discovery failed''"
| "message_for SessionTimeout = ''no valid RDT record before timeout''"
| "message_for SessionSocket = ''UDP socket failure''"
| "message_for SessionSeriousStatus = ''serious device status''"
| "message_for SessionFtStall = ''FT sequence stalled''"
| "message_for SessionFtBackward = ''FT sequence moved backward''"
| "message_for SessionMalformedStorm = ''malformed packet storm''"
| "message_for SessionCallback = ''sample callback failed''"
| "message_for SessionStopped = ''''"

definition kMalformedStormThreshold :: u64 where
  "kMalformedStormThreshold = 10"

section \<open>State\<close>

record Impl =
  config :: Config
  stopping :: bool
  worker_exited :: bool
  session_started :: bool
  fault_latch :: FaultLatch
  health :: HealthSnapshot
  latest :: "Sample option"
  last_delivery_at :: int
  last_record_at :: int
  generation :: u64
  delivered_generation :: u64
  receive_times :: "int list"
  delivery_times :: "int list"
  consecutive_malformed :: u64
  rdt_tracker :: RdtSequenceTracker
  ft_tracker :: FtSequenceTracker
  udp :: UdpTransport
  callback_present :: bool
  curl_initialization :: "CURLcode option"
  invoked :: "Sample list"
  sent :: "u8 list list"
  waited :: "(bool \<times> fp) list"
  tick :: nat

definition Impl_init :: "Config \<Rightarrow> Impl" where
  "Impl_init c =
     \<lparr>config = c, stopping = False, worker_exited = True, session_started = False,
      fault_latch = FaultLatch_init,
      health = HealthSnapshot_default\<lparr>health_sensor_host := sensor_host c, health_rdt_port := rdt_port c\<rparr>,
      latest = None, last_delivery_at = 0, last_record_at = 0, generation = 0,
      delivered_generation = 0, receive_times = [], delivery_times = [],
      consecutive_malformed = 0, rdt_tracker = RdtSequenceTracker_init,
      ft_tracker = FtSequenceTracker_init, udp = UdpTransport_init, callback_present = False,
      curl_initialization = None, invoked = [], sent = [], waited = [],
      tick = 0\<rparr>"

text \<open>The constructor validates the configuration first.\<close>

definition Impl_construct :: "platform \<Rightarrow> (nat \<Rightarrow> int) \<Rightarrow> Config \<Rightarrow> (exn, Impl) result" where
  "Impl_construct p now c = bind_result (validate_config p now c) (\<lambda>_. Inr (Impl_init c))"

definition faulted :: "Impl \<Rightarrow> bool" where
  "faulted s = latch_faulted (fault_latch s)"

definition client_fault_code :: "Impl \<Rightarrow> FaultCode" where
  "client_fault_code s = latch_code (fault_latch s)"

text \<open>Update of the health record.\<close>

definition with_health :: "(HealthSnapshot \<Rightarrow> HealthSnapshot) \<Rightarrow> Impl \<Rightarrow> Impl" where
  "with_health f s = s\<lparr>health := f (health s)\<rparr>"

section \<open>Helpers\<close>

definition same_calibration :: "Calibration \<Rightarrow> Calibration \<Rightarrow> bool" where
  "same_calibration l r \<longleftrightarrow>
     fp_eq (counts_per_force_unit l) (counts_per_force_unit r) \<and>
     fp_eq (counts_per_torque_unit l) (counts_per_torque_unit r) \<and>
     force_unit l = force_unit r \<and> torque_unit l = torque_unit r"

text \<open>The window is one second: \<open>period_num / period_den\<close> is the length of a tick.\<close>

fun prune_rate_window :: "platform \<Rightarrow> int list \<Rightarrow> int \<Rightarrow> int list" where
  "prune_rate_window p [] now = []"
| "prune_rate_window p (t # ts) now =
     (if (now - t) * period_num p > period_den p then prune_rate_window p ts now else t # ts)"

text \<open>A time is pushed to a window and the window pruned at that time.\<close>

definition push_time :: "platform \<Rightarrow> int \<Rightarrow> int list \<Rightarrow> int list" where
  "push_time p arrival ts = prune_rate_window p (ts @ [arrival]) arrival"

fun ft_progress_name :: "FtSequenceKind \<Rightarrow> string" where
  "ft_progress_name FtFirst = ''first''"
| "ft_progress_name Forward = ''forward''"
| "ft_progress_name Stall = ''stall''"
| "ft_progress_name Backward = ''backward''"
| "ft_progress_name Restart = ''restart''"

definition double_of_size :: "platform \<Rightarrow> nat \<Rightarrow> fp" where
  "double_of_size p n = fp_of_int binary64 (rounding_direction p) (int n)"

section \<open>Configuration of a session\<close>

definition configuration_for_session ::
    "platform \<Rightarrow> Curl \<Rightarrow> FloatEnvironment \<Rightarrow> Impl \<Rightarrow> (exn, SensorConfiguration) result \<times> Impl" where
  "configuration_for_session p curl fe s =
     (case calibration_override (config s) of
        Some c \<Rightarrow> (Inr \<lparr>product_name = [], calibration = c, source = SourceOverride, revision = 1\<rparr>, s)
      | None \<Rightarrow>
          (case discover_sensor p curl fe
                  \<lparr>opt_sensor_host = sensor_host (config s), opt_http_port = http_port (config s),
                   opt_connect_timeout = configuration_connect_timeout (config s),
                   opt_total_timeout = configuration_timeout (config s)\<rparr> (curl_initialization s) of
             (r, ini) \<Rightarrow> (r, s\<lparr>curl_initialization := ini\<rparr>)))"

definition apply_configuration :: "SensorConfiguration \<Rightarrow> Impl \<Rightarrow> Impl" where
  "apply_configuration c s =
     with_health (\<lambda>h.
       (case sensor_configuration h of
          Some previous \<Rightarrow>
            if same_calibration (calibration previous) (calibration c) then
              h\<lparr>sensor_configuration := Some (c\<lparr>revision := revision previous\<rparr>)\<rparr>
            else
              h\<lparr>sensor_configuration := Some (c\<lparr>revision := revision previous + 1\<rparr>),
                calibration_change_count := calibration_change_count h + 1\<rparr>
        | None \<Rightarrow> h\<lparr>sensor_configuration := Some (c\<lparr>revision := 1\<rparr>)\<rparr>)) s"

section \<open>One record\<close>

text \<open>The counters that depend on the observation of the RDT sequence.\<close>

definition count_rdt :: "SequenceObservation \<Rightarrow> HealthSnapshot \<Rightarrow> HealthSnapshot" where
  "count_rdt obs h =
     (case kind obs of
        Gap \<Rightarrow> h\<lparr>lost_count := lost_count h + ucast (gap obs)\<rparr>
      | Duplicate \<Rightarrow> h\<lparr>duplicate_count := duplicate_count h + 1\<rparr>
      | OutOfOrder \<Rightarrow> h\<lparr>out_of_order_count := out_of_order_count h + 1\<rparr>
      | SeqFirst \<Rightarrow> h
      | Contiguous \<Rightarrow> h)"

definition count_ft :: "FtSequenceKind \<Rightarrow> HealthSnapshot \<Rightarrow> HealthSnapshot" where
  "count_ft k h =
     (case k of
        Stall \<Rightarrow> h\<lparr>ft_stall_count := ft_stall_count h + 1\<rparr>
      | Backward \<Rightarrow> h\<lparr>ft_backward_count := ft_backward_count h + 1\<rparr>
      | Restart \<Rightarrow> h\<lparr>ft_restart_count := ft_restart_count h + 1\<rparr>
      | FtFirst \<Rightarrow> h
      | Forward \<Rightarrow> h)"

definition count_severity :: "StatusSeverity \<Rightarrow> HealthSnapshot \<Rightarrow> HealthSnapshot" where
  "count_severity sev h =
     (case sev of
        Warn \<Rightarrow> h\<lparr>warning_count := warning_count h + 1\<rparr>
      | Error \<Rightarrow> h\<lparr>device_error_count := device_error_count h + 1\<rparr>
      | Ok \<Rightarrow> h)"

text \<open>Whether less than the minimum interval has passed since the last delivery.\<close>

definition minimum_interval_ticks :: "platform \<Rightarrow> fp \<Rightarrow> fp" where
  "minimum_interval_ticks p hz =
     fp_div binary64 (rounding_direction p)
       (fp_mul binary64 (rounding_direction p)
          (fp_div binary64 (rounding_direction p) (Finite 1) hz)
          (fp_of_int binary64 ToNearest (period_den p)))
       (fp_of_int binary64 ToNearest (period_num p))"

definition within_rate_limit :: "platform \<Rightarrow> Config \<Rightarrow> int \<Rightarrow> int \<Rightarrow> bool" where
  "within_rate_limit p c last_delivery arrival \<longleftrightarrow>
     fp_less (Finite 0) (sample_rate_limit_hz c) \<and> last_delivery \<noteq> 0 \<and>
     fp_less (fp_of_int binary64 (rounding_direction p) (arrival - last_delivery))
       (minimum_interval_ticks p (sample_rate_limit_hz c))"

text \<open>
  The decision on a record, in the order of the code: whether it may be delivered (before
  the rate limit), and how the session ends if it does.
\<close>

definition session_outcome_of :: "Config \<Rightarrow> FtSequenceKind \<Rightarrow> StatusSeverity \<Rightarrow> SessionResult option" where
  "session_outcome_of c ft sev =
     (let o1 = (if sev = Error then Some SessionSeriousStatus else None);
          o2 = (if o1 = None \<and> ft = Stall then Some SessionFtStall
                else if o1 = None \<and> ft = Backward then Some SessionFtBackward else o1)
      in if (ft = Stall \<or> ft = Backward) \<and> recovery_policy c = Reconnect \<and>
            (o2 = Some SessionFtStall \<or> o2 = Some SessionFtBackward)
         then None else o2)"

definition deliverable :: "Config \<Rightarrow> SequenceKind \<Rightarrow> FtSequenceKind \<Rightarrow> StatusSeverity \<Rightarrow> bool" where
  "deliverable c k ft sev =
     (let d1 = (k \<noteq> Duplicate \<and> k \<noteq> OutOfOrder);
          d2 = (if sev = Error then deliver_samples_with_error_status c \<and> d1 else d1)
      in if ft = Stall \<or> ft = Backward then False else d2)"

text \<open>
  The section of \<open>handle_record\<close> under the record and data mutexes: the configuration in
  force, whether to deliver, and the outcome.
\<close>

definition observe_record ::
    "platform \<Rightarrow> RawRecord \<Rightarrow> int \<Rightarrow> Impl \<Rightarrow>
     (exn, SensorConfiguration \<times> bool \<times> SessionResult option) result \<times> Impl" where
  "observe_record p record arrival s =
     (case rdt_observe (rdt_tracker s) (rec_rdt_sequence record) of (rdt, rdt_tracker') \<Rightarrow>
      case ft_observe (ft_tracker s) (rec_ft_sequence record) of (ft, ft_tracker') \<Rightarrow>
        let severity = classify_status (rec_status record);
            s1 = s\<lparr>rdt_tracker := rdt_tracker', ft_tracker := ft_tracker'\<rparr>
        in case sensor_configuration (health s1) of
             None \<Rightarrow> (Inl (LogicError ''sensor configuration is unavailable while streaming''), s1)
           | Some configuration \<Rightarrow>
               let times = push_time p arrival (receive_times s1);
                   h1 = (health s1)\<lparr>state := Streaming,
                          received_count := received_count (health s1) + 1,
                          receive_rate_hz := double_of_size p (length times),
                          last_rdt_sequence := Some (rec_rdt_sequence record),
                          last_ft_sequence := Some (rec_ft_sequence record),
                          last_status := rec_status record\<rparr>;
                   h2 = count_rdt rdt h1;
                   h3 = count_ft ft (h2\<lparr>last_ft_progress := ft_progress_name ft\<rparr>);
                   h4 = count_severity severity h3;
                   outcome = session_outcome_of (config s1) ft severity;
                   deliver = deliverable (config s1) (kind rdt) ft severity;
                   limited = (deliver \<and> within_rate_limit p (config s1) (last_delivery_at s1) arrival);
                   h5 = (if limited then h4\<lparr>rate_limited_count := rate_limited_count h4 + 1\<rparr> else h4)
               in (Inr (configuration, deliver \<and> \<not> limited, outcome),
                   s1\<lparr>health := h5, receive_times := times, last_record_at := arrival\<rparr>))"

definition scale_axis :: "platform \<Rightarrow> int \<Rightarrow> fp \<Rightarrow> fp" where
  "scale_axis p raw counts =
     fp_div binary64 (rounding_direction p)
       (fp_of_int binary64 (rounding_direction p) raw) counts"

definition make_sample ::
    "platform \<Rightarrow> RawRecord \<Rightarrow> SensorConfiguration \<Rightarrow> int \<Rightarrow> Sample" where
  "make_sample p record configuration arrival =
     (let c = calibration configuration
      in \<lparr>rdt_sequence = rec_rdt_sequence record, ft_sequence = rec_ft_sequence record,
          status = rec_status record,
          raw_wrench = [fx record, fy record, fz record, tx record, ty record, tz record],
          force = map (\<lambda>r. scale_axis p r (counts_per_force_unit c)) [fx record, fy record, fz record],
          torque = map (\<lambda>r. scale_axis p r (counts_per_torque_unit c)) [tx record, ty record, tz record],
          sample_force_unit = force_unit c, sample_torque_unit = torque_unit c,
          configuration_revision = revision configuration, received_at = arrival\<rparr>)"

definition sample_finite :: "Sample \<Rightarrow> bool" where
  "sample_finite x \<longleftrightarrow> list_all fp_isfinite (force x) \<and> list_all fp_isfinite (torque x)"

definition callback_failure_outcome :: "Config \<Rightarrow> SessionResult option \<Rightarrow> SessionResult option" where
  "callback_failure_outcome c outcome =
     (if outcome \<noteq> None \<or> recovery_policy c = Reconnect then outcome else Some SessionCallback)"

text \<open>The section after a callback that returned.\<close>

definition record_delivery :: "platform \<Rightarrow> Sample \<Rightarrow> int \<Rightarrow> Impl \<Rightarrow> Impl" where
  "record_delivery p sample arrival s =
     (let times = push_time p arrival (delivery_times s)
      in s\<lparr>last_delivery_at := arrival, latest := Some sample,
           health := (health s)\<lparr>delivered_count := delivered_count (health s) + 1,
                                delivery_rate_hz := double_of_size p (length times)\<rparr>,
           delivery_times := times, delivered_generation := generation s\<rparr>)"

definition record_callback_error :: "string \<Rightarrow> Impl \<Rightarrow> Impl" where
  "record_callback_error message s =
     with_health (\<lambda>h. h\<lparr>callback_error_count := callback_error_count h + 1, last_error := message\<rparr>) s"

section \<open>Sections of the session loop\<close>

definition set_client_state :: "ClientState \<Rightarrow> Impl \<Rightarrow> Impl" where
  "set_client_state st s = with_health (\<lambda>h. h\<lparr>state := st\<rparr>) s"

definition count_timeout :: "Impl \<Rightarrow> Impl" where
  "count_timeout s = with_health (\<lambda>h. h\<lparr>timeout_count := timeout_count h + 1\<rparr>) s"

text \<open>A malformed datagram: whether the storm threshold is reached.\<close>

definition count_malformed :: "Impl \<Rightarrow> bool \<times> Impl" where
  "count_malformed s =
     (let n = consecutive_malformed s + 1
      in (n \<ge> kMalformedStormThreshold,
          with_health (\<lambda>h. h\<lparr>malformed_count := malformed_count h + 1\<rparr>) s\<lparr>consecutive_malformed := n\<rparr>))"

definition begin_tracking :: "Impl \<Rightarrow> Impl" where
  "begin_tracking s =
     s\<lparr>rdt_tracker := rdt_reset (rdt_tracker s), ft_tracker := ft_begin_session (ft_tracker s)\<rparr>"

definition set_fault :: "FaultCode \<Rightarrow> string \<Rightarrow> Impl \<Rightarrow> Impl" where
  "set_fault code message s =
     (case snd (publish code message (fault_latch s, health s)) of
        (latch, h) \<Rightarrow> s\<lparr>fault_latch := latch, health := h\<rparr>)"

text \<open>
  Between two sessions: the health record, and in the history whether the session had a
  valid record and the delay the worker is going to wait.
\<close>

definition enter_backoff :: "string \<Rightarrow> bool \<Rightarrow> fp \<Rightarrow> Impl \<Rightarrow> Impl" where
  "enter_backoff message valid delay s =
     with_health (\<lambda>h. h\<lparr>last_error := message, state := Backoff,
                        reconnect_count := reconnect_count h + 1\<rparr>) s\<lparr>waited := waited s @ [(valid, delay)]\<rparr>"

section \<open>Readers\<close>

text \<open>\<open>health\<close>: the snapshot, and the windows it prunes.\<close>

definition client_health :: "platform \<Rightarrow> int \<Rightarrow> Impl \<Rightarrow> HealthSnapshot \<times> Impl" where
  "client_health p now s =
     (let s' = s\<lparr>receive_times := prune_rate_window p (receive_times s) now,
                 delivery_times := prune_rate_window p (delivery_times s) now\<rparr>;
          code = client_fault_code s';
          h1 = (health s')\<lparr>fault_code := code\<rparr>;
          h2 = (if code \<noteq> FaultNone then h1\<lparr>state := Faulted\<rparr> else h1);
          h3 = h2\<lparr>receive_rate_hz := double_of_size p (length (receive_times s')),
                  delivery_rate_hz := double_of_size p (length (delivery_times s'))\<rparr>;
          h4 = (if last_record_at s' \<noteq> 0
                then h3\<lparr>last_record_age := Some (seconds_of_ticks p (now - last_record_at s'))\<rparr>
                else h3)
      in (h4, s'))"

definition latest_sample :: "Impl \<Rightarrow> Sample option" where
  "latest_sample s = latest s"

section \<open>Decisions on a record\<close>

lemma session_outcome_of_cases:
  "session_outcome_of c ft sev =
     (if sev = Error then Some SessionSeriousStatus
      else if recovery_policy c = FailStop \<and> ft = Stall then Some SessionFtStall
      else if recovery_policy c = FailStop \<and> ft = Backward then Some SessionFtBackward
      else None)"
  by (cases "recovery_policy c") (auto simp: session_outcome_of_def Let_def)

lemma deliverable_iff:
  "deliverable c k ft sev \<longleftrightarrow>
     k \<in> {SeqFirst, Contiguous, Gap} \<and> ft \<in> {FtFirst, Forward, Restart} \<and>
     (sev = Error \<longrightarrow> deliver_samples_with_error_status c)"
  by (cases k; cases ft) (auto simp: deliverable_def Let_def)

lemma observe_record_unconfigured:
  "sensor_configuration (health s) = None \<Longrightarrow>
     fst (observe_record p record arrival s) =
       Inl (LogicError ''sensor configuration is unavailable while streaming'')"
  by (simp add: observe_record_def split: prod.splits)

lemma observe_record_result:
  assumes "sensor_configuration (health s) = Some configuration"
  shows "fst (observe_record p record arrival s) =
    Inr (configuration,
         deliverable (config s) (kind (fst (rdt_observe (rdt_tracker s) (rec_rdt_sequence record))))
           (fst (ft_observe (ft_tracker s) (rec_ft_sequence record))) (classify_status (rec_status record)) \<and>
         \<not> within_rate_limit p (config s) (last_delivery_at s) arrival,
         session_outcome_of (config s) (fst (ft_observe (ft_tracker s) (rec_ft_sequence record)))
           (classify_status (rec_status record)))"
  using assms by (auto simp: observe_record_def Let_def split: prod.splits)

text \<open>A client in the middle of a session, for the examples.\<close>

definition sample_configuration :: SensorConfiguration where
  "sample_configuration =
     \<lparr>product_name = ''Gamma'',
      calibration = \<lparr>counts_per_force_unit = Finite 1000000, counts_per_torque_unit = Finite 1000000,
                     force_unit = Newton, torque_unit = NewtonMeter\<rparr>,
      source = SourceSensor, revision = 1\<rparr>"

definition sample_client :: Impl where
  "sample_client = apply_configuration sample_configuration (Impl_init Config_default)"

definition sample_record :: RawRecord where
  "sample_record =
     \<lparr>rec_rdt_sequence = 7, rec_ft_sequence = 70, rec_status = 0, fx = 1000000, fy = 0, fz = -5000000,
      tx = 0, ty = 0, tz = 0\<rparr>"

lemma sample_client_configuration: "sensor_configuration (health sample_client) = Some sample_configuration"
  by (simp add: sample_client_def apply_configuration_def with_health_def Impl_init_def
      HealthSnapshot_default_def sample_configuration_def)

lemma sample_client_config: "config sample_client = Config_default" "last_delivery_at sample_client = 0"
    "rdt_tracker sample_client = RdtSequenceTracker_init" "ft_tracker sample_client = FtSequenceTracker_init"
  by (simp_all add: sample_client_def apply_configuration_def with_health_def Impl_init_def)

section \<open>Revisions of the configuration\<close>

text \<open>The number of changes of calibration along a list, from a calibration in force.\<close>

fun calibration_changes :: "Calibration \<Rightarrow> SensorConfiguration list \<Rightarrow> nat" where
  "calibration_changes k [] = 0"
| "calibration_changes k (c # cs) =
     (if same_calibration k (calibration c) then 0 else 1) + calibration_changes (calibration c) cs"

lemma apply_configuration_first:
  "sensor_configuration (health s) = None \<Longrightarrow>
     sensor_configuration (health (apply_configuration c s)) = Some (c\<lparr>revision := 1\<rparr>) \<and>
     calibration_change_count (health (apply_configuration c s)) = calibration_change_count (health s)"
  by (simp add: apply_configuration_def with_health_def)

lemma apply_configuration_next:
  assumes "sensor_configuration (health s) = Some previous"
    "d = (if same_calibration (calibration previous) (calibration c) then 0 else 1)"
  shows "sensor_configuration (health (apply_configuration c s)) =
           Some (c\<lparr>revision := revision previous + d\<rparr>) \<and>
         calibration_change_count (health (apply_configuration c s)) =
           calibration_change_count (health s) + d"
  using assms by (simp add: apply_configuration_def with_health_def)

lemma apply_configurations:
  assumes "sensor_configuration (health s) = Some previous"
  shows "\<exists>c. sensor_configuration (health (fold apply_configuration cs s)) = Some c \<and>
             calibration c = calibration (last (previous # cs)) \<and>
             revision c = revision previous + of_nat (calibration_changes (calibration previous) cs) \<and>
             calibration_change_count (health (fold apply_configuration cs s)) =
               calibration_change_count (health s) + of_nat (calibration_changes (calibration previous) cs)"
  using assms
proof (induction cs arbitrary: s previous)
  case Nil
  then show ?case by simp
next
  case (Cons c cs)
  let ?d = "if same_calibration (calibration previous) (calibration c) then 0 else 1 :: u64"
  let ?c = "c\<lparr>revision := revision previous + ?d\<rparr>"
  note step = apply_configuration_next [OF Cons.prems refl, of c]
  from Cons.IH [OF conjunct1 [OF step]] show ?case
    using step by (cases cs) (auto simp: algebra_simps)
qed

text \<open>
  Over the sessions of a client, the revision of the configuration is one more than the
  number of changes of calibration between consecutive sessions, so samples with the same
  revision were scaled alike, and the change counter counts the same changes.
\<close>

theorem revision_counts_changes:
  assumes "sensor_configuration (health s) = None"
  shows "\<exists>k. sensor_configuration (health (fold apply_configuration (c # cs) s)) = Some k \<and>
             calibration k = calibration (last (c # cs)) \<and>
             revision k = 1 + of_nat (calibration_changes (calibration c) cs) \<and>
             calibration_change_count (health (fold apply_configuration (c # cs) s)) =
               calibration_change_count (health s) + of_nat (calibration_changes (calibration c) cs)"
proof -
  note first = apply_configuration_first [OF assms, of c]
  from apply_configurations [OF conjunct1 [OF first], of cs] first show ?thesis
    by (cases cs) auto
qed

lemma revision_counts_changes_witness:
  "\<exists>k. sensor_configuration (health (fold apply_configuration
          [sample_configuration, sample_configuration\<lparr>source := SourceOverride\<rparr>] (Impl_init Config_default))) =
       Some k \<and> revision k = 1"
proof -
  have "calibration_changes (calibration sample_configuration)
      [sample_configuration\<lparr>source := SourceOverride\<rparr>] = 0"
    by (simp add: same_calibration_def sample_configuration_def)
  with revision_counts_changes [of "Impl_init Config_default" sample_configuration
      "[sample_configuration\<lparr>source := SourceOverride\<rparr>]"]
  show ?thesis by (auto simp: Impl_init_def HealthSnapshot_default_def)
qed

section \<open>Rate windows\<close>

text \<open>On a sorted list of times, pruning keeps exactly the times of the last second.\<close>

lemma prune_rate_window_filter:
  assumes "0 < period_num p" "sorted ts"
  shows "prune_rate_window p ts now = filter (\<lambda>t. (now - t) * period_num p \<le> period_den p) ts"
  using assms(2)
proof (induction ts)
  case Nil
  then show ?case by simp
next
  case (Cons t ts)
  show ?case
  proof (cases "(now - t) * period_num p > period_den p")
    case True
    with Cons show ?thesis by simp
  next
    case False
    have "(now - u) * period_num p \<le> (now - t) * period_num p" if "u \<in> set ts" for u
      using Cons.prems that assms(1) by (intro mult_right_mono) auto
    with False have "filter (\<lambda>t. (now - t) * period_num p \<le> period_den p) (t # ts) = t # ts"
      by (force simp: filter_id_conv)
    with False show ?thesis by simp
  qed
qed

text \<open>
  C33. The rate windows. After pushing the arrival times of a stream, in order, the window
  holds exactly the arrivals of the last second, so the reported rate is their number.
\<close>

theorem rate_window_is_last_second:
  assumes "0 < period_num p" "0 \<le> period_den p" "sorted (ts @ [arrival])"
  shows "fold (push_time p) (ts @ [arrival]) [] =
           filter (\<lambda>t. (arrival - t) * period_num p \<le> period_den p) (ts @ [arrival])"
  using assms(3)
proof (induction ts arbitrary: arrival rule: rev_induct)
  case Nil
  with assms(2) show ?case by (simp add: push_time_def)
next
  case (snoc u ts)
  let ?near = "\<lambda>now t. (now - t) * period_num p \<le> period_den p"
  have ua: "u \<le> arrival" "sorted (ts @ [u])" using snoc.prems by (auto simp: sorted_append)
  have mono: "?near u t" if "?near arrival t" for t
  proof -
    have "(u - t) * period_num p \<le> (arrival - t) * period_num p"
      using ua(1) assms(1) by (intro mult_right_mono) auto
    with that show ?thesis by linarith
  qed
  have "fold (push_time p) (ts @ [u]) [] = filter (?near u) (ts @ [u])"
    using snoc.IH [OF ua(2)] .
  then have "fold (push_time p) ((ts @ [u]) @ [arrival]) [] =
      prune_rate_window p (filter (?near u) (ts @ [u]) @ [arrival]) arrival"
    by (simp add: push_time_def)
  also have "\<dots> = filter (?near arrival) (filter (?near u) (ts @ [u]) @ [arrival])"
    using snoc.prems by (intro prune_rate_window_filter assms(1))
      (auto simp: sorted_append intro: sorted_wrt_filter)
  also have "\<dots> = filter (?near arrival) ((ts @ [u]) @ [arrival])"
    using mono assms(2) by (auto intro!: filter_cong)
  finally show ?case .
qed

lemma rate_window_is_last_second_witness:
  "fold (push_time linux_x86_64) ([1, 500000000] @ [1200000000]) [] = [500000000, 1200000000]"
  using rate_window_is_last_second [of linux_x86_64 "[1, 500000000]" 1200000000]
  by (simp add: linux_x86_64_def)

end
