(* ===== verification/Client_Session.thy ===== *)
theory Client_Session
  imports Client_Impl
begin

text \<open>
  Model of the worker of \<open>Client::Impl\<close> and of the calls other threads make meanwhile
  (\<open>src/src/detail/client_impl.cpp\<close>): \<open>handle_record\<close>, \<open>receive_session\<close>, \<open>run\<close>, and \<open>stop\<close>,
  \<open>bias\<close>, \<open>health\<close> as far as they act on the worker's state. Before each of its steps the worker
  yields: \<open>interference\<close> is what other threads (or the callback, through the client's own
  functions) did since the step before, and \<open>tick\<close> numbers the steps. The clock, the
  operating system, libcurl and the callback are functions of that number. Waiting on the
  condition variable in a backoff is one such step. The loops have a bound on their rounds.
\<close>

section \<open>Environment\<close>

datatype Backend = Posix "nat \<Rightarrow> PosixOs" | WinSock "nat \<Rightarrow> WinOs"

datatype CallbackResult = Returns | Throws string | ThrowsOther

record Env =
  env_platform :: platform
  clock :: "nat \<Rightarrow> int"
  interference :: "nat \<Rightarrow> Impl \<Rightarrow> Impl"
  backend :: Backend
  shutdown_seen :: "nat \<Rightarrow> nat \<Rightarrow> bool"
  wait_rounds :: nat
  curl_at :: "nat \<Rightarrow> Curl"
  float_env :: FloatEnvironment
  callback_at :: "nat \<Rightarrow> Sample \<Rightarrow> CallbackResult"

definition yield :: "Env \<Rightarrow> Impl \<Rightarrow> Impl" where
  "yield env s = (interference env (tick s) s)\<lparr>tick := Suc (tick s)\<rparr>"

definition clock_now :: "Env \<Rightarrow> Impl \<Rightarrow> int" where
  "clock_now env s = clock env (tick s)"

text \<open>The exceptions a handler for \<open>std::exception\<close> receives.\<close>

definition catchable :: "exn \<Rightarrow> bool" where
  "catchable e \<longleftrightarrow> e \<noteq> UndefinedBehaviour \<and> e \<noteq> Terminated"

section \<open>The transport of the client\<close>

definition net_connect :: "Env \<Rightarrow> Impl \<Rightarrow> (exn, unit) result \<times> Impl" where
  "net_connect env s =
     (case (case backend env of
              Posix os \<Rightarrow> posix_connect (os (tick s)) (sensor_host (config s)) (rdt_port (config s)) (udp s)
            | WinSock os \<Rightarrow> windows_connect (os (tick s)) (sensor_host (config s)) (rdt_port (config s)) (udp s))
      of (r, t) \<Rightarrow> (r, s\<lparr>udp := t\<rparr>))"

definition net_send :: "Env \<Rightarrow> Command \<Rightarrow> Impl \<Rightarrow> (exn, unit) result \<times> Impl" where
  "net_send env command s =
     (let request = encode_request command 0;
          r = (case backend env of
                 Posix os \<Rightarrow> posix_send (os (tick s)) request (udp s)
               | WinSock os \<Rightarrow> windows_send (os (tick s)) request (udp s))
      in (r, if r = Inr () then s\<lparr>sent := sent s @ [request]\<rparr> else s))"

definition net_receive :: "Env \<Rightarrow> nat \<Rightarrow> fp \<Rightarrow> Impl \<Rightarrow> (exn, u8 list) result option" where
  "net_receive env capacity timeout s =
     (case backend env of
        Posix os \<Rightarrow> posix_receive (wait_rounds env) (env_platform env) (os (tick s))
                      (shutdown_seen env (tick s)) capacity timeout (udp s)
      | WinSock os \<Rightarrow> windows_receive (wait_rounds env) (env_platform env) (os (tick s))
                      (shutdown_seen env (tick s)) capacity timeout (udp s))"

definition net_shutdown :: "Env \<Rightarrow> Impl \<Rightarrow> Impl" where
  "net_shutdown env s =
     s\<lparr>udp := (case backend env of Posix _ \<Rightarrow> posix_shutdown (udp s) | WinSock _ \<Rightarrow> windows_shutdown (udp s))\<rparr>"

definition net_close :: "Env \<Rightarrow> Impl \<Rightarrow> Impl" where
  "net_close env s =
     s\<lparr>udp := (case backend env of Posix _ \<Rightarrow> posix_close (udp s) | WinSock _ \<Rightarrow> windows_close (udp s))\<rparr>"

section \<open>Calls from other threads\<close>

text \<open>\<open>stop\<close> raises the flag first and then, under the command mutex, ends the stream.\<close>

definition stop_flag :: "Impl \<Rightarrow> Impl" where
  "stop_flag s = s\<lparr>stopping := True\<rparr>"

definition end_stream :: "Env \<Rightarrow> Impl \<Rightarrow> Impl" where
  "end_stream env s =
     (if session_started s then (snd (net_send env StopStreaming s))\<lparr>session_started := False\<rparr> else s)"

definition stop_command :: "Env \<Rightarrow> Impl \<Rightarrow> Impl" where
  "stop_command env s = net_shutdown env (end_stream env s)"

definition bias :: "Env \<Rightarrow> Impl \<Rightarrow> (exn, unit) result \<times> Impl" where
  "bias env s =
     (if stopping s \<or> \<not> session_started s \<or> faulted s \<or> state (health s) \<noteq> Streaming
      then (Inl (NotConnectedError ''client is not streaming''), s)
      else case net_send env SetSoftwareBias s of
             (Inl e, s1) \<Rightarrow> (Inl e, s1)
           | (Inr _, s1) \<Rightarrow>
               (case net_send env StartRealtime s1 of
                  (Inl e, s2) \<Rightarrow> (Inl e, s2)
                | (Inr _, s2) \<Rightarrow> (Inr (), s2\<lparr>rdt_tracker := rdt_reset (rdt_tracker s2)\<rparr>)))"

text \<open>The steps other threads can make while the worker runs.\<close>

inductive api_step :: "Env \<Rightarrow> Impl \<Rightarrow> Impl \<Rightarrow> bool" for env where
  api_stop_flag: "api_step env s (stop_flag s)"
| api_stop_command: "stopping s \<Longrightarrow> api_step env s (stop_command env s)"
| api_bias: "api_step env s (snd (bias env s))"
| api_health: "api_step env s (snd (client_health (env_platform env) now s))"

definition benign :: "Env \<Rightarrow> bool" where
  "benign env \<longleftrightarrow> (\<forall>n s. (api_step env)\<^sup>*\<^sup>* s (interference env n s))"

section \<open>One record\<close>

definition invoke_callback :: "Env \<Rightarrow> Sample \<Rightarrow> Impl \<Rightarrow> CallbackResult \<times> Impl" where
  "invoke_callback env sample s =
     (if callback_present s then (callback_at env (tick s) sample, s\<lparr>invoked := invoked s @ [sample]\<rparr>)
      else (Returns, s))"

definition deliver_sample ::
    "Env \<Rightarrow> Sample \<Rightarrow> int \<Rightarrow> SessionResult option \<Rightarrow> Impl \<Rightarrow> SessionResult option \<times> Impl" where
  "deliver_sample env sample arrival outcome s =
     (case invoke_callback env sample (yield env s) of
        (Returns, s1) \<Rightarrow> (outcome, record_delivery (env_platform env) sample arrival (yield env s1))
      | (Throws message, s1) \<Rightarrow>
          (callback_failure_outcome (config s1) outcome, record_callback_error message (yield env s1))
      | (ThrowsOther, s1) \<Rightarrow>
          (callback_failure_outcome (config s1) outcome,
           record_callback_error ''sample callback failed'' (yield env s1)))"

definition handle_record ::
    "Env \<Rightarrow> RawRecord \<Rightarrow> int \<Rightarrow> Impl \<Rightarrow> (exn, SessionResult option) result \<times> Impl" where
  "handle_record env record arrival s =
     (case observe_record (env_platform env) record arrival (yield env s) of
        (Inl e, s1) \<Rightarrow> (Inl e, s1)
      | (Inr (configuration, deliver, outcome), s1) \<Rightarrow>
          if \<not> deliver then (Inr outcome, s1)
          else let sample = make_sample (env_platform env) record configuration arrival
               in if \<not> sample_finite sample then (Inr (Some SessionSensorConfiguration), s1)
                  else case deliver_sample env sample arrival outcome s1 of (r, s2) \<Rightarrow> (Inr r, s2))"

section \<open>One session\<close>

definition outcome_of :: "SessionResult \<Rightarrow> string \<Rightarrow> bool \<Rightarrow> SessionOutcome" where
  "outcome_of r m valid = \<lparr>so_result = r, so_message = m, so_received_valid_record = valid\<rparr>"

definition kBufferSize :: nat where
  "kBufferSize = 65536"

text \<open>The end of a session whose deadline passed, under the data mutex.\<close>

definition finish_timeout :: "Env \<Rightarrow> bool \<Rightarrow> Impl \<Rightarrow> SessionOutcome \<times> Impl" where
  "finish_timeout env valid s =
     (let s1 = yield env s
      in if stopping s1 then (outcome_of SessionStopped [] valid, s1)
         else (outcome_of SessionTimeout [] valid, count_timeout s1))"

definition finish_error :: "Env \<Rightarrow> SessionResult \<Rightarrow> string \<Rightarrow> bool \<Rightarrow> Impl \<Rightarrow> SessionOutcome \<times> Impl" where
  "finish_error env r message valid s =
     (let s1 = yield env s
      in (outcome_of (if stopping s1 then SessionStopped else r) message valid, s1))"

text \<open>What the worker does before the receive loop: \<open>Inr None\<close> when the loop is entered.\<close>

definition open_session :: "Env \<Rightarrow> Impl \<Rightarrow> (exn, SessionOutcome option) result \<times> Impl" where
  "open_session env s =
     (let s0 = yield env s
      in case net_connect env s0 of
           (Inl e, s1) \<Rightarrow>
             if catchable e then
               (case finish_error env SessionSocket (what e) False s1 of (o1, s2) \<Rightarrow> (Inr (Some o1), s2))
             else (Inl e, s1)
         | (Inr _, s1) \<Rightarrow>
             (let s2 = yield env s1
              in if stopping s2 then (Inr (Some (outcome_of SessionStopped [] False)), s2)
                 else case net_send env StartRealtime s2 of
                        (Inl e, s3) \<Rightarrow>
                          if catchable e then
                            (case finish_error env SessionSocket (what e) False s3 of
                               (o1, s4) \<Rightarrow> (Inr (Some o1), s4))
                          else (Inl e, s3)
                      | (Inr _, s3) \<Rightarrow> (Inr None, s3\<lparr>session_started := True\<rparr>)))"

definition configure_session :: "Env \<Rightarrow> Impl \<Rightarrow> (exn, SessionOutcome option) result \<times> Impl" where
  "configure_session env s =
     (let s0 = set_client_state Connecting (yield env s); s1 = yield env s0
      in if stopping s1 then (Inr (Some (outcome_of SessionStopped [] False)), s1)
         else case configuration_for_session (env_platform env) (curl_at env (tick s1)) (float_env env) s1 of
                (Inl (DiscoveryError message), s2) \<Rightarrow>
                  (case finish_error env SessionSensorConfiguration message False s2 of
                     (o1, s3) \<Rightarrow> (Inr (Some o1), s3))
              | (Inl e, s2) \<Rightarrow> (Inl e, s2)
              | (Inr c, s2) \<Rightarrow>
                  (let s3 = yield env (apply_configuration c (yield env s2))
                   in if stopping s3 then (Inr (Some (outcome_of SessionStopped [] False)), s3)
                      else open_session env s3))"

fun session_loop ::
    "nat \<Rightarrow> Env \<Rightarrow> int \<Rightarrow> bool \<Rightarrow> Impl \<Rightarrow> ((exn, SessionOutcome) result \<times> Impl) option" where
  "session_loop 0 env deadline valid s = None"
| "session_loop (Suc fuel) env deadline valid s =
     (let s1 = yield env s; now = clock_now env s1
      in if stopping s1 then Some (Inr (outcome_of SessionStopped [] valid), s1)
         else if deadline \<le> now then
           (case finish_timeout env valid s1 of (o1, s2) \<Rightarrow> Some (Inr o1, s2))
         else case net_receive env kBufferSize (seconds_of_ticks (env_platform env) (deadline - now)) s1 of
           None \<Rightarrow> None
         | Some (Inl e) \<Rightarrow>
             if catchable e then
               (case finish_error env SessionSocket (what e) valid s1 of (o1, s2) \<Rightarrow> Some (Inr o1, s2))
             else Some (Inl e, s1)
         | Some (Inr data) \<Rightarrow>
             (let s2 = yield env s1
              in if stopping s2 then Some (Inr (outcome_of SessionStopped [] valid), s2)
                 else if data = [] then
                   (case finish_timeout env valid s2 of (o1, s3) \<Rightarrow> Some (Inr o1, s3))
                 else case decode_record (Some data) (length data) of
                   Inl (ProtocolError _) \<Rightarrow>
                     (case count_malformed (yield env s2) of (storm, s3) \<Rightarrow>
                        if storm then Some (Inr (outcome_of SessionMalformedStorm [] valid), s3)
                        else session_loop fuel env deadline valid s3)
                 | Inl e \<Rightarrow> Some (Inl e, s2)
                 | Inr record \<Rightarrow>
                     (let s3 = yield env s2; arrival = clock_now env s3;
                          s4 = s3\<lparr>consecutive_malformed := 0\<rparr>
                      in case checked_deadline (env_platform env) arrival (receive_timeout (config s4)) of
                           Inl e \<Rightarrow> Some (Inl e, s4)
                         | Inr deadline' \<Rightarrow>
                             (case handle_record env record arrival s4 of
                                (Inl e, s5) \<Rightarrow> Some (Inl e, s5)
                              | (Inr (Some r), s5) \<Rightarrow> Some (Inr (outcome_of r [] True), s5)
                              | (Inr None, s5) \<Rightarrow> session_loop fuel env deadline' True s5))))"

definition receive_session ::
    "nat \<Rightarrow> Env \<Rightarrow> Impl \<Rightarrow> ((exn, SessionOutcome) result \<times> Impl) option" where
  "receive_session fuel env s =
     (case configure_session env s of
        (Inl e, s1) \<Rightarrow> Some (Inl e, s1)
      | (Inr (Some o1), s1) \<Rightarrow> Some (Inr o1, s1)
      | (Inr None, s1) \<Rightarrow>
          (let s2 = begin_tracking (yield env s1); s3 = yield env s2
           in case checked_deadline (env_platform env) (clock_now env s3) (receive_timeout (config s3)) of
                Inl e \<Rightarrow> Some (Inl e, s3)
              | Inr deadline \<Rightarrow> session_loop fuel env deadline False s3))"

section \<open>The worker\<close>

definition close_session :: "Env \<Rightarrow> Impl \<Rightarrow> Impl" where
  "close_session env s = net_close env (end_stream env (yield env s))"

definition finish_session :: "Env \<Rightarrow> Impl \<Rightarrow> Impl" where
  "finish_session env s =
     (let s1 = (yield env (close_session env s))\<lparr>worker_exited := True\<rparr>; s2 = yield env s1
      in if \<not> faulted s2 then set_client_state Stopped (yield env s2) else s2)"

definition next_backoff :: "platform \<Rightarrow> Config \<Rightarrow> fp \<Rightarrow> fp" where
  "next_backoff p c backoff =
     fp_min (fp_mul binary64 (rounding_direction p) backoff (Finite 2)) (reconnect_max_delay c)"

fun run_loop :: "nat \<Rightarrow> Env \<Rightarrow> fp \<Rightarrow> Impl \<Rightarrow> ((exn, unit) result \<times> Impl) option" where
  "run_loop 0 env backoff s = None"
| "run_loop (Suc fuel) env backoff s =
     (let s1 = yield env s
      in if stopping s1 \<or> faulted s1 then Some (Inr (), s1)
         else case receive_session fuel env s1 of
           None \<Rightarrow> None
         | Some (Inl e, s2) \<Rightarrow> Some (Inl e, s2)
         | Some (Inr outcome, s2) \<Rightarrow>
             (let s3 = close_session env s2;
                  message = (if so_message outcome = [] then message_for (so_result outcome)
                             else so_message outcome);
                  s4 = yield env s3
              in if so_result outcome \<noteq> SessionStopped \<and> recovery_policy (config s4) = FailStop then
                   Some (Inr (), set_fault (fault_for (so_result outcome)) message s4)
                 else if so_result outcome = SessionStopped \<or> stopping s4 then Some (Inr (), s4)
                 else
                   let backoff' = (if so_received_valid_record outcome
                                   then reconnect_initial_delay (config s4) else backoff);
                       s5 = yield env (enter_backoff message (so_received_valid_record outcome) backoff' s4)
                   in case checked_deadline (env_platform env) (clock_now env s5) backoff' of
                        Inl e \<Rightarrow> Some (Inl e, s5)
                      | Inr _ \<Rightarrow>
                          run_loop fuel env (next_backoff (env_platform env) (config s5) backoff')
                            (yield env s5)))"

definition run :: "nat \<Rightarrow> Env \<Rightarrow> Impl \<Rightarrow> ((exn, unit) result \<times> Impl) option" where
  "run fuel env s =
     (case run_loop fuel env (reconnect_initial_delay (config s)) s of
        None \<Rightarrow> None
      | Some (Inr _, s1) \<Rightarrow> Some (Inr (), finish_session env s1)
      | Some (Inl e, s1) \<Rightarrow>
          if \<not> catchable e then Some (Inl e, s1)
          else let s2 = yield env s1;
                   s3 = (if \<not> stopping s2 then set_fault FaultSocket (what e) s2 else s2)
               in Some (Inr (), finish_session env s3))"

end
