(* ===== verification/Client_Worker.thy ===== *)
theory Client_Worker
  imports Client_Session
begin

text \<open>
  Invariants of the worker under every interleaving with calls from other threads. The
  locale \<open>session_steps\<close> lists the steps a predicate on the state has to survive; it then
  survives a record and a session, and with the step between sessions
  (\<open>session_invariant\<close>) the whole loop of the worker. The locales are interpreted for the
  calibrations and samples of the client, for the account of its socket, for the absence
  of faults and for what a session leaves alone.
\<close>

section \<open>Invariants step by step\<close>

text \<open>A state of the predicate, possibly with the fault of a failed session raised on it.\<close>

definition run_end :: "(Impl \<Rightarrow> bool) \<Rightarrow> Impl \<Rightarrow> bool" where
  "run_end P s' \<longleftrightarrow>
     (\<exists>s. P s \<and> (s' = s \<or> (\<exists>x m. x \<noteq> SessionStopped \<and> s' = set_fault (fault_for x) m s)))"

lemma run_end_here: "P s \<Longrightarrow> run_end P s"
  by (auto simp: run_end_def)

lemma run_end_fault: "P s \<Longrightarrow> x \<noteq> SessionStopped \<Longrightarrow> run_end P (set_fault (fault_for x) m s)"
  by (auto simp: run_end_def)

locale session_steps =
  fixes ok :: "Env \<Rightarrow> bool" and inv :: "Impl \<Rightarrow> bool"
  assumes inv_interference: "ok env \<Longrightarrow> inv s \<Longrightarrow> inv (interference env n s)"
    and inv_tick: "inv s \<Longrightarrow> inv (s\<lparr>tick := n\<rparr>)"
    and inv_observe: "ok env \<Longrightarrow> inv s \<Longrightarrow> inv (snd (observe_record (env_platform env) r arrival s))"
    and inv_invoke: "inv s \<Longrightarrow> sample_finite x \<Longrightarrow> inv (s\<lparr>invoked := invoked s @ [x]\<rparr>)"
    and inv_delivery: "ok env \<Longrightarrow> inv s \<Longrightarrow> sample_finite x \<Longrightarrow>
      inv (record_delivery (env_platform env) x arrival s)"
    and inv_callback_error: "inv s \<Longrightarrow> inv (record_callback_error m s)"
    and inv_connecting: "inv s \<Longrightarrow> inv (set_client_state Connecting s)"
    and inv_timeout: "inv s \<Longrightarrow> inv (count_timeout s)"
    and inv_malformed: "inv s \<Longrightarrow> inv (snd (count_malformed s))"
    and inv_well_formed: "inv s \<Longrightarrow> inv (s\<lparr>consecutive_malformed := 0\<rparr>)"
    and inv_tracking: "inv s \<Longrightarrow> inv (begin_tracking s)"
    and inv_configuration: "ok env \<Longrightarrow> inv s \<Longrightarrow>
      inv (snd (configuration_for_session (env_platform env) curl fe s))"
    and inv_apply: "ok env \<Longrightarrow> inv s \<Longrightarrow>
      fst (configuration_for_session (env_platform env) curl fe s) = Inr c \<Longrightarrow> inv t \<Longrightarrow>
      inv (apply_configuration c t)"
    and inv_connect: "ok env \<Longrightarrow> inv s \<Longrightarrow> inv (snd (net_connect env s))"
    and inv_send: "ok env \<Longrightarrow> inv s \<Longrightarrow> inv (snd (net_send env command s))"
    and inv_started: "ok env \<Longrightarrow> inv s \<Longrightarrow> fst (net_send env command s) = Inr () \<Longrightarrow>
      inv ((snd (net_send env command s))\<lparr>session_started := True\<rparr>)"
    and inv_ended: "inv s \<Longrightarrow> inv (s\<lparr>session_started := False\<rparr>)"
    and inv_close: "ok env \<Longrightarrow> inv s \<Longrightarrow> \<not> session_started s \<Longrightarrow> inv (net_close env s)"
begin

lemma inv_yield: "ok env \<Longrightarrow> inv s \<Longrightarrow> inv (yield env s)"
  by (simp add: yield_def inv_interference inv_tick)

lemma inv_end_stream: "ok env \<Longrightarrow> inv s \<Longrightarrow> inv (end_stream env s)"
  by (simp add: end_stream_def inv_send inv_ended)

lemma inv_close_session: "ok env \<Longrightarrow> inv s \<Longrightarrow> inv (close_session env s)"
proof -
  assume *: "ok env" "inv s"
  have "\<not> session_started (end_stream env (yield env s))" by (simp add: end_stream_def)
  with * show ?thesis
    unfolding close_session_def by (intro inv_close inv_end_stream inv_yield)
qed

lemma inv_deliver_sample:
  assumes "ok env" "inv s" "sample_finite x"
  shows "inv (snd (deliver_sample env x arrival oc s))"
proof -
  have "inv (snd (invoke_callback env x (yield env s)))"
    using assms by (simp add: invoke_callback_def inv_invoke inv_yield)
  then show ?thesis
    using assms unfolding deliver_sample_def
    by (auto split: prod.splits CallbackResult.splits
        intro!: inv_delivery inv_callback_error inv_yield)
qed

lemma inv_handle_record:
  assumes "ok env" "inv s"
  shows "inv (snd (handle_record env r arrival s))"
proof -
  obtain res s1 where o: "observe_record (env_platform env) r arrival (yield env s) = (res, s1)"
    by (cases "observe_record (env_platform env) r arrival (yield env s)")
  have s1: "inv s1" using inv_observe [OF assms(1) inv_yield [OF assms], of r arrival] o by simp
  show ?thesis
  proof (cases res)
    case (Inl e)
    with o s1 show ?thesis by (simp add: handle_record_def)
  next
    case (Inr x)
    then obtain c d oc where x: "x = (c, d, oc)" by (cases x) auto
    let ?x = "make_sample (env_platform env) r c arrival"
    have "inv (snd (deliver_sample env ?x arrival oc s1))" if "sample_finite ?x"
      using inv_deliver_sample [OF assms(1) s1 that] .
    with o Inr x s1 show ?thesis
      by (auto simp: handle_record_def Let_def split: prod.splits)
  qed
qed

lemma inv_finish_timeout: "ok env \<Longrightarrow> inv s \<Longrightarrow> inv (snd (finish_timeout env valid s))"
  by (simp add: finish_timeout_def Let_def inv_yield inv_timeout)

lemma inv_finish_error: "ok env \<Longrightarrow> inv s \<Longrightarrow> inv (snd (finish_error env r m valid s))"
  by (simp add: finish_error_def Let_def inv_yield)

lemma inv_open_session:
  assumes "ok env" "inv s"
  shows "inv (snd (open_session env s))"
proof -
  obtain r1 s1 where c: "net_connect env (yield env s) = (r1, s1)"
    by (cases "net_connect env (yield env s)")
  obtain r3 s3 where d: "net_send env StartRealtime (yield env s1) = (r3, s3)"
    by (cases "net_send env StartRealtime (yield env s1)")
  have s1: "inv s1" using inv_connect [OF assms(1) inv_yield [OF assms]] c by simp
  have s3: "inv s3" using inv_send [OF assms(1) inv_yield [OF assms(1) s1], of StartRealtime] d by simp
  have "inv (s3\<lparr>session_started := True\<rparr>)" if "r3 = Inr ()"
    using inv_started [OF assms(1) inv_yield [OF assms(1) s1], of StartRealtime] d that by simp
  moreover note inv_finish_error [OF assms(1) s1] inv_finish_error [OF assms(1) s3]
    inv_yield [OF assms(1) s1]
  ultimately show ?thesis
    unfolding open_session_def using c d s1 s3
    by (auto simp: Let_def split: sum.splits prod.splits) (metis snd_conv)+
qed

lemma inv_configure_session:
  assumes "ok env" "inv s"
  shows "inv (snd (configure_session env s))"
proof -
  let ?s1 = "yield env (set_client_state Connecting (yield env s))"
  obtain r2 s2 where c: "configuration_for_session (env_platform env) (curl_at env (tick ?s1))
      (float_env env) ?s1 = (r2, s2)"
    by (cases "configuration_for_session (env_platform env) (curl_at env (tick ?s1)) (float_env env) ?s1")
  have s1: "inv ?s1" using assms by (intro inv_yield inv_connecting)
  have s2: "inv s2"
    using inv_configuration [OF assms(1) s1, of "curl_at env (tick ?s1)" "float_env env"] c
    by simp
  have s3: "inv (yield env (apply_configuration k (yield env s2)))" if "r2 = Inr k" for k
    using inv_apply [OF assms(1) s1, of "curl_at env (tick ?s1)" "float_env env" k]
      c that s2 assms(1) by (simp add: inv_yield)
  show ?thesis
  proof (cases r2)
    case (Inl e)
    with c s1 s2 inv_finish_error [OF assms(1) s2] show ?thesis
      by (cases e) (auto simp: configure_session_def Let_def split: prod.splits, (metis snd_conv)+)
  next
    case (Inr k)
    with c s1 s3 [OF Inr] inv_open_session [OF assms(1) s3 [OF Inr]] show ?thesis
      by (simp add: configure_session_def Let_def)
  qed
qed

text \<open>One round of the receive loop: how it ends, or the state the next round starts in.\<close>

lemma inv_session_loop:
  assumes "ok env"
  shows "inv s \<Longrightarrow> session_loop fuel env deadline valid s = Some (r, s') \<Longrightarrow> inv s'"
proof (induction fuel arbitrary: s deadline valid)
  case 0
  then show ?case by simp
next
  case (Suc fuel)
  let ?s1 = "yield env s" let ?s2 = "yield env ?s1" let ?s3 = "yield env ?s2"
  let ?s4 = "?s3\<lparr>consecutive_malformed := 0\<rparr>"
  have s1: "inv ?s1" and s2: "inv ?s2" and s3: "inv ?s3" and s4: "inv ?s4"
    using Suc.prems(1) assms by (simp_all add: inv_yield inv_well_formed)
  have t1: "inv t" if "finish_timeout env v ?s1 = (o1, t)" for v o1 t
    using inv_finish_timeout [OF assms s1, of v] that by simp
  have t2: "inv t" if "finish_timeout env v ?s2 = (o1, t)" for v o1 t
    using inv_finish_timeout [OF assms s2, of v] that by simp
  have e1: "inv t" if "finish_error env x m v ?s1 = (o1, t)" for x m v o1 t
    using inv_finish_error [OF assms s1, of x m v] that by simp
  have m3: "inv t" if "count_malformed ?s3 = (b, t)" for b t
    using inv_malformed [OF s3] that by simp
  have h5: "inv t" if "handle_record env x arrival ?s4 = (y, t)" for x arrival y t
    using inv_handle_record [OF assms s4, of x arrival] that by simp
  have ml: "inv s'" if "count_malformed ?s3 = (b, t)" "session_loop fuel env d v t = Some (r, s')" for b t d v
    using Suc.IH [OF m3 [OF that(1)] that(2)] .
  have hl: "inv s'" if "handle_record env x arrival ?s4 = (y, t)"
      "session_loop fuel env d v t = Some (r, s')" for x arrival y t d v
    using Suc.IH [OF h5 [OF that(1)] that(2)] .
  from Suc.prems(2) show ?case
    using s1 s2 s4
    by (auto dest: m3 t1 t2 e1 h5 ml hl simp: Let_def split: if_splits option.splits sum.splits prod.splits exn.splits)
qed

lemma inv_receive_session:
  assumes "ok env" "inv s" "receive_session fuel env s = Some (r, s')"
  shows "inv s'"
proof -
  obtain x s1 where c: "configure_session env s = (x, s1)" by (cases "configure_session env s")
  have s1: "inv s1" using inv_configure_session [OF assms(1,2)] c by simp
  have s3: "inv (yield env (begin_tracking (yield env s1)))"
    using s1 assms(1) by (intro inv_yield inv_tracking)
  from assms(3) c s1 s3 inv_session_loop [OF assms(1) s3] show ?thesis
    by (auto simp: receive_session_def Let_def split: sum.splits option.splits)
qed

end

text \<open>A predicate that also survives the wait between two sessions.\<close>

locale session_invariant = session_steps +
  assumes inv_backoff: "inv s \<Longrightarrow> inv (enter_backoff m v d s)"
begin

text \<open>The loop of the worker ends in a state of the invariant, or in one with a fault just raised.\<close>

lemma inv_run_loop_result:
  assumes "ok env"
  shows "inv s \<Longrightarrow> run_loop fuel env backoff s = Some (r, s') \<Longrightarrow>
    if is_ok r then run_end inv s' else inv s'"
proof (induction fuel arbitrary: s backoff)
  case 0
  then show ?case by simp
next
  case (Suc fuel)
  let ?s1 = "yield env s"
  have s1: "inv ?s1" using Suc.prems(1) assms by (simp add: inv_yield)
  have s2: "inv t" if "receive_session fuel env ?s1 = Some (x, t)" for x t
    using inv_receive_session [OF assms s1 that] .
  have s4: "inv (yield env (close_session env t))" if "receive_session fuel env ?s1 = Some (x, t)" for x t
    using s2 [OF that] assms by (intro inv_yield inv_close_session)
  have s5: "inv (yield env (enter_backoff m v d (yield env (close_session env t))))"
    if "receive_session fuel env ?s1 = Some (x, t)" for x t m v d
    by (rule inv_yield [OF assms inv_backoff [OF s4 [OF that]]])
  have again: "if is_ok r then run_end inv s' else inv s'" if "receive_session fuel env ?s1 = Some (x, t)"
      "run_loop fuel env b (yield env (yield env (enter_backoff m v d (yield env (close_session env t))))) =
         Some (r, s')" for x t m v d b
    using Suc.IH [OF inv_yield [OF assms s5 [OF that(1)]] that(2)] .
  from Suc.prems(2) show ?case
    using s1 by (auto simp: Let_def split: if_splits option.splits sum.splits prod.splits
        dest: again intro: run_end_here run_end_fault s2 s4 s5)
qed

lemma inv_run_loop:
  assumes "ok env" "inv s" "run_loop fuel env backoff s = Some (r, s')"
  shows "run_end inv s'"
  using inv_run_loop_result [OF assms] by (auto intro: run_end_here split: if_splits)

lemma inv_run_loop_exception:
  assumes "ok env" "inv s" "run_loop fuel env backoff s = Some (Inl e, s')"
  shows "inv s'"
  using inv_run_loop_result [OF assms] by simp

end

section \<open>What a step leaves alone\<close>

text \<open>The parts of the state only the worker changes.\<close>

definition same_data :: "Impl \<Rightarrow> Impl \<Rightarrow> bool" where
  "same_data s t \<longleftrightarrow>
     config t = config s \<and> health t = health s \<and> fault_latch t = fault_latch s \<and>
     latest t = latest s \<and> invoked t = invoked s \<and> worker_exited t = worker_exited s \<and>
     generation t = generation s \<and> delivered_generation t = delivered_generation s \<and>
     callback_present t = callback_present s \<and> last_delivery_at t = last_delivery_at s \<and> waited t = waited s"

lemma same_data_refl [simp]: "same_data s s"
  by (simp add: same_data_def)

lemma same_data_trans: "same_data s t \<Longrightarrow> same_data t u \<Longrightarrow> same_data s u"
  by (simp add: same_data_def)

lemma net_send_udp [simp]:
  "udp (snd (net_send env c s)) = udp s" "session_started (snd (net_send env c s)) = session_started s"
  "stopping (snd (net_send env c s)) = stopping s"
  by (simp_all add: net_send_def Let_def)

lemma net_send_data [simp]: "same_data s (snd (net_send env c s))"
  by (simp add: net_send_def Let_def same_data_def)

lemma net_send_ok: "fst (net_send env c s) = Inr () \<Longrightarrow> holds_socket (udp s)"
  by (auto simp: net_send_def Let_def posix_send_def windows_send_def holds_socket_def
      split: Backend.splits if_splits)

lemma end_stream_udp [simp]:
  "udp (end_stream env s) = udp s" "\<not> session_started (end_stream env s)"
  "stopping (end_stream env s) = stopping s"
  by (simp_all add: end_stream_def)

lemma end_stream_data [simp]: "same_data s (end_stream env s)"
  using net_send_data [of s env StopStreaming] by (simp add: end_stream_def same_data_def)

lemma net_connect_data [simp]: "same_data s (snd (net_connect env s))"
  by (simp add: net_connect_def same_data_def split: Backend.splits prod.splits)

lemma net_close_data [simp]: "same_data s (net_close env s)"
  by (simp add: net_close_def same_data_def)

lemma bias_frame:
  "same_data s (snd (bias env s)) \<and> udp (snd (bias env s)) = udp s \<and>
   session_started (snd (bias env s)) = session_started s \<and> stopping (snd (bias env s)) = stopping s"
proof -
  obtain r1 s1 where 1: "net_send env SetSoftwareBias s = (r1, s1)"
    by (cases "net_send env SetSoftwareBias s")
  obtain r2 s2 where 2: "net_send env StartRealtime s1 = (r2, s2)"
    by (cases "net_send env StartRealtime s1")
  have s1: "same_data s s1 \<and> udp s1 = udp s \<and> session_started s1 = session_started s \<and> stopping s1 = stopping s"
    using net_send_data [of s env SetSoftwareBias] net_send_udp [of env SetSoftwareBias s] 1 by simp
  have s2: "same_data s1 s2 \<and> udp s2 = udp s1 \<and> session_started s2 = session_started s1 \<and> stopping s2 = stopping s1"
    using net_send_data [of s1 env StartRealtime] net_send_udp [of env StartRealtime s1] 2 by simp
  have "same_data s s2" using s1 s2 same_data_trans by blast
  then have "same_data s (s2\<lparr>rdt_tracker := t\<rparr>)" for t by (simp add: same_data_def)
  with s1 s2 1 2 \<open>same_data s s2\<close> show ?thesis
    by (cases r1; cases r2) (simp_all add: bias_def)
qed

lemma api_step_frame:
  assumes "api_step env s t"
  shows "same_data s t \<and> (stopping s \<longrightarrow> stopping t) \<and> (session_started t \<longrightarrow> session_started s) \<and>
         holds_socket (udp t) = holds_socket (udp s) \<and> open_sockets (udp t) = open_sockets (udp s) \<and>
         no_leak (udp t) = no_leak (udp s)"
  using assms
proof cases
  case api_stop_flag
  then show ?thesis by (simp add: stop_flag_def same_data_def)
next
  case api_stop_command
  have "same_data s (end_stream env s)" by simp
  then have "same_data s (net_shutdown env (end_stream env s))" by (simp add: same_data_def net_shutdown_def)
  then show ?thesis unfolding api_stop_command stop_command_def
    by (auto simp: net_shutdown_def posix_shutdown_def windows_shutdown_def holds_socket_def
        no_leak_def Let_def split: Backend.splits)
next
  case api_bias
  then show ?thesis using bias_frame [of s env] by auto
next
  case api_health
  then show ?thesis by (simp add: client_health_def same_data_def Let_def)
qed

lemma interference_frame:
  assumes "benign env"
  shows "same_data s (interference env n s) \<and> (stopping s \<longrightarrow> stopping (interference env n s)) \<and>
         (session_started (interference env n s) \<longrightarrow> session_started s) \<and>
         holds_socket (udp (interference env n s)) = holds_socket (udp s) \<and>
         open_sockets (udp (interference env n s)) = open_sockets (udp s) \<and>
         no_leak (udp (interference env n s)) = no_leak (udp s)"
proof -
  have "(api_step env)\<^sup>*\<^sup>* s (interference env n s)" using assms by (simp add: benign_def)
  then show ?thesis
  proof (induction rule: rtranclp_induct)
    case base
    then show ?case by simp
  next
    case (step t u)
    with api_step_frame [OF step.hyps(2)] same_data_trans [of s t u] show ?case by simp
  qed
qed

lemma yield_frame:
  assumes "benign env"
  shows "same_data s (yield env s)" "stopping s \<Longrightarrow> stopping (yield env s)"
    "session_started (yield env s) \<Longrightarrow> session_started s"
    "holds_socket (udp (yield env s)) = holds_socket (udp s)"
    "open_sockets (udp (yield env s)) = open_sockets (udp s)"
  using interference_frame [OF assms, of s "tick s"] by (auto simp: yield_def same_data_def)

section \<open>Invariants on the data of the worker\<close>

text \<open>
  A predicate on the data only the worker changes has far fewer steps to survive: calls
  from other threads and the transport leave it alone.
\<close>

locale data_steps =
  fixes inv :: "Impl \<Rightarrow> bool"
  assumes on_data: "same_data s t \<Longrightarrow> inv s \<Longrightarrow> inv t"
    and on_observe: "inv s \<Longrightarrow> inv (snd (observe_record p r arrival s))"
    and on_invoke: "inv s \<Longrightarrow> sample_finite x \<Longrightarrow> inv (s\<lparr>invoked := invoked s @ [x]\<rparr>)"
    and on_delivery: "inv s \<Longrightarrow> sample_finite x \<Longrightarrow> inv (record_delivery p x arrival s)"
    and on_callback_error: "inv s \<Longrightarrow> inv (record_callback_error m s)"
    and on_connecting: "inv s \<Longrightarrow> inv (set_client_state Connecting s)"
    and on_timeout: "inv s \<Longrightarrow> inv (count_timeout s)"
    and on_malformed: "inv s \<Longrightarrow> inv (snd (count_malformed s))"
    and on_apply: "inv s \<Longrightarrow> fst (configuration_for_session p curl fe s) = Inr c \<Longrightarrow> inv t \<Longrightarrow>
      inv (apply_configuration c t)"

sublocale data_steps \<subseteq> session_steps benign inv
proof
  fix env :: Env and s n
  show "benign env \<Longrightarrow> inv s \<Longrightarrow> inv (interference env n s)"
    using interference_frame [of env s n] on_data by blast
next
  fix env :: Env and s command
  show "inv s \<Longrightarrow> inv (snd (net_connect env s))" using net_connect_data on_data by blast
  show "inv s \<Longrightarrow> inv (net_close env s)" using net_close_data on_data by blast
  show send: "inv s \<Longrightarrow> inv (snd (net_send env command s))" using net_send_data on_data by blast
  have "same_data t (t\<lparr>session_started := b\<rparr>)" for t :: Impl and b by (simp add: same_data_def)
  then show "inv s \<Longrightarrow> fst (net_send env command s) = Inr () \<Longrightarrow>
      inv ((snd (net_send env command s))\<lparr>session_started := True\<rparr>)"
    using send on_data by blast
next
  fix s p curl fe
  have "same_data s (snd (configuration_for_session p curl fe s))"
    by (simp add: same_data_def configuration_for_session_def split: option.splits prod.splits)
  then show "inv s \<Longrightarrow> inv (snd (configuration_for_session p curl fe s))" using on_data by blast
next
  fix s :: Impl and n
  have "same_data s (s\<lparr>tick := n\<rparr>)" "same_data s (s\<lparr>consecutive_malformed := 0\<rparr>)"
    "same_data s (begin_tracking s)" "same_data s (s\<lparr>session_started := False\<rparr>)"
    by (simp_all add: same_data_def begin_tracking_def)
  then show "inv s \<Longrightarrow> inv (s\<lparr>tick := n\<rparr>)" "inv s \<Longrightarrow> inv (s\<lparr>consecutive_malformed := 0\<rparr>)"
    "inv s \<Longrightarrow> inv (begin_tracking s)" "inv s \<Longrightarrow> inv (s\<lparr>session_started := False\<rparr>)"
    using on_data by blast+
qed (blast intro: on_observe on_invoke on_delivery on_callback_error on_connecting on_timeout
    on_malformed on_apply)+

locale data_invariant = data_steps +
  assumes on_backoff: "inv s \<Longrightarrow> inv (enter_backoff m v d s)"

sublocale data_invariant \<subseteq> session_invariant benign inv
  by unfold_locales (fact on_backoff)

lemmas worker_step_defs =
  record_delivery_def record_callback_error_def set_client_state_def count_timeout_def
  count_malformed_def enter_backoff_def apply_configuration_def with_health_def Let_def

section \<open>Calibrations and samples\<close>

definition samples_ok :: "Impl \<Rightarrow> bool" where
  "samples_ok s \<longleftrightarrow>
     (\<forall>k. calibration_override (config s) = Some k \<longrightarrow> validate_calibration k = Inr ()) \<and>
     (\<forall>c. sensor_configuration (health s) = Some c \<longrightarrow> validate_calibration (calibration c) = Inr ()) \<and>
     list_all sample_finite (invoked s) \<and> (\<forall>x. latest s = Some x \<longrightarrow> sample_finite x)"

lemma samples_ok_same_data: "same_data s t \<Longrightarrow> samples_ok s \<Longrightarrow> samples_ok t"
  by (simp add: samples_ok_def same_data_def)

lemma discovered_calibration_valid:
  assumes "fst (discover_sensor p curl fe options ini) = Inr c"
  shows "validate_calibration (calibration c) = Inr ()"
proof -
  obtain xml where "parse_sensor_configuration fe xml = Inr c"
    using assms by (auto simp: discover_sensor_def finish_transfer_def bind_result_eq_Inr_iff Let_def
        split: sum.splits prod.splits if_splits)
  then show ?thesis by (auto simp: parse_sensor_configuration_def bind_result_eq_Inr_iff Let_def)
qed

lemma session_calibration_valid:
  assumes "samples_ok s" "fst (configuration_for_session p curl fe s) = Inr c"
  shows "validate_calibration (calibration c) = Inr ()"
  using assms discovered_calibration_valid
  by (auto simp: configuration_for_session_def samples_ok_def split: option.splits prod.splits)
    (metis fst_conv)

lemma sensor_configuration_counts [simp]:
  "sensor_configuration (count_rdt o1 h) = sensor_configuration h"
  "sensor_configuration (count_ft k h) = sensor_configuration h"
  "sensor_configuration (count_severity v h) = sensor_configuration h"
  by (simp_all add: count_rdt_def count_ft_def count_severity_def
      split: SequenceKind.splits FtSequenceKind.splits StatusSeverity.splits)

lemma observe_record_frame:
  "config (snd (observe_record p r arrival s)) = config s"
  "sensor_configuration (health (snd (observe_record p r arrival s))) = sensor_configuration (health s)"
  "invoked (snd (observe_record p r arrival s)) = invoked s"
  "latest (snd (observe_record p r arrival s)) = latest s"
  "udp (snd (observe_record p r arrival s)) = udp s"
  "session_started (snd (observe_record p r arrival s)) = session_started s"
  "fault_latch (snd (observe_record p r arrival s)) = fault_latch s"
  by (simp_all add: observe_record_def Let_def split: prod.splits option.splits)

interpretation samples: data_invariant samples_ok
proof
  fix p curl fe and s t :: Impl and c
  show "samples_ok (apply_configuration c t)"
    if "samples_ok s" "fst (configuration_for_session p curl fe s) = Inr c" "samples_ok t"
    using session_calibration_valid [OF that(1,2)] that(3)
    by (auto simp: samples_ok_def apply_configuration_def with_health_def split: option.splits)
qed (auto simp: samples_ok_def same_data_def observe_record_frame worker_step_defs)

section \<open>The socket of the client\<close>

definition fresh_os :: "Env \<Rightarrow> bool" where
  "fresh_os env \<longleftrightarrow>
     (case backend env of Posix os \<Rightarrow> \<forall>n. posix_fresh (os n) | WinSock os \<Rightarrow> \<forall>n. windows_fresh (os n))"

definition socket_ok :: "Impl \<Rightarrow> bool" where
  "socket_ok s \<longleftrightarrow> no_leak (udp s) \<and> (session_started s \<longrightarrow> holds_socket (udp s))"

lemma socket_ok_same: "udp t = udp s \<Longrightarrow> session_started t = session_started s \<Longrightarrow> socket_ok t = socket_ok s"
  by (simp add: socket_ok_def)

lemma net_connect_frame:
  "session_started (snd (net_connect env s)) = session_started s"
  "stopping (snd (net_connect env s)) = stopping s"
  by (simp_all add: net_connect_def split: Backend.splits prod.splits)

lemma net_connect_socket_ok:
  assumes "fresh_os env" "socket_ok s"
  shows "socket_ok (snd (net_connect env s))"
proof (cases "backend env")
  case (Posix os)
  let ?c = "(os (tick s), sensor_host (config s), rdt_port (config s))"
  have "no_leak (snd (posix_connect_call ?c (udp s)))"
    using posix.connect_tidy [of ?c "udp s"] assms Posix by (simp add: fresh_os_def socket_ok_def)
  moreover have "holds_socket (udp s) \<Longrightarrow> holds_socket (snd (posix_connect_call ?c (udp s)))"
    using posix.connect_ok [of ?c "udp s"] posix.connect_failed [of ?c "udp s"]
    by (cases "fst (posix_connect_call ?c (udp s))") auto
  ultimately show ?thesis
    using assms(2) Posix by (auto simp: net_connect_def socket_ok_def posix_connect_call_def split: prod.splits)
next
  case (WinSock os)
  let ?c = "(os (tick s), sensor_host (config s), rdt_port (config s))"
  have "no_leak (snd (windows_connect_call ?c (udp s)))"
    using windows.connect_tidy [of ?c "udp s"] assms WinSock by (simp add: fresh_os_def socket_ok_def)
  moreover have "holds_socket (udp s) \<Longrightarrow> holds_socket (snd (windows_connect_call ?c (udp s)))"
    using windows.connect_ok [of ?c "udp s"] windows.connect_failed [of ?c "udp s"]
    by (cases "fst (windows_connect_call ?c (udp s))") auto
  ultimately show ?thesis
    using assms(2) WinSock by (auto simp: net_connect_def socket_ok_def windows_connect_call_def split: prod.splits)
qed

lemma net_close_no_leak:
  "no_leak (udp s) \<Longrightarrow> no_leak (udp (net_close env s)) \<and> \<not> holds_socket (udp (net_close env s))"
  using posix.close_effect [of "udp s"] windows.close_effect [of "udp s"]
  by (simp add: net_close_def split: Backend.splits)

interpretation sockets: session_invariant "\<lambda>env. benign env \<and> fresh_os env" socket_ok
proof
  fix env :: Env and s n
  show "benign env \<and> fresh_os env \<Longrightarrow> socket_ok s \<Longrightarrow> socket_ok (interference env n s)"
    using interference_frame [of env s n] by (auto simp: socket_ok_def)
  show "benign env \<and> fresh_os env \<Longrightarrow> socket_ok s \<Longrightarrow> socket_ok (snd (net_connect env s))"
    using net_connect_socket_ok by blast
next
  fix s :: Impl and env command
  show "socket_ok s \<Longrightarrow> socket_ok (snd (net_send env command s))"
    by (simp add: socket_ok_def)
  show "socket_ok s \<Longrightarrow> fst (net_send env command s) = Inr () \<Longrightarrow>
      socket_ok ((snd (net_send env command s))\<lparr>session_started := True\<rparr>)"
    using net_send_ok [of env command s] by (simp add: socket_ok_def)
  show "socket_ok s \<Longrightarrow> \<not> session_started s \<Longrightarrow> socket_ok (net_close env s)"
    using net_close_no_leak [of s env] by (auto simp: socket_ok_def net_close_def)
qed (auto simp: socket_ok_def observe_record_frame record_delivery_def record_callback_error_def
    set_client_state_def count_timeout_def count_malformed_def begin_tracking_def enter_backoff_def
    apply_configuration_def configuration_for_session_def
    with_health_def Let_def split: option.splits prod.splits)

section \<open>No fault during a session\<close>

definition fault_free :: "Impl \<Rightarrow> bool" where
  "fault_free s \<longleftrightarrow> \<not> faulted s \<and> fault_code (health s) = FaultNone"

lemma fault_code_counts [simp]:
  "fault_code (count_rdt o1 h) = fault_code h"
  "fault_code (count_ft k h) = fault_code h"
  "fault_code (count_severity v h) = fault_code h"
  by (simp_all add: count_rdt_def count_ft_def count_severity_def
      split: SequenceKind.splits FtSequenceKind.splits StatusSeverity.splits)

lemma observe_record_fault_code:
  "fault_code (health (snd (observe_record p r arrival s))) = fault_code (health s)"
  by (simp add: observe_record_def Let_def split: prod.splits option.splits)

interpretation faults: data_invariant fault_free
  by unfold_locales
    (auto simp: fault_free_def faulted_def same_data_def observe_record_frame
      observe_record_fault_code worker_step_defs split: option.splits)

section \<open>What a session leaves alone\<close>

lemma reconnect_count_counts [simp]:
  "reconnect_count (count_rdt o1 h) = reconnect_count h"
  "reconnect_count (count_ft k h) = reconnect_count h"
  "reconnect_count (count_severity v h) = reconnect_count h"
  by (simp_all add: count_rdt_def count_ft_def count_severity_def
      split: SequenceKind.splits FtSequenceKind.splits StatusSeverity.splits)

lemma observe_record_reconnect_count:
  "reconnect_count (health (snd (observe_record p r arrival s))) = reconnect_count (health s)"
  by (simp add: observe_record_def Let_def split: prod.splits option.splits)

definition attempts :: "Config \<Rightarrow> u64 \<Rightarrow> Impl \<Rightarrow> bool" where
  "attempts c n s \<longleftrightarrow> config s = c \<and> reconnect_count (health s) = n"

interpretation attempt: data_steps "attempts c n" for c n
  by unfold_locales
    (auto simp: attempts_def same_data_def observe_record_frame observe_record_reconnect_count
      worker_step_defs split: option.splits)

text \<open>The configuration of the client never changes.\<close>

definition configured_as :: "Config \<Rightarrow> Impl \<Rightarrow> bool" where
  "configured_as c s \<longleftrightarrow> config s = c"

interpretation configured: data_invariant "configured_as c" for c
  by unfold_locales
    (auto simp: configured_as_def same_data_def observe_record_frame worker_step_defs)

end
