(* ===== verification/Client_Run.thy ===== *)
theory Client_Run
  imports Client_Worker
begin

text \<open>
  Properties of the worker as a whole: what the samples it delivers and the state it ends
  in look like, when it gives up under each recovery policy, that it ends once a stop has
  been requested, and what a bias request does to the sequence tracking.
\<close>

section \<open>Scaling of samples\<close>

lemma scaled_axis_finite:
  assumes "validate_calibration c = Inr ()" "in_i32 n"
  shows "fp_isfinite (scale_axis p n (counts_per_force_unit c))"
    "fp_isfinite (scale_axis p n (counts_per_torque_unit c))"
  using validate_calibration_ok(1,2) [OF assms(1)] count_quotient_finite [of n] assms(2)
  by (auto simp: scale_axis_def in_i32_def) (metis fp_isfinite.simps(1))+

lemma valid_sample_finite:
  "validate_calibration (calibration k) = Inr () \<Longrightarrow> record_in_range r \<Longrightarrow>
     sample_finite (make_sample p r k arrival)"
  by (simp add: sample_finite_def make_sample_def record_in_range_def scaled_axis_finite Let_def)

lemma decoded_in_range: "decode_record (Some d) n = Inr r \<Longrightarrow> record_in_range r"
  by (auto simp: decode_record_def record_in_range_def read_i32_range split: if_splits)

lemma session_outcome_values:
  "session_outcome_of c ft v \<in> {None, Some SessionSeriousStatus, Some SessionFtStall, Some SessionFtBackward}"
  by (simp add: session_outcome_of_cases)

lemma deliver_sample_outcome:
  "fst (deliver_sample env x arrival oc s) \<in> {oc, Some SessionCallback}"
  by (auto simp: deliver_sample_def callback_failure_outcome_def split: prod.splits CallbackResult.splits)

lemma observe_record_Inr:
  assumes "observe_record p r arrival s = (Inr (k, d, oc), s1)"
  shows "sensor_configuration (health s) = Some k"
    "oc \<in> {None, Some SessionSeriousStatus, Some SessionFtStall, Some SessionFtBackward}"
proof -
  show k: "sensor_configuration (health s) = Some k"
    using assms observe_record_unconfigured [of s p r arrival] observe_record_result [of s _ p r arrival]
    by (cases "sensor_configuration (health s)") auto
  show "oc \<in> {None, Some SessionSeriousStatus, Some SessionFtStall, Some SessionFtBackward}"
    using observe_record_result [OF k, of p r arrival] assms session_outcome_values by auto
qed

text \<open>
  A datagram that decodes never ends a session with a configuration error: the
  calibration in force has passed validation, so every axis of the sample is finite, and
  the guard on the scaled values in \<open>handle_record\<close> never fires, whatever other threads do.
\<close>

theorem decoded_record_scales:
  assumes "benign env" "samples_ok s" "decode_record (Some datagram) n = Inr r"
  shows "fst (handle_record env r arrival s) \<noteq> Inr (Some SessionSensorConfiguration)"
proof -
  have y: "samples_ok (yield env s)" using assms(1,2) by (rule samples.inv_yield)
  obtain x s1 where o: "observe_record (env_platform env) r arrival (yield env s) = (x, s1)"
    by (cases "observe_record (env_platform env) r arrival (yield env s)")
  show ?thesis
  proof (cases x)
    case (Inl e)
    with o show ?thesis by (simp add: handle_record_def)
  next
    case (Inr z)
    then obtain k d oc where z: "z = (k, d, oc)" by (cases z) auto
    note facts = observe_record_Inr [OF o [unfolded Inr z]]
    have "sample_finite (make_sample (env_platform env) r k arrival)"
      using facts(1) y decoded_in_range [OF assms(3)] by (intro valid_sample_finite) (auto simp: samples_ok_def)
    with o Inr z facts(2) deliver_sample_outcome show ?thesis
      by (auto simp: handle_record_def Let_def split: prod.splits) (metis fst_conv insert_iff option.inject
          option.distinct(1) SessionResult.distinct singletonD)+
  qed
qed

text \<open>An environment without other threads, for the examples.\<close>

definition quiet_env :: Env where
  "quiet_env =
     \<lparr>env_platform = linux_x86_64, clock = (\<lambda>n. int n + 1), interference = (\<lambda>_ s. s),
      backend = Posix (\<lambda>_. sample_posix), shutdown_seen = (\<lambda>_ _. False), wait_rounds = 6,
      curl_at = (\<lambda>_. answering []),
      float_env = \<lparr>hold_succeeds = True, current_direction = Some ToNearest, select_succeeds = True,
                   restore_succeeds = True\<rparr>,
      callback_at = (\<lambda>_ _. Returns)\<rparr>"

lemma benign_quiet_env: "benign quiet_env"
  by (simp add: benign_def quiet_env_def)

lemma samples_ok_sample_client: "samples_ok sample_client"
proof -
  have "validate_calibration (calibration sample_configuration) = Inr ()"
    unfolding sample_configuration_def by (simp add: validate_calibration_counts)
  moreover have "invoked sample_client = []" "latest sample_client = None"
    by (simp_all add: sample_client_def apply_configuration_def with_health_def Impl_init_def)
  ultimately show ?thesis
    by (simp add: samples_ok_def sample_client_configuration sample_client_config Config_default_def)
qed

lemma decoded_record_scales_witness:
  "\<exists>r. decode_record (Some (replicate 36 0)) 36 = Inr r \<and>
       fst (handle_record quiet_env r 5 sample_client) \<noteq> Inr (Some SessionSensorConfiguration)"
proof -
  obtain r where r: "decode_record (Some (replicate 36 0)) 36 = Inr r"
    by (simp add: decode_record_def)
  from decoded_record_scales [OF benign_quiet_env samples_ok_sample_client r] r show ?thesis by blast
qed

section \<open>The end of the worker\<close>

lemma set_fault_frame:
  "config (set_fault code m s) = config s" "udp (set_fault code m s) = udp s"
  "session_started (set_fault code m s) = session_started s" "invoked (set_fault code m s) = invoked s"
  "latest (set_fault code m s) = latest s" "stopping (set_fault code m s) = stopping s"
  "sensor_configuration (health (set_fault code m s)) = sensor_configuration (health s)"
  "reconnect_count (health (set_fault code m s)) = reconnect_count (health s)"
  by (simp_all add: set_fault_def publish_def split: prod.splits)

text \<open>The fault shown in the health record is the one the latch holds.\<close>

definition fault_consistent :: "Impl \<Rightarrow> bool" where
  "fault_consistent s \<longleftrightarrow>
     (if faulted s then state (health s) = Faulted \<and> fault_code (health s) = client_fault_code s
      else fault_code (health s) = FaultNone)"

lemma fault_free_consistent: "fault_free s \<Longrightarrow> fault_consistent s"
  by (simp add: fault_free_def fault_consistent_def)

lemma set_fault_consistent:
  "fault_consistent s \<Longrightarrow> code \<noteq> FaultNone \<Longrightarrow> fault_consistent (set_fault code m s)"
  by (auto simp: fault_consistent_def set_fault_def publish_def faulted_def latch_faulted_def
      client_fault_code_def latch_code_def)

lemma set_fault_faulted: "code \<noteq> FaultNone \<Longrightarrow> faulted (set_fault code m s)"
  by (auto simp: set_fault_def publish_def faulted_def latch_faulted_def)

lemma set_fault_code: "\<not> faulted s \<Longrightarrow> client_fault_code (set_fault code m s) = code"
  by (simp add: set_fault_def publish_def faulted_def latch_faulted_def client_fault_code_def latch_code_def)

lemma fault_for_not_None: "x \<noteq> SessionStopped \<Longrightarrow> fault_for x \<noteq> FaultNone"
  by (cases x) auto

lemma run_end_consistent: "run_end fault_free s \<Longrightarrow> fault_consistent s"
  by (auto simp: run_end_def fault_free_consistent set_fault_consistent fault_for_not_None)

lemma consistent_same_data: "same_data s t \<Longrightarrow> fault_consistent t = fault_consistent s"
  by (simp add: fault_consistent_def faulted_def client_fault_code_def same_data_def)

text \<open>A client whose transport is closed.\<close>

definition transport_closed :: "Impl \<Rightarrow> bool" where
  "transport_closed s \<longleftrightarrow> \<not> session_started s \<and> open_sockets (udp s) = [] \<and> \<not> holds_socket (udp s)"

lemma close_session_closed:
  assumes "benign env" "no_leak (udp s)"
  shows "transport_closed (close_session env s)"
proof -
  let ?s = "end_stream env (yield env s)"
  have "no_leak (udp ?s)"
    using assms interference_frame [of env s "tick s"] by (simp add: yield_def)
  from net_close_no_leak [OF this, of env]
  show ?thesis by (auto simp: close_session_def transport_closed_def no_leak_def holds_socket_def)
    (simp add: net_close_def)
qed

lemma yield_closed: "benign env \<Longrightarrow> transport_closed s \<Longrightarrow> transport_closed (yield env s)"
  using yield_frame [of env s] by (auto simp: transport_closed_def)

lemma close_session_data: "benign env \<Longrightarrow> same_data s (close_session env s)"
  unfolding close_session_def
  using yield_frame(1) [of env s] end_stream_data [of "yield env s" env]
    net_close_data [of "end_stream env (yield env s)" env] same_data_trans by blast

lemma close_session_stopping: "benign env \<Longrightarrow> stopping s \<Longrightarrow> stopping (close_session env s)"
  using yield_frame(2) [of env s] by (simp add: close_session_def net_close_def)

text \<open>The state after \<open>finish_session\<close>: what it changes of the worker's data, and the transport.\<close>

lemma finish_session_data:
  assumes "benign env"
  shows "health (finish_session env s) =
           (if faulted s then health s else (health s)\<lparr>state := Stopped\<rparr>)"
    "fault_latch (finish_session env s) = fault_latch s" "config (finish_session env s) = config s"
    "invoked (finish_session env s) = invoked s" "latest (finish_session env s) = latest s"
    "worker_exited (finish_session env s)"
    "stopping s \<Longrightarrow> stopping (finish_session env s)"
proof -
  let ?c = "close_session env s"
  let ?s1 = "(yield env ?c)\<lparr>worker_exited := True\<rparr>"
  let ?s2 = "yield env ?s1" let ?s3 = "yield env ?s2"
  note y = yield_frame [OF assms(1)]
  have "same_data s (yield env ?c)"
    using close_session_data [OF assms(1), of s] y(1) [of ?c] same_data_trans by blast
  then have "health ?s1 = health s \<and> fault_latch ?s1 = fault_latch s \<and> config ?s1 = config s \<and>
      invoked ?s1 = invoked s \<and> latest ?s1 = latest s \<and> worker_exited ?s1"
    by (simp add: same_data_def)
  moreover from this have "health ?s2 = health s \<and> fault_latch ?s2 = fault_latch s \<and> config ?s2 = config s \<and>
      invoked ?s2 = invoked s \<and> latest ?s2 = latest s \<and> worker_exited ?s2"
    using y(1) [of ?s1] by (simp add: same_data_def)
  moreover from this have "health ?s3 = health s \<and> fault_latch ?s3 = fault_latch s \<and> config ?s3 = config s \<and>
      invoked ?s3 = invoked s \<and> latest ?s3 = latest s \<and> worker_exited ?s3"
    using y(1) [of ?s2] by (simp add: same_data_def)
  ultimately show "health (finish_session env s) =
      (if faulted s then health s else (health s)\<lparr>state := Stopped\<rparr>)"
    "fault_latch (finish_session env s) = fault_latch s" "config (finish_session env s) = config s"
    "invoked (finish_session env s) = invoked s" "latest (finish_session env s) = latest s"
    "worker_exited (finish_session env s)"
    by (simp_all add: finish_session_def Let_def set_client_state_def with_health_def faulted_def)
  assume "stopping s"
  then have "stopping ?s1" using close_session_stopping [OF assms] y(2) by simp
  then have "stopping ?s2" "stopping ?s3" using y(2) by blast+
  then show "stopping (finish_session env s)"
    by (simp add: finish_session_def Let_def set_client_state_def with_health_def)
qed

lemma finish_session_closed:
  assumes "benign env" "no_leak (udp s)"
  shows "transport_closed (finish_session env s)"
proof -
  let ?s1 = "(yield env (close_session env s))\<lparr>worker_exited := True\<rparr>"
  have "transport_closed (yield env (close_session env s))"
    using close_session_closed [OF assms] assms(1) by (rule yield_closed [rotated])
  then have "transport_closed ?s1" by (simp add: transport_closed_def)
  then have "transport_closed (yield env ?s1)" "transport_closed (yield env (yield env ?s1))"
    using assms(1) by (simp_all add: yield_closed)
  then show ?thesis
    by (simp add: finish_session_def Let_def set_client_state_def with_health_def transport_closed_def)
qed

lemma finish_session_faulted:
  "benign env \<Longrightarrow> faulted (finish_session env s) = faulted s"
  "benign env \<Longrightarrow> client_fault_code (finish_session env s) = client_fault_code s"
  by (simp_all add: faulted_def client_fault_code_def finish_session_data)

lemma run_end_no_leak: "run_end socket_ok s \<Longrightarrow> no_leak (udp s)"
  by (auto simp: run_end_def socket_ok_def set_fault_frame)

lemma yield_no_leak: "benign env \<Longrightarrow> no_leak (udp (yield env s)) = no_leak (udp s)"
  using interference_frame [of env s "tick s"] by (simp add: yield_def)

text \<open>How \<open>run\<close> ends: \<open>finish_session\<close> on the state the loop ends in, with a fault after an exception.\<close>

lemma run_cases:
  assumes "benign env" "fault_free s" "run fuel env s = Some (Inr u, s')"
  obtains r s1 s2 where "run_loop fuel env (reconnect_initial_delay (config s)) s = Some (r, s1)"
    "s' = finish_session env s2" "fault_consistent s2" "udp s2 = udp s1 \<or> udp s2 = udp (yield env s1)"
    "r = Inr () \<Longrightarrow> s2 = s1"
    "r \<noteq> Inr () \<Longrightarrow> stopping s2 \<or> faulted s2"
proof -
  obtain r s1 where l: "run_loop fuel env (reconnect_initial_delay (config s)) s = Some (r, s1)"
    using assms(3) by (auto simp: run_def split: option.splits)
  have c1: "fault_consistent s1" using faults.inv_run_loop [OF assms(1,2) l] by (rule run_end_consistent)
  have c2: "fault_consistent (yield env s1)"
    using yield_frame(1) [OF assms(1), of s1] c1 consistent_same_data by blast
  show thesis
  proof (cases r)
    case (Inr v)
    with l assms(3) c1 that [OF l, of s1] show thesis by (simp add: run_def)
  next
    case (Inl e)
    let ?s2 = "if \<not> stopping (yield env s1) then set_fault FaultSocket (what e) (yield env s1) else yield env s1"
    have "s' = finish_session env ?s2"
      using Inl l assms(3) by (auto simp: run_def Let_def split: if_splits)
    moreover have "fault_consistent ?s2" using c2 by (simp add: set_fault_consistent)
    ultimately show thesis
      using Inl that [OF l, of ?s2] by (simp add: set_fault_frame set_fault_faulted)
  qed
qed

text \<open>
  C7. When the worker returns, whatever happened and whatever other threads did meanwhile,
  the session is closed, every descriptor it opened is closed, it is marked as exited, and
  the health record shows \<open>Stopped\<close>, or \<open>Faulted\<close> with the code the fault latch holds.
\<close>

theorem worker_end_state:
  assumes "benign env" "fresh_os env" "fault_free s" "socket_ok s"
    and "run fuel env s = Some (Inr u, s')"
  shows "worker_exited s' \<and> \<not> session_started s' \<and> open_sockets (udp s') = [] \<and>
         (if faulted s' then state (health s') = Faulted \<and> fault_code (health s') = client_fault_code s'
          else state (health s') = Stopped \<and> fault_code (health s') = FaultNone)"
proof -
  obtain r s1 s2 where l: "run_loop fuel env (reconnect_initial_delay (config s)) s = Some (r, s1)"
    and s': "s' = finish_session env s2" and c: "fault_consistent s2"
    and u: "udp s2 = udp s1 \<or> udp s2 = udp (yield env s1)"
    using run_cases [OF assms(1,3,5)] by metis
  have "no_leak (udp s1)"
    using sockets.inv_run_loop [OF _ assms(4) l] assms(1,2) run_end_no_leak by blast
  then have "no_leak (udp s2)" using u yield_no_leak [OF assms(1)] by metis
  from finish_session_closed [OF assms(1) this] c show ?thesis
    unfolding s' by (auto simp: transport_closed_def fault_consistent_def
        finish_session_faulted [OF assms(1)] finish_session_data [OF assms(1)])
qed

text \<open>A stop requested before the worker's first step.\<close>

definition stopped_env :: Env where
  "stopped_env = quiet_env\<lparr>interference := \<lambda>_ s. stop_flag s\<rparr>"

lemma benign_stopped_env: "benign stopped_env"
  by (auto simp: benign_def stopped_env_def intro: api_stop_flag)

lemma fresh_sample_posix: "posix_fresh sample_posix"
  by (auto simp: posix_fresh_def sample_posix_def)

lemma worker_end_state_witness:
  "\<exists>s'. run 1 stopped_env (Impl_init Config_default) = Some (Inr (), s') \<and> worker_exited s' \<and>
        state (health s') = Stopped"
proof -
  let ?s = "Impl_init Config_default"
  obtain s' where r: "run 1 stopped_env ?s = Some (Inr (), s')"
    by (simp add: run_def yield_def stopped_env_def stop_flag_def)
  have "fault_free ?s" "socket_ok ?s" "fresh_os stopped_env"
    by (simp_all add: fault_free_def faulted_def latch_faulted_def Impl_init_def FaultLatch_init_def
        HealthSnapshot_default_def socket_ok_def no_leak_init fresh_os_def stopped_env_def quiet_env_def
        fresh_sample_posix)
  from worker_end_state [OF benign_stopped_env this(3,1,2) r]
  have e: "worker_exited s'" "if faulted s' then True else state (health s') = Stopped" by auto
  have "\<not> faulted s'"
    using r by (auto simp: run_def yield_def stopped_env_def stop_flag_def finish_session_def Let_def
        faulted_def latch_faulted_def set_client_state_def with_health_def close_session_def
        net_close_def end_stream_def Impl_init_def FaultLatch_init_def)
  with e r show ?thesis by auto
qed

text \<open>
  The samples of a client. Every sample handed to the callback and the one kept as the
  latest have finite forces and torques, and the configuration in force has a calibration
  that passed validation, over a whole run of the worker with any interference.
\<close>

theorem worker_samples_finite:
  assumes "benign env" "samples_ok s" "run fuel env s = Some (Inr u, s')"
  shows "list_all sample_finite (invoked s') \<and> (\<forall>x. latest s' = Some x \<longrightarrow> sample_finite x) \<and>
         (\<forall>c. sensor_configuration (health s') = Some c \<longrightarrow>
              validate_calibration (calibration c) = Inr ())"
proof -
  obtain r s1 where l: "run_loop fuel env (reconnect_initial_delay (config s)) s = Some (r, s1)"
    using assms(3) by (auto simp: run_def split: option.splits)
  have s1: "samples_ok s1"
    using samples.inv_run_loop [OF assms(1,2) l] by (auto simp: run_end_def samples_ok_def set_fault_frame)
  have fin: "samples_ok (finish_session env t)" if "samples_ok t" for t
    using that by (simp add: samples_ok_def finish_session_data [OF assms(1)])
  have y: "samples_ok (yield env s1)" using assms(1) s1 by (rule samples.inv_yield)
  then have "samples_ok (set_fault c m (yield env s1))" for c m by (simp add: samples_ok_def set_fault_frame)
  with fin y s1 l assms(3) have "samples_ok s'"
    by (auto simp: run_def Let_def split: sum.splits if_splits)
  then show ?thesis by (simp add: samples_ok_def)
qed

lemma worker_samples_finite_witness:
  "\<exists>s'. run 1 stopped_env sample_client = Some (Inr (), s') \<and> list_all sample_finite (invoked s')"
proof -
  obtain s' where r: "run 1 stopped_env sample_client = Some (Inr (), s')"
    by (simp add: run_def yield_def stopped_env_def stop_flag_def)
  from worker_samples_finite [OF benign_stopped_env samples_ok_sample_client r] r show ?thesis by blast
qed

section \<open>When the worker gives up\<close>

text \<open>A session ends as stopped only when a stop has been requested.\<close>

definition stop_justified :: "SessionOutcome \<Rightarrow> Impl \<Rightarrow> bool" where
  "stop_justified oc s \<longleftrightarrow> (so_result oc = SessionStopped \<longrightarrow> stopping s)"

lemma handle_record_not_stopped: "fst (handle_record env r arrival s) \<noteq> Inr (Some SessionStopped)"
proof -
  obtain x s1 where o: "observe_record (env_platform env) r arrival (yield env s) = (x, s1)"
    by (cases "observe_record (env_platform env) r arrival (yield env s)")
  show ?thesis
  proof (cases x)
    case (Inl e)
    with o show ?thesis by (simp add: handle_record_def)
  next
    case (Inr z)
    then obtain k d oc where z: "z = (k, d, oc)" by (cases z) auto
    have "oc \<noteq> Some SessionStopped" using observe_record_Inr(2) [OF o [unfolded Inr z]] by auto
    with o Inr z deliver_sample_outcome [of env _ arrival oc s1] show ?thesis
      by (auto simp: handle_record_def Let_def split: prod.splits) (metis fst_conv insert_iff option.inject
          SessionResult.distinct(15) singletonD)+
  qed
qed

lemma finish_timeout_justified: "finish_timeout env v s = (oc, t) \<Longrightarrow> stop_justified oc t"
  by (auto simp: finish_timeout_def outcome_of_def stop_justified_def Let_def split: if_splits)

lemma finish_error_justified:
  "finish_error env x m v s = (oc, t) \<Longrightarrow> x \<noteq> SessionStopped \<Longrightarrow> stop_justified oc t"
  by (auto simp: finish_error_def outcome_of_def stop_justified_def Let_def split: if_splits)

lemma stop_justified_simps:
  "stopping s \<Longrightarrow> stop_justified oc s" "x \<noteq> SessionStopped \<Longrightarrow> stop_justified (outcome_of x m v) s"
  by (simp_all add: stop_justified_def outcome_of_def)

lemma session_loop_justified:
  "session_loop fuel env deadline valid s = Some (Inr oc, s') \<Longrightarrow> stop_justified oc s'"
proof (induction fuel arbitrary: deadline valid s)
  case 0
  then show ?case by simp
next
  case (Suc fuel)
  have h: "x \<noteq> SessionStopped" if "handle_record env r arrival t = (Inr (Some x), u)" for r arrival t x u
    using handle_record_not_stopped [of env r arrival t] that by auto
  from Suc.prems show ?case
    by (auto simp: Let_def stop_justified_simps
        split: if_splits option.splits sum.splits prod.splits exn.splits
        dest: Suc.IH finish_timeout_justified finish_error_justified h)
qed

lemma open_session_justified:
  "open_session env s = (Inr (Some oc), s') \<Longrightarrow> stop_justified oc s'"
  by (auto simp: open_session_def Let_def stop_justified_simps
      split: if_splits sum.splits prod.splits dest: finish_error_justified)

lemma configure_session_justified:
  "configure_session env s = (Inr (Some oc), s') \<Longrightarrow> stop_justified oc s'"
  by (auto simp: configure_session_def Let_def stop_justified_simps
      split: if_splits sum.splits prod.splits exn.splits dest: finish_error_justified open_session_justified)

lemma receive_session_justified:
  "receive_session fuel env s = Some (Inr oc, s') \<Longrightarrow> stop_justified oc s'"
  by (auto simp: receive_session_def Let_def split: sum.splits prod.splits option.splits
      dest: session_loop_justified configure_session_justified)

lemma run_loop_reason:
  assumes "benign env"
  shows "configured_as c s \<Longrightarrow> run_loop fuel env backoff s = Some (Inr u, s') \<Longrightarrow> fault_free s \<Longrightarrow>
    stopping s' \<or> (recovery_policy c = FailStop \<and> faulted s')"
proof (induction fuel arbitrary: backoff s)
  case 0
  then show ?case by simp
next
  case (Suc fuel)
  let ?s1 = "yield env s"
  have s1: "configured_as c ?s1" "fault_free ?s1"
    using Suc.prems assms by (simp_all add: configured.inv_yield faults.inv_yield)
  have nf: "\<not> faulted ?s1" using s1(2) by (simp add: fault_free_def)
  have s4: "configured_as c (yield env (close_session env t)) \<and> fault_free (yield env (close_session env t))"
    if "receive_session fuel env ?s1 = Some (x, t)" for x t
    using that s1 assms configured.inv_receive_session faults.inv_receive_session
    by (meson configured.inv_close_session configured.inv_yield faults.inv_close_session faults.inv_yield)
  have st: "stopping (yield env (close_session env t))"
    if "receive_session fuel env ?s1 = Some (Inr oc, t)" "so_result oc = SessionStopped" for oc t
    using receive_session_justified [OF that(1)] that(2) close_session_stopping [OF assms, of t]
      yield_frame(2) [OF assms, of "close_session env t"] by (simp add: stop_justified_def)
  have again: "stopping s' \<or> (recovery_policy c = FailStop \<and> faulted s')"
    if "receive_session fuel env ?s1 = Some (x, t)"
      "run_loop fuel env b (yield env (yield env (enter_backoff m v d (yield env (close_session env t))))) =
         Some (Inr u, s')" for x t m v d b
    using Suc.IH [OF _ that(2)] s4 [OF that(1)] assms
    by (simp add: configured.inv_yield faults.inv_yield configured.inv_backoff faults.inv_backoff)
  from Suc.prems(2) show ?case
    using nf by (auto simp: Let_def split: if_splits option.splits sum.splits prod.splits
        dest: again st s4 simp: configured_as_def set_fault_faulted fault_for_not_None)
qed

text \<open>Under the fail-stop policy the loop makes one session.\<close>

lemma run_loop_fail_stop:
  assumes "benign env" "attempts c n s" "recovery_policy c = FailStop"
    "run_loop fuel env backoff s = Some (r, s')"
  shows "attempts c n s'"
proof (cases fuel)
  case 0
  with assms(4) show ?thesis by simp
next
  case (Suc k)
  let ?s1 = "yield env s"
  have s1: "attempts c n ?s1" using assms(1,2) by (rule attempt.inv_yield)
  have s2: "attempts c n t" if "receive_session k env ?s1 = Some (x, t)" for x t
    using attempt.inv_receive_session [OF assms(1) s1 that] .
  have s4: "attempts c n (yield env (close_session env t))" if "receive_session k env ?s1 = Some (x, t)" for x t
    using s2 [OF that] assms(1) by (intro attempt.inv_yield attempt.inv_close_session)
  have policy: "recovery_policy (config (yield env (close_session env t))) = FailStop"
    if "receive_session k env ?s1 = Some (x, t)" for x t
    using s4 [OF that] assms(3) by (simp add: attempts_def)
  have fault: "attempts c n (set_fault code m t)" if "attempts c n t" for code m t
    using that by (simp add: attempts_def set_fault_frame)
  from assms(4) Suc s1 show ?thesis
    by (auto simp: Let_def policy split: if_splits option.splits sum.splits prod.splits
        dest: s2 s4 intro: fault)
qed

text \<open>
  C13. When the worker gives up. Under the fail-stop policy it never reconnects, and it
  returns only after a stop request or with a fault raised. Under the reconnect policy it
  returns only after a stop request, or with a socket fault that reports an exception
  nothing else handles; no session result ends it.
\<close>

theorem worker_gives_up:
  assumes "benign env" "fault_free s" "run fuel env s = Some (Inr u, s')"
  shows "(recovery_policy (config s) = FailStop \<longrightarrow>
            (stopping s' \<or> faulted s') \<and> reconnect_count (health s') = reconnect_count (health s)) \<and>
         (recovery_policy (config s) = Reconnect \<longrightarrow> stopping s' \<or> client_fault_code s' = FaultSocket)"
proof -
  obtain r s1 where l: "run_loop fuel env (reconnect_initial_delay (config s)) s = Some (r, s1)"
    using assms(3) by (auto simp: run_def split: option.splits)
  note fin = finish_session_data [OF assms(1)] finish_session_faulted [OF assms(1)]
  have rc: "reconnect_count (health (finish_session env t)) = reconnect_count (health t)" for t
    by (simp add: fin)
  have a1: "reconnect_count (health s1) = reconnect_count (health s)" if "recovery_policy (config s) = FailStop"
    using run_loop_fail_stop [OF assms(1) _ that l] by (simp add: attempts_def)
  have y: "health (yield env s1) = health s1" "fault_latch (yield env s1) = fault_latch s1"
    using yield_frame(1) [OF assms(1), of s1] by (simp_all add: same_data_def)
  show ?thesis
  proof (cases r)
    case (Inr v)
    then have "s' = finish_session env s1" using assms(3) l by (simp add: run_def)
    moreover have "stopping s1 \<or> (recovery_policy (config s) = FailStop \<and> faulted s1)"
      using run_loop_reason [OF assms(1), of "config s" s] l assms(2) Inr by (auto simp: configured_as_def)
    ultimately show ?thesis using fin rc a1 by auto
  next
    case (Inl e)
    have "fault_free s1" using faults.inv_run_loop_exception [OF assms(1,2)] l Inl by simp
    then have "\<not> faulted (yield env s1)" using y by (simp add: fault_free_def faulted_def)
    note code = set_fault_code [OF this]
    let ?s2 = "if \<not> stopping (yield env s1) then set_fault FaultSocket (what e) (yield env s1) else yield env s1"
    have s': "s' = finish_session env ?s2"
      using Inl l assms(3) by (auto simp: run_def Let_def split: if_splits)
    show ?thesis
      using fin rc a1 y unfolding s'
      by (auto simp: set_fault_frame set_fault_faulted code)
  qed
qed

text \<open>A fail-stop client whose sensor answers with an empty document.\<close>

lemma worker_gives_up_witness:
  "\<exists>s'. run 2 quiet_env (Impl_init (Config_default\<lparr>recovery_policy := FailStop\<rparr>)) = Some (Inr (), s') \<and>
        (stopping s' \<or> faulted s')"
proof -
  let ?s = "Impl_init (Config_default\<lparr>recovery_policy := FailStop\<rparr>)"
  have o: "\<lparr>opt_sensor_host = sensor_host Config_default, opt_http_port = http_port Config_default,
       opt_connect_timeout = configuration_connect_timeout Config_default,
       opt_total_timeout = configuration_timeout Config_default\<rparr> = DiscoveryOptions_default"
    by (simp add: Config_default_def DiscoveryOptions_default_def)
  have "parse_sensor_configuration (float_env quiet_env) [] =
      Inl (field_error ''cfgcpf'' '' must appear exactly once'')"
    by (simp add: parse_sensor_configuration_def extract_required_fields_def scan_loop.simps
        Extraction_init_def length_kRequiredTags upt_rec finish_field_def) (simp add: kRequiredTags_def)
  then have d: "fst (discover_sensor linux_x86_64 (answering []) (float_env quiet_env) DiscoveryOptions_default None)
      = Inl (field_error ''cfgcpf'' '' must appear exactly once'')"
    using discover_answering(1) [of "[]", OF _ default_options_valid] by simp
  obtain ini where d': "discover_sensor linux_x86_64 (answering []) (float_env quiet_env) DiscoveryOptions_default None
      = (Inl (field_error ''cfgcpf'' '' must appear exactly once''), ini)"
    using d by (metis prod.collapse)
  have y: "yield quiet_env t = t\<lparr>tick := Suc (tick t)\<rparr>" for t by (simp add: yield_def quiet_env_def)
  have q: "env_platform quiet_env = linux_x86_64" "curl_at quiet_env n = answering []" for n
    by (simp_all add: quiet_env_def)
  have c: "configuration_for_session linux_x86_64 (answering []) (float_env quiet_env) t =
      (Inl (field_error ''cfgcpf'' '' must appear exactly once''), t\<lparr>curl_initialization := ini\<rparr>)"
    if "config t = Config_default\<lparr>recovery_policy := FailStop\<rparr>" "curl_initialization t = None" for t
    using d' o that by (simp add: configuration_for_session_def Config_default_def)
  have "\<exists>oc t. receive_session 1 quiet_env (yield quiet_env ?s) = Some (Inr oc, t) \<and>
      config t = Config_default\<lparr>recovery_policy := FailStop\<rparr>"
    by (simp add: receive_session_def configure_session_def set_client_state_def with_health_def y q c
        Let_def Impl_init_def field_error_def finish_error_def outcome_of_def)
  then obtain oc t where t: "receive_session 1 quiet_env (yield quiet_env ?s) = Some (Inr oc, t)"
      "config t = Config_default\<lparr>recovery_policy := FailStop\<rparr>" by blast
  have k: "config (yield quiet_env (close_session quiet_env t)) = Config_default\<lparr>recovery_policy := FailStop\<rparr>"
    using close_session_data [OF benign_quiet_env, of t] t(2) by (simp add: y same_data_def)
  have "\<exists>x. run_loop (Suc 1) quiet_env b ?s = Some (Inr (), x)" for b
    using t k by (auto simp: Let_def)
  then obtain x where "run_loop 2 quiet_env (reconnect_initial_delay (config ?s)) ?s = Some (Inr (), x)"
    by (metis Suc_1)
  then obtain s' where r: "run 2 quiet_env ?s = Some (Inr (), s')" by (simp add: run_def)
  have "fault_free ?s" by (simp add: fault_free_def faulted_def latch_faulted_def Impl_init_def
      FaultLatch_init_def HealthSnapshot_default_def)
  from worker_gives_up [OF benign_quiet_env this r] r show ?thesis by (auto simp: Impl_init_def)
qed

section \<open>A requested stop ends the worker\<close>

definition stops_at :: "Env \<Rightarrow> nat \<Rightarrow> bool" where
  "stops_at env N \<longleftrightarrow> (\<forall>n s. N \<le> n \<longrightarrow> stopping (interference env n s))"

definition receive_answers :: "Env \<Rightarrow> bool" where
  "receive_answers env \<longleftrightarrow> (\<forall>capacity timeout s. net_receive env capacity timeout s \<noteq> None)"

lemma tick_yield [simp]: "tick (yield env s) = Suc (tick s)"
  by (simp add: yield_def)

lemma stopping_yield: "stops_at env N \<Longrightarrow> N \<le> tick s \<Longrightarrow> stopping (yield env s)"
  by (simp add: stops_at_def yield_def)

lemma tick_steps [simp]:
  "tick (snd (observe_record p r arrival s)) = tick s" "tick (record_delivery p x arrival s) = tick s"
  "tick (record_callback_error m s) = tick s" "tick (set_client_state st s) = tick s"
  "tick (count_timeout s) = tick s" "tick (snd (count_malformed s)) = tick s"
  "tick (begin_tracking s) = tick s" "tick (snd (configuration_for_session p curl fe s)) = tick s"
  "tick (apply_configuration c s) = tick s" "tick (snd (net_connect env s)) = tick s"
  "tick (snd (net_send env command s)) = tick s" "tick (net_close env s) = tick s"
  "tick (enter_backoff m v d s) = tick s" "tick (end_stream env s) = tick s"
  by (simp_all add: observe_record_def worker_step_defs begin_tracking_def configuration_for_session_def
      net_connect_def net_send_def net_close_def end_stream_def split: option.splits prod.splits)

lemma tick_deliver_sample: "tick s < tick (snd (deliver_sample env x arrival oc s))"
  by (auto simp: deliver_sample_def invoke_callback_def split: CallbackResult.splits)

lemma tick_handle_record: "tick s < tick (snd (handle_record env r arrival s))"
proof -
  obtain x s1 where o: "observe_record (env_platform env) r arrival (yield env s) = (x, s1)"
    by (cases "observe_record (env_platform env) r arrival (yield env s)")
  then have "tick s1 = Suc (tick s)" using tick_steps(1) [of "env_platform env" r arrival "yield env s"] by simp
  with o tick_deliver_sample [of s1 env _ arrival] show ?thesis
    by (auto simp: handle_record_def Let_def split: sum.splits prod.splits)
      (metis Suc_lessD less_Suc_eq snd_conv)+
qed

lemma session_loop_returns:
  assumes "stops_at env N" "receive_answers env"
  shows "N - tick s < fuel \<Longrightarrow> \<exists>x. session_loop fuel env deadline valid s = Some x"
proof (induction fuel arbitrary: s deadline valid)
  case 0
  then show ?case by simp
next
  case (Suc fuel)
  show ?case
  proof (cases "N \<le> tick s")
    case True
    then show ?thesis using stopping_yield [OF assms(1)] by simp
  next
    case False
    let ?s3 = "yield env (yield env (yield env s))"
    obtain x where x: "net_receive env kBufferSize
        (seconds_of_ticks (env_platform env) (deadline - clock_now env (yield env s))) (yield env s) = Some x"
      using assms(2) unfolding receive_answers_def by blast
    have m: "\<exists>y. session_loop fuel env d v t = Some y" if "count_malformed ?s3 = (b, t)" for b t d v
      using tick_steps(6) [of ?s3] that False Suc.prems by (intro Suc.IH) auto
    have h: "\<exists>y. session_loop fuel env d v t = Some y"
      if "handle_record env r arrival (?s3\<lparr>consecutive_malformed := 0\<rparr>) = (z, t)" for r arrival z t d v
      using tick_handle_record [of "?s3\<lparr>consecutive_malformed := 0\<rparr>" env r arrival] that False Suc.prems
      by (intro Suc.IH) auto
    show ?thesis using x m h
      by (auto simp: Let_def split: option.splits sum.splits prod.splits exn.splits)
  qed
qed

lemma tick_finish_error: "tick (snd (finish_error env x m v s)) = Suc (tick s)"
  by (simp add: finish_error_def Let_def)

lemma tick_finish_error_result: "finish_error env x m v s = (oc, t) \<Longrightarrow> tick t = Suc (tick s)"
  using tick_finish_error [of env x m v s] by simp

lemma tick_open_session: "tick s < tick (snd (open_session env s))"
proof -
  obtain r1 s1 where c: "net_connect env (yield env s) = (r1, s1)"
    by (cases "net_connect env (yield env s)")
  obtain r3 s3 where d: "net_send env StartRealtime (yield env s1) = (r3, s3)"
    by (cases "net_send env StartRealtime (yield env s1)")
  have "tick s1 = Suc (tick s)" "tick s3 = Suc (tick s1)"
    using tick_steps(10) [of env "yield env s"] tick_steps(11) [of env StartRealtime "yield env s1"] c d
    by simp_all
  with c d tick_finish_error [of env SessionSocket _ False s1] tick_finish_error [of env SessionSocket _ False s3]
  show ?thesis unfolding open_session_def
    by (auto simp: Let_def split: sum.splits prod.splits) (metis lessI less_SucI less_trans snd_conv)+
qed

lemma tick_configure_session: "tick s < tick (snd (configure_session env s))"
proof -
  let ?s1 = "yield env (set_client_state Connecting (yield env s))"
  obtain r2 s2 where c: "configuration_for_session (env_platform env) (curl_at env (tick ?s1))
      (float_env env) ?s1 = (r2, s2)"
    by (cases "configuration_for_session (env_platform env) (curl_at env (tick ?s1)) (float_env env) ?s1")
  have s2: "tick s2 = Suc (Suc (tick s))"
    using tick_steps(8) [of "env_platform env" "curl_at env (tick ?s1)" "float_env env" ?s1] unfolding c by simp
  show ?thesis
  proof (cases r2)
    case (Inl e)
    with c s2 show ?thesis
      by (cases e) (auto simp: configure_session_def Let_def split: prod.splits
          dest!: tick_finish_error_result)
  next
    case (Inr k)
    let ?s3 = "yield env (apply_configuration k (yield env s2))"
    have "tick s < tick ?s3" using s2 by simp
    with Inr c tick_open_session [of ?s3 env] show ?thesis
      by (simp add: configure_session_def Let_def)
  qed
qed

lemma receive_session_returns:
  assumes "stops_at env N" "receive_answers env" "N - tick s < fuel"
  shows "\<exists>x. receive_session fuel env s = Some x"
proof -
  obtain x s1 where c: "configure_session env s = (x, s1)" by (cases "configure_session env s")
  have "tick s < tick s1" using tick_configure_session [of s env] c by simp
  then have "N - tick (yield env (begin_tracking (yield env s1))) < fuel" using assms(3) by simp
  from session_loop_returns [OF assms(1,2) this] c show ?thesis
    by (auto simp: receive_session_def Let_def split: sum.splits option.splits)
qed

lemma tick_close_session [simp]: "tick (close_session env s) = Suc (tick s)"
  by (simp add: close_session_def)

lemma tick_session_loop: "session_loop fuel env deadline valid s = Some (r, s') \<Longrightarrow> tick s < tick s'"
proof (induction fuel arbitrary: deadline valid s)
  case 0
  then show ?case by simp
next
  case (Suc fuel)
  let ?s1 = "yield env s" let ?s2 = "yield env ?s1" let ?s3 = "yield env ?s2"
  have m: "tick s < tick t" if "count_malformed ?s3 = (b, t)" for b t
    using tick_steps(6) [of ?s3] unfolding that by simp
  have h: "tick s < tick t" if "handle_record env r arrival (?s3\<lparr>consecutive_malformed := 0\<rparr>) = (z, t)" for r arrival z t
    using tick_handle_record [of "?s3\<lparr>consecutive_malformed := 0\<rparr>" env r arrival] unfolding that by simp
  have t: "tick u < tick t" if "finish_timeout env v u = (oc, t)" for u v oc t
    using that by (auto simp: finish_timeout_def Let_def split: if_splits)
  have e: "tick u < tick t" if "finish_error env x mm v u = (oc, t)" for u x mm v oc t
    using tick_finish_error_result [OF that] by simp
  have ml: "tick s < tick s'" if "count_malformed ?s3 = (b, t)" "session_loop fuel env d v t = Some (r, s')" for b t d v
    using m [OF that(1)] Suc.IH [OF that(2)] by simp
  have hl: "tick s < tick s'" if "handle_record env rr arrival (?s3\<lparr>consecutive_malformed := 0\<rparr>) = (z, t)"
      "session_loop fuel env d v t = Some (r, s')" for rr arrival z t d v
    using h [OF that(1)] Suc.IH [OF that(2)] by simp
  from Suc.prems show ?case
    by (auto simp: Let_def split: if_splits option.splits sum.splits prod.splits exn.splits
        dest: m h t e ml hl)
qed

lemma tick_receive_session: "receive_session fuel env s = Some (r, s') \<Longrightarrow> tick s < tick s'"
proof -
  assume r: "receive_session fuel env s = Some (r, s')"
  obtain x s1 where c: "configure_session env s = (x, s1)" by (cases "configure_session env s")
  have s1: "tick s < tick s1" using tick_configure_session [of s env] c by simp
  have l: "tick s1 < tick t" if "session_loop fuel env d v (yield env (begin_tracking (yield env s1))) = Some (z, t)" for d v z t
    using tick_session_loop [OF that] by simp
  from r c s1 l show "tick s < tick s'"
    by (auto simp: receive_session_def Let_def split: sum.splits option.splits) (meson less_trans)+
qed

lemma run_loop_returns:
  assumes "stops_at env N" "receive_answers env"
  shows "N - tick s < fuel \<Longrightarrow> \<exists>x. run_loop fuel env backoff s = Some x"
proof (induction fuel arbitrary: s backoff)
  case 0
  then show ?case by simp
next
  case (Suc fuel)
  show ?case
  proof (cases "N \<le> tick s")
    case True
    then show ?thesis using stopping_yield [OF assms(1)] by simp
  next
    case False
    then have "N - tick (yield env s) < fuel" using Suc.prems by simp
    then obtain r t where t: "receive_session fuel env (yield env s) = Some (r, t)"
      using receive_session_returns [OF assms] by (metis surj_pair)
    have "tick s < tick t" using tick_receive_session [OF t] by simp
    then have again: "\<exists>x. run_loop fuel env b (yield env (yield env (enter_backoff m v d (yield env (close_session env t))))) = Some x"
      for b m v d using False Suc.prems by (intro Suc.IH) simp
    show ?thesis using t again
      by (auto simp: Let_def split: sum.splits)
  qed
qed

text \<open>
  C3. A requested stop ends the worker: if other threads have raised the stop flag by the
  worker's \<open>N\<close>-th step and every receive returns, \<open>run\<close> returns within \<open>N + 1\<close> rounds of each of its
  loops, whatever state it was in, whatever the sensor sends and however the callback behaves.
\<close>

theorem stop_ends_worker:
  assumes "stops_at env N" "receive_answers env" "N < fuel"
  shows "\<exists>r s'. run fuel env s = Some (r, s')"
proof -
  have "N - tick s < fuel" using assms(3) by simp
  from run_loop_returns [OF assms(1,2) this]
  obtain r t where "run_loop fuel env (reconnect_initial_delay (config s)) s = Some (r, t)"
    by (metis surj_pair)
  then show ?thesis by (cases r) (auto simp: run_def Let_def)
qed

text \<open>A client that is stopped at its eighth step and whose sensor stays silent.\<close>

definition late_stop_env :: Env where
  "late_stop_env = quiet_env\<lparr>interference := \<lambda>n s. if 8 \<le> n then stop_flag s else s,
     backend := Posix (\<lambda>_. sample_posix\<lparr>os_poll := \<lambda>_ _ _. (0, 0, False)\<rparr>)\<rparr>"

lemma stop_ends_worker_witness:
  "\<exists>r s'. run 9 late_stop_env sample_client = Some (r, s')"
proof (rule stop_ends_worker)
  show "stops_at late_stop_env 8" by (simp add: stops_at_def late_stop_env_def stop_flag_def)
  have w: "posix_wait 6 p (os\<lparr>os_poll := \<lambda>_ _ _. (0, 0, False)\<rparr>) fd d v i \<noteq> None" for p os fd d v i
    using posix_wait.simps(2) [of 5 p "os\<lparr>os_poll := \<lambda>_ _ _. (0, 0, False)\<rparr>" fd d v i]
    by (simp split: sum.splits)
  show "receive_answers late_stop_env"
    unfolding receive_answers_def
    by (auto simp: w late_stop_env_def quiet_env_def net_receive_def posix_receive_def Let_def
        simp del: posix_wait.simps split: sum.splits option.splits prod.splits)
qed simp

section \<open>The fate of a record\<close>

text \<open>
  The specification of \<open>handle_record\<close>: what becomes of a record that arrives while a
  configuration is in force, by the first of these that applies. Its RDT number is a
  repetition or late; it is withheld for its F/T sequence or its status; it comes too soon
  after the last delivery; one of its six scaled values is not finite; the callback throws;
  it is delivered.
\<close>

datatype Fate = Repeated | Late | Withheld | Limited | Unscalable | Failed string | Delivered

definition record_fate :: "Env \<Rightarrow> RawRecord \<Rightarrow> int \<Rightarrow> SensorConfiguration \<Rightarrow> Impl \<Rightarrow> Fate" where
  "record_fate env r arrival k s =
     (let c = config s; x = make_sample (env_platform env) r k arrival;
          direction = rounding_direction (env_platform env);
          rdt = kind (fst (rdt_observe (rdt_tracker s) (rec_rdt_sequence r)));
          ft = fst (ft_observe (ft_tracker s) (rec_ft_sequence r));
          period = fp_div binary64 direction (Finite 1) (sample_rate_limit_hz c)
      in if rdt = Duplicate then Repeated
         else if rdt = OutOfOrder then Late
         else if ft = Stall \<or> ft = Backward \<or>
           classify_status (rec_status r) = Error \<and> \<not> deliver_samples_with_error_status c then Withheld
         else if fp_less (Finite 0) (sample_rate_limit_hz c) \<and> last_delivery_at s \<noteq> 0 \<and>
           fp_less (fp_of_int binary64 direction (arrival - last_delivery_at s))
             (fp_div binary64 direction
                (fp_mul binary64 direction period (fp_of_int binary64 ToNearest (period_den (env_platform env))))
                (fp_of_int binary64 ToNearest (period_num (env_platform env)))) then Limited
         else if \<exists>v\<in>set (force x @ torque x). \<not> fp_isfinite v then Unscalable
         else if \<not> callback_present s then Delivered
         else case callback_at env (Suc (tick s)) x of
                Returns \<Rightarrow> Delivered
              | Throws message \<Rightarrow> Failed message
              | ThrowsOther \<Rightarrow> Failed ''sample callback failed'')"

text \<open>How the session ends on a record that is not refused for its values, if it does.\<close>

definition record_outcome :: "RawRecord \<Rightarrow> Impl \<Rightarrow> SessionResult option" where
  "record_outcome r s =
     (let ft = fst (ft_observe (ft_tracker s) (rec_ft_sequence r))
      in if classify_status (rec_status r) = Error then Some SessionSeriousStatus
         else if recovery_policy (config s) = FailStop \<and> ft = Stall then Some SessionFtStall
         else if recovery_policy (config s) = FailStop \<and> ft = Backward then Some SessionFtBackward
         else None)"

text \<open>The state after the record, by its fate.\<close>

definition fate_outcome :: "Config \<Rightarrow> SessionResult option \<Rightarrow> Fate \<Rightarrow> SessionResult option" where
  "fate_outcome c outcome fate =
     (case fate of
        Unscalable \<Rightarrow> Some SessionSensorConfiguration
      | Failed _ \<Rightarrow> if outcome = None \<and> recovery_policy c = FailStop then Some SessionCallback else outcome
      | _ \<Rightarrow> outcome)"

definition reaches_callback :: "Fate \<Rightarrow> bool" where
  "reaches_callback fate \<longleftrightarrow> fate = Delivered \<or> (\<exists>m. fate = Failed m)"

definition is_failed :: "Fate \<Rightarrow> bool" where
  "is_failed fate \<longleftrightarrow> (\<exists>m. fate = Failed m)"

lemma is_failed_simps [simp]:
  "\<not> is_failed Repeated" "\<not> is_failed Late" "\<not> is_failed Withheld" "\<not> is_failed Limited"
  "\<not> is_failed Unscalable" "is_failed (Failed m)" "\<not> is_failed Delivered"
  by (simp_all add: is_failed_def)

lemma count_fields:
  "received_count (count_rdt o1 h) = received_count h" "delivered_count (count_rdt o1 h) = delivered_count h"
  "callback_error_count (count_rdt o1 h) = callback_error_count h"
  "rate_limited_count (count_rdt o1 h) = rate_limited_count h" "last_error (count_rdt o1 h) = last_error h"
  "duplicate_count (count_rdt o1 h) = duplicate_count h + (if kind o1 = Duplicate then 1 else 0)"
  "out_of_order_count (count_rdt o1 h) = out_of_order_count h + (if kind o1 = OutOfOrder then 1 else 0)"
  "received_count (count_ft k h) = received_count h" "delivered_count (count_ft k h) = delivered_count h"
  "callback_error_count (count_ft k h) = callback_error_count h"
  "rate_limited_count (count_ft k h) = rate_limited_count h" "last_error (count_ft k h) = last_error h"
  "received_count (count_severity v h) = received_count h" "delivered_count (count_severity v h) = delivered_count h"
  "callback_error_count (count_severity v h) = callback_error_count h"
  "rate_limited_count (count_severity v h) = rate_limited_count h" "last_error (count_severity v h) = last_error h"
  by (simp_all add: count_rdt_def count_ft_def count_severity_def
      split: SequenceKind.splits FtSequenceKind.splits StatusSeverity.splits)

lemma lost_count_counts:
  "lost_count (count_ft k h) = lost_count h" "lost_count (count_severity v h) = lost_count h"
  "duplicate_count (count_ft k h) = duplicate_count h" "duplicate_count (count_severity v h) = duplicate_count h"
  "out_of_order_count (count_ft k h) = out_of_order_count h"
  "out_of_order_count (count_severity v h) = out_of_order_count h"
  by (simp_all add: count_ft_def count_severity_def split: FtSequenceKind.splits StatusSeverity.splits)

text \<open>The counters after the section that observes a record, and what that section leaves alone.\<close>

lemma observe_record_effect:
  fixes s :: Impl and p :: platform and r :: RawRecord and arrival :: int
  assumes "sensor_configuration (health s) = Some k"
  defines "s1 \<equiv> snd (observe_record p r arrival s)"
    and "rdt \<equiv> kind (fst (rdt_observe (rdt_tracker s) (rec_rdt_sequence r)))"
    and "ft \<equiv> fst (ft_observe (ft_tracker s) (rec_ft_sequence r))"
  shows "received_count (health s1) = received_count (health s) + 1"
    "delivered_count (health s1) = delivered_count (health s)"
    "callback_error_count (health s1) = callback_error_count (health s)"
    "duplicate_count (health s1) = duplicate_count (health s) + (if rdt = Duplicate then 1 else 0)"
    "out_of_order_count (health s1) = out_of_order_count (health s) + (if rdt = OutOfOrder then 1 else 0)"
    "rate_limited_count (health s1) = rate_limited_count (health s) +
       (if deliverable (config s) rdt ft (classify_status (rec_status r)) \<and>
           within_rate_limit p (config s) (last_delivery_at s) arrival then 1 else 0)"
    "last_error (health s1) = last_error (health s)" "invoked s1 = invoked s" "latest s1 = latest s"
    "last_delivery_at s1 = last_delivery_at s" "callback_present s1 = callback_present s"
    "config s1 = config s" "tick s1 = tick s"
  using assms(1)
  by (simp_all add: s1_def rdt_def ft_def observe_record_def Let_def count_fields lost_count_counts split: prod.split)

text \<open>What becomes of a record that is not withheld, in terms of the functions of the code.\<close>

lemma record_fate_code:
  fixes s :: Impl and env :: Env and r :: RawRecord and k :: SensorConfiguration and arrival :: int
  defines "rdt \<equiv> kind (fst (rdt_observe (rdt_tracker s) (rec_rdt_sequence r)))"
    and "ft \<equiv> fst (ft_observe (ft_tracker s) (rec_ft_sequence r))"
    and "x \<equiv> make_sample (env_platform env) r k arrival"
  shows "record_fate env r arrival k s =
    (if \<not> deliverable (config s) rdt ft (classify_status (rec_status r)) then
       (if rdt = Duplicate then Repeated else if rdt = OutOfOrder then Late else Withheld)
     else if within_rate_limit (env_platform env) (config s) (last_delivery_at s) arrival then Limited
     else if \<not> sample_finite x then Unscalable
     else if \<not> callback_present s then Delivered
     else case callback_at env (Suc (tick s)) x of
            Returns \<Rightarrow> Delivered | Throws m \<Rightarrow> Failed m | ThrowsOther \<Rightarrow> Failed ''sample callback failed'')"
proof -
  have d: "deliverable (config s) rdt ft (classify_status (rec_status r)) \<longleftrightarrow>
      rdt \<noteq> Duplicate \<and> rdt \<noteq> OutOfOrder \<and>
      \<not> (ft = Stall \<or> ft = Backward \<or>
        classify_status (rec_status r) = Error \<and> \<not> deliver_samples_with_error_status (config s))"
    by (auto simp: deliverable_def Let_def)
  have f: "(\<exists>v\<in>set (force x @ torque x). \<not> fp_isfinite v) \<longleftrightarrow> \<not> sample_finite x"
    by (auto simp: sample_finite_def list_all_iff)
  show ?thesis
    unfolding record_fate_def Let_def rdt_def [symmetric] ft_def [symmetric] x_def [symmetric] d f
      within_rate_limit_def minimum_interval_ticks_def
    by simp
qed

text \<open>The delivery of a sample, by what the callback does.\<close>

lemma deliver_sample_effect:
  fixes s :: Impl and env :: Env and x :: Sample and arrival :: int and oc :: "SessionResult option"
  assumes "benign env"
  defines "z \<equiv> deliver_sample env x arrival oc s"
    and "result \<equiv> if callback_present s then callback_at env (Suc (tick s)) x else Returns"
  shows "fst z = (if result = Returns then oc else callback_failure_outcome (config s) oc)"
    "invoked (snd z) = (if callback_present s then invoked s @ [x] else invoked s)"
    "latest (snd z) = (if result = Returns then Some x else latest s)"
    "last_delivery_at (snd z) = (if result = Returns then arrival else last_delivery_at s)"
    "delivered_count (health (snd z)) = delivered_count (health s) + (if result = Returns then 1 else 0)"
    "callback_error_count (health (snd z)) = callback_error_count (health s) + (if result = Returns then 0 else 1)"
    "last_error (health (snd z)) =
       (case result of Returns \<Rightarrow> last_error (health s) | Throws m \<Rightarrow> m | ThrowsOther \<Rightarrow> ''sample callback failed'')"
    "received_count (health (snd z)) = received_count (health s)"
    "duplicate_count (health (snd z)) = duplicate_count (health s)"
    "out_of_order_count (health (snd z)) = out_of_order_count (health s)"
    "rate_limited_count (health (snd z)) = rate_limited_count (health s)"
proof -
  have y: "health (yield env t) = health t" "config (yield env t) = config t" "invoked (yield env t) = invoked t"
      "latest (yield env t) = latest t" "callback_present (yield env t) = callback_present t"
      "last_delivery_at (yield env t) = last_delivery_at t" for t
    using yield_frame(1) [OF assms(1), of t] by (simp_all add: same_data_def)
  have t: "tick (yield env s) = Suc (tick s)" by (simp add: yield_def)
  note d = z_def result_def deliver_sample_def invoke_callback_def record_delivery_def record_callback_error_def
    with_health_def Let_def y t
  show "fst z = (if result = Returns then oc else callback_failure_outcome (config s) oc)"
    "invoked (snd z) = (if callback_present s then invoked s @ [x] else invoked s)"
    "latest (snd z) = (if result = Returns then Some x else latest s)"
    "last_delivery_at (snd z) = (if result = Returns then arrival else last_delivery_at s)"
    "delivered_count (health (snd z)) = delivered_count (health s) + (if result = Returns then 1 else 0)"
    "callback_error_count (health (snd z)) = callback_error_count (health s) + (if result = Returns then 0 else 1)"
    "last_error (health (snd z)) =
       (case result of Returns \<Rightarrow> last_error (health s) | Throws m \<Rightarrow> m | ThrowsOther \<Rightarrow> ''sample callback failed'')"
    "received_count (health (snd z)) = received_count (health s)"
    "duplicate_count (health (snd z)) = duplicate_count (health s)"
    "out_of_order_count (health (snd z)) = out_of_order_count (health s)"
    "rate_limited_count (health (snd z)) = rate_limited_count (health s)"
    by (simp_all add: d split: CallbackResult.split)
qed

lemma fate_at_callback:
  fixes s :: Impl and env :: Env and r :: RawRecord and k :: SensorConfiguration and arrival :: int
  defines "rdt \<equiv> kind (fst (rdt_observe (rdt_tracker s) (rec_rdt_sequence r)))"
  assumes "reaches_callback (record_fate env r arrival k s)"
  shows "record_fate env r arrival k s =
      (if callback_present s then
         case callback_at env (Suc (tick s)) (make_sample (env_platform env) r k arrival) of
           Returns \<Rightarrow> Delivered | Throws m \<Rightarrow> Failed m | ThrowsOther \<Rightarrow> Failed ''sample callback failed''
       else Delivered)"
    "rdt \<noteq> Duplicate" "rdt \<noteq> OutOfOrder" "\<not> within_rate_limit (env_platform env) (config s) (last_delivery_at s) arrival"
  using assms(2) by (auto simp: record_fate_code reaches_callback_def rdt_def deliverable_iff split: if_splits)

lemma yield_record_state:
  assumes "benign env"
  shows "health (yield env s) = health s" "config (yield env s) = config s" "invoked (yield env s) = invoked s"
    "latest (yield env s) = latest s" "callback_present (yield env s) = callback_present s"
    "last_delivery_at (yield env s) = last_delivery_at s"
  using yield_frame(1) [OF assms, of s] by (simp_all add: same_data_def)

text \<open>The branches of \<open>handle_record\<close>, by the fate of the record.\<close>

lemma handle_record_branches:
  fixes s :: Impl and env :: Env and r :: RawRecord and k :: SensorConfiguration and arrival :: int
  assumes "sensor_configuration (health (yield env s)) = Some k"
  defines "s0 \<equiv> yield env s" and "s1 \<equiv> snd (observe_record (env_platform env) r arrival (yield env s))"
    and "x \<equiv> make_sample (env_platform env) r k arrival"
    and "fate \<equiv> record_fate env r arrival k (yield env s)"
  shows "handle_record env r arrival s =
    (if fate = Unscalable then (Inr (Some SessionSensorConfiguration), s1)
     else if reaches_callback fate then
       (Inr (fst (deliver_sample env x arrival (record_outcome r s0) s1)),
        snd (deliver_sample env x arrival (record_outcome r s0) s1))
     else (Inr (record_outcome r s0), s1))"
proof -
  let ?d = "deliverable (config s0) (kind (fst (rdt_observe (rdt_tracker s0) (rec_rdt_sequence r))))
      (fst (ft_observe (ft_tracker s0) (rec_ft_sequence r))) (classify_status (rec_status r))"
  let ?l = "within_rate_limit (env_platform env) (config s0) (last_delivery_at s0) arrival"
  have o: "observe_record (env_platform env) r arrival s0 = (Inr (k, ?d \<and> \<not> ?l, record_outcome r s0), s1)"
    using observe_record_result [OF assms(1), of "env_platform env" r arrival]
    by (simp add: s0_def s1_def record_outcome_def session_outcome_of_cases Let_def prod_eq_iff)
  have f: "fate = Unscalable \<longleftrightarrow> ?d \<and> \<not> ?l \<and> \<not> sample_finite x"
    "reaches_callback fate \<longleftrightarrow> ?d \<and> \<not> ?l \<and> sample_finite x"
    unfolding fate_def s0_def x_def by (auto simp: record_fate_code reaches_callback_def split: CallbackResult.split)
  show ?thesis
    unfolding f using o by (auto simp: handle_record_def s0_def x_def Let_def split_beta)
qed

text \<open>
  C9. What \<open>handle_record\<close> decides, on every branch and under interference. Without a
  configuration it fails with an error and delivers nothing. Otherwise the fate of the
  record decides: the callback sees exactly the records that are new, advance the F/T
  sequence, have no error status (unless such samples are wanted), keep the rate limit and
  scale to finite values; the sample becomes the latest one when the callback returns, and
  its message the last error when it throws. The session ends with a serious status on an
  error status whatever the policy, with a stall or a backward step only under the
  fail-stop policy, with a configuration error when a value is not finite, and with a
  callback error when the callback throws under the fail-stop policy and nothing else ended it.
\<close>

theorem record_decision:
  assumes "benign env" "handle_record env r arrival s = (result, s')"
  shows "case sensor_configuration (health s) of
      None \<Rightarrow> result = Inl (LogicError ''sensor configuration is unavailable while streaming'') \<and>
        invoked s' = invoked s \<and> latest s' = latest s
    | Some k \<Rightarrow>
        (let x = make_sample (env_platform env) r k arrival; fate = record_fate env r arrival k (yield env s)
         in result = Inr (fate_outcome (config s) (record_outcome r (yield env s)) fate) \<and>
            invoked s' = (if reaches_callback fate \<and> callback_present s then invoked s @ [x] else invoked s) \<and>
            latest s' = (if fate = Delivered then Some x else latest s) \<and>
            last_delivery_at s' = (if fate = Delivered then arrival else last_delivery_at s) \<and>
            last_error (health s') = (case fate of Failed m \<Rightarrow> m | _ \<Rightarrow> last_error (health s)))"
proof (cases "sensor_configuration (health s)")
  case None
  note y = yield_record_state [OF assms(1), of s]
  obtain z s1 where o: "observe_record (env_platform env) r arrival (yield env s) = (z, s1)"
    by (cases "observe_record (env_platform env) r arrival (yield env s)")
  then have "z = Inl (LogicError ''sensor configuration is unavailable while streaming'')"
    using observe_record_unconfigured [of "yield env s" "env_platform env" r arrival] None y by simp
  moreover have "invoked s1 = invoked s" "latest s1 = latest s"
    using o None y by (auto simp: observe_record_def split: prod.splits)
  ultimately show ?thesis using assms(2) None o by (auto simp: handle_record_def)
next
  case (Some k)
  note y = yield_record_state [OF assms(1), of s]
  have k: "sensor_configuration (health (yield env s)) = Some k" using Some y by simp
  note e = observe_record_effect [OF k, of "env_platform env" r arrival]
  note d = deliver_sample_effect [OF assms(1), of "make_sample (env_platform env) r k arrival" arrival
      "record_outcome r (yield env s)" "snd (observe_record (env_platform env) r arrival (yield env s))"]
  let ?fate = "record_fate env r arrival k (yield env s)"
  have p: "recovery_policy (config s) = FailStop \<longleftrightarrow> recovery_policy (config s) \<noteq> Reconnect"
    by (cases "recovery_policy (config s)") simp_all
  have "result = Inr (fate_outcome (config s) (record_outcome r (yield env s)) ?fate) \<and>
      invoked s' = (if reaches_callback ?fate \<and> callback_present s
        then invoked s @ [make_sample (env_platform env) r k arrival] else invoked s) \<and>
      latest s' = (if ?fate = Delivered then Some (make_sample (env_platform env) r k arrival) else latest s) \<and>
      last_delivery_at s' = (if ?fate = Delivered then arrival else last_delivery_at s) \<and>
      last_error (health s') = (case ?fate of Failed m \<Rightarrow> m | _ \<Rightarrow> last_error (health s))"
  proof (cases "reaches_callback ?fate")
    case True
    then show ?thesis
      using assms(2) handle_record_branches [OF k, of r arrival] fate_at_callback(1) [OF True] d e y
      by (cases "callback_present s")
        (auto simp: fate_outcome_def callback_failure_outcome_def p split: CallbackResult.splits)
  next
    case False
    then show ?thesis
      using assms(2) handle_record_branches [OF k, of r arrival] e y
      by (cases ?fate) (auto simp: fate_outcome_def reaches_callback_def)
  qed
  then show ?thesis by (simp add: Some Let_def)
qed

text \<open>A callback that throws, under the fail-stop policy: the session ends and nothing is delivered.\<close>

definition throwing_env :: Env where
  "throwing_env = quiet_env\<lparr>callback_at := (\<lambda>_ _. Throws ''full'')\<rparr>"

definition strict_client :: Impl where
  "strict_client = sample_client\<lparr>config := Config_default\<lparr>recovery_policy := FailStop\<rparr>, callback_present := True\<rparr>"

lemma strict_client_fate:
  "record_fate throwing_env sample_record 5 sample_configuration (yield throwing_env strict_client) = Failed ''full''"
  "record_outcome sample_record (yield throwing_env strict_client) = None"
proof -
  have y: "yield throwing_env strict_client = strict_client\<lparr>tick := Suc (tick strict_client)\<rparr>"
    by (simp add: yield_def throwing_env_def quiet_env_def)
  have "validate_calibration (calibration sample_configuration) = Inr ()"
    using samples_ok_sample_client by (simp add: samples_ok_def sample_client_configuration)
  moreover have "record_in_range sample_record" by (simp add: record_in_range_def sample_record_def in_i32_def)
  ultimately have f: "sample_finite (make_sample (env_platform throwing_env) sample_record sample_configuration 5)"
    by (rule valid_sample_finite)
  have o: "fst (rdt_observe RdtSequenceTracker_init n) = \<lparr>kind = SeqFirst, gap = 0\<rparr>"
    "fst (ft_observe FtSequenceTracker_init m) = FtFirst" "classify_status (rec_status sample_record) = Ok" for n m
    by (simp_all add: RdtSequenceTracker_init_def FtSequenceTracker_init_def tracker_defs classify_status_def
        sample_record_def)
  show "record_fate throwing_env sample_record 5 sample_configuration (yield throwing_env strict_client) = Failed ''full''"
    using f unfolding y by (simp add: record_fate_code sample_client_config o deliverable_def within_rate_limit_def
        strict_client_def throwing_env_def)
  show "record_outcome sample_record (yield throwing_env strict_client) = None"
    unfolding y by (simp add: record_outcome_def sample_client_config o strict_client_def)
qed

lemma strict_client_facts:
  "benign throwing_env" "sensor_configuration (health strict_client) = Some sample_configuration"
  "config strict_client = Config_default\<lparr>recovery_policy := FailStop\<rparr>"
  using sample_client_configuration by (simp_all add: benign_def throwing_env_def quiet_env_def strict_client_def)

lemma record_decision_witness:
  "\<exists>s'. handle_record throwing_env sample_record 5 strict_client = (Inr (Some SessionCallback), s') \<and>
     latest s' = latest strict_client \<and> last_error (health s') = ''full''"
proof -
  obtain z s' where "handle_record throwing_env sample_record 5 strict_client = (z, s')"
    by (cases "handle_record throwing_env sample_record 5 strict_client")
  from record_decision [OF strict_client_facts(1) this] this show ?thesis
    by (simp add: strict_client_facts strict_client_fate fate_outcome_def)
qed

text \<open>
  C23. The accounting of one record, under interference: the received counter goes up by
  exactly one, and of the counters of delivered, failed, rate limited, repeated and late
  records exactly the one of its fate goes up, by one; the other four stay, and all five
  stay for a record that is withheld or cannot be scaled. So no record is counted twice and
  none under the wrong name.
\<close>

theorem record_accounting:
  assumes "benign env" "handle_record env r arrival s = (Inr oc, s')"
    and "sensor_configuration (health s) = Some k" "fate = record_fate env r arrival k (yield env s)"
  shows "received_count (health s') = received_count (health s) + 1 \<and>
    delivered_count (health s') = delivered_count (health s) + (if fate = Delivered then 1 else 0) \<and>
    callback_error_count (health s') = callback_error_count (health s) + (if is_failed fate then 1 else 0) \<and>
    rate_limited_count (health s') = rate_limited_count (health s) + (if fate = Limited then 1 else 0) \<and>
    duplicate_count (health s') = duplicate_count (health s) + (if fate = Repeated then 1 else 0) \<and>
    out_of_order_count (health s') = out_of_order_count (health s) + (if fate = Late then 1 else 0)"
proof -
  note y = yield_record_state [OF assms(1), of s]
  have k: "sensor_configuration (health (yield env s)) = Some k" using assms(3) y by simp
  note e = observe_record_effect [OF k, of "env_platform env" r arrival]
  note d = deliver_sample_effect [OF assms(1), of "make_sample (env_platform env) r k arrival" arrival
      "record_outcome r (yield env s)" "snd (observe_record (env_platform env) r arrival (yield env s))"]
  note h = handle_record_branches [OF k, of r arrival, folded assms(4)]
  show ?thesis
  proof (cases "reaches_callback fate")
    case True
    note f = fate_at_callback [OF True [unfolded assms(4)], folded assms(4), unfolded y]
    have s': "s' = snd (deliver_sample env (make_sample (env_platform env) r k arrival) arrival
        (record_outcome r (yield env s)) (snd (observe_record (env_platform env) r arrival (yield env s))))"
      using h assms(2) True by (auto simp: reaches_callback_def)
    show ?thesis using f(1) unfolding s' d e y using f(2-4)
      by (cases "callback_present s") (auto split: CallbackResult.splits)
  next
    case False
    then have s': "s' = snd (observe_record (env_platform env) r arrival (yield env s))" using h assms(2) by (simp split: if_splits)
    have n: "fate \<noteq> Delivered" "\<not> is_failed fate" using False by (auto simp: reaches_callback_def is_failed_def)
    note f = record_fate_code [of env r arrival k "yield env s", folded assms(4), unfolded y]
    show ?thesis unfolding s' e(1-6) y using n f
      by (auto simp: deliverable_iff split: if_splits CallbackResult.splits)
  qed
qed

lemma record_accounting_witness:
  "\<exists>oc s'. handle_record throwing_env sample_record 5 strict_client = (Inr oc, s') \<and>
     received_count (health s') = received_count (health strict_client) + 1 \<and>
     callback_error_count (health s') = callback_error_count (health strict_client) + 1 \<and>
     delivered_count (health s') = delivered_count (health strict_client)"
proof -
  have "sensor_configuration (health (yield throwing_env strict_client)) = Some sample_configuration"
    using yield_record_state(1) [OF strict_client_facts(1)] strict_client_facts(2) by simp
  from handle_record_branches [OF this, of sample_record 5]
  obtain oc s' where h: "handle_record throwing_env sample_record 5 strict_client = (Inr oc, s')"
    by (simp add: strict_client_fate reaches_callback_def)
  from record_accounting [OF strict_client_facts(1) h strict_client_facts(2) strict_client_fate(1) [symmetric]] h
  show ?thesis by simp
qed

section \<open>Bias\<close>

lemma rdt_observe_reset:
  "fst (rdt_observe (rdt_reset t) n) = \<lparr>kind = SeqFirst, gap = 0\<rparr>"
  by (simp add: rdt_observe_def rdt_reset_def)

text \<open>
  C31. A successful bias sends the bias command and then restarts the stream, and restarts
  the RDT tracking with it: the next record, whatever its number, is neither counted as
  lost, duplicate or out of order nor withheld for its number. A bias on a client that is
  stopping, has no session, is faulted or is not streaming is refused without any effect.
\<close>

theorem bias_restarts_tracking:
  assumes "bias env s = (result, s')"
  shows "(result = Inr () \<longrightarrow>
            sent s' = sent s @ [encode_request SetSoftwareBias 0, encode_request StartRealtime 0] \<and>
            kind (fst (rdt_observe (rdt_tracker s') (rec_rdt_sequence r))) = SeqFirst \<and>
            lost_count (health (snd (observe_record p r arrival s'))) = lost_count (health s) \<and>
            duplicate_count (health (snd (observe_record p r arrival s'))) = duplicate_count (health s) \<and>
            out_of_order_count (health (snd (observe_record p r arrival s'))) = out_of_order_count (health s)) \<and>
         (stopping s \<or> \<not> session_started s \<or> faulted s \<or> state (health s) \<noteq> Streaming \<longrightarrow>
            result = Inl (NotConnectedError ''client is not streaming'') \<and> s' = s)"
proof (intro conjI impI)
  assume ok: "result = Inr ()"
  have sent: "snd (net_send env c t) = t\<lparr>sent := sent t @ [encode_request c 0]\<rparr>"
    if "fst (net_send env c t) = Inr ()" for c t
    using that by (simp add: net_send_def Let_def)
  have s': "s' = s\<lparr>sent := sent s @ [encode_request SetSoftwareBias 0, encode_request StartRealtime 0],
      rdt_tracker := rdt_reset (rdt_tracker s)\<rparr>"
    using assms ok sent [of SetSoftwareBias s]
      sent [of StartRealtime "s\<lparr>sent := sent s @ [encode_request SetSoftwareBias 0]\<rparr>"]
    by (auto simp: bias_def split: if_splits sum.splits prod.splits)
  then show "sent s' = sent s @ [encode_request SetSoftwareBias 0, encode_request StartRealtime 0]" by simp
  have f: "fst (rdt_observe (rdt_tracker s') n) = \<lparr>kind = SeqFirst, gap = 0\<rparr>" for n
    unfolding s' using rdt_observe_reset by simp
  then show "kind (fst (rdt_observe (rdt_tracker s') (rec_rdt_sequence r))) = SeqFirst" by simp
  have h: "health s' = health s" by (simp add: s')
  obtain t where "rdt_observe (rdt_tracker s') (rec_rdt_sequence r) = (\<lparr>kind = SeqFirst, gap = 0\<rparr>, t)"
    using f [of "rec_rdt_sequence r"] by (metis prod.collapse)
  then show "lost_count (health (snd (observe_record p r arrival s'))) = lost_count (health s)"
    "duplicate_count (health (snd (observe_record p r arrival s'))) = duplicate_count (health s)"
    "out_of_order_count (health (snd (observe_record p r arrival s'))) = out_of_order_count (health s)"
    by (simp_all add: observe_record_def Let_def count_rdt_def lost_count_counts h
        split: prod.splits option.splits)
qed (use assms in \<open>auto simp: bias_def\<close>)

text \<open>The sample client with an open session.\<close>

definition streaming_client :: Impl where
  "streaming_client =
     sample_client\<lparr>session_started := True, udp := UdpTransport_init\<lparr>socket := 3, open_sockets := [3]\<rparr>,
                   health := (health sample_client)\<lparr>state := Streaming\<rparr>\<rparr>"

lemma streaming_client_state:
  "\<not> stopping streaming_client" "session_started streaming_client" "\<not> faulted streaming_client"
  "state (health streaming_client) = Streaming" "socket (udp streaming_client) = 3"
  by (simp_all add: streaming_client_def sample_client_def apply_configuration_def with_health_def
      Impl_init_def faulted_def latch_faulted_def FaultLatch_init_def)

lemma bias_restarts_tracking_witness:
  "\<exists>s'. bias quiet_env streaming_client = (Inr (), s') \<and>
        kind (fst (rdt_observe (rdt_tracker s') 4000000000)) = SeqFirst"
proof -
  have send: "net_send quiet_env c t = (Inr (), t\<lparr>sent := sent t @ [encode_request c 0]\<rparr>)"
    if "socket (udp t) = 3" for c t
    using that by (simp add: net_send_def quiet_env_def posix_send_def sample_posix_def kInvalidSocket_def
        encode_request_def Let_def)
  obtain s' where b: "bias quiet_env streaming_client = (Inr (), s')"
    by (simp add: bias_def streaming_client_state send)
  from bias_restarts_tracking [OF b, of "sample_record\<lparr>rec_rdt_sequence := 4000000000\<rparr>"] b
  show ?thesis by simp
qed

section \<open>Backoff\<close>



























section \<open>Malformed datagrams\<close>

lemma count_malformed_iterate:
  "consecutive_malformed (((\<lambda>t. snd (count_malformed t)) ^^ n) s) = consecutive_malformed s + of_nat n"
  by (induction n) (simp_all add: count_malformed_def with_health_def Let_def)

text \<open>
  The tenth malformed datagram in a row, counted since the last valid record, is the
  first that ends the session as a malformed storm.
\<close>

theorem malformed_storm_at_ten:
  assumes "consecutive_malformed s = 0" "n < 2 ^ 64 - 1"
  shows "fst (count_malformed (((\<lambda>t. snd (count_malformed t)) ^^ n) s)) \<longleftrightarrow> 10 \<le> Suc n"
proof -
  have "unat (of_nat n + 1 :: u64) = Suc n"
    using assms(2) by (simp add: unat_of_nat unat_word_ariths mod_Suc)
  then show ?thesis
    using assms(1) count_malformed_iterate [of n s]
    unfolding count_malformed_def [of "((\<lambda>t. snd (count_malformed t)) ^^ n) s"]
    by (simp add: kMalformedStormThreshold_def Let_def word_le_nat_alt)
qed

lemma malformed_storm_at_ten_witness:
  "fst (count_malformed (((\<lambda>t. snd (count_malformed t)) ^^ 9) sample_client)) \<and>
   \<not> fst (count_malformed (((\<lambda>t. snd (count_malformed t)) ^^ 8) sample_client))"
proof -
  have "consecutive_malformed sample_client = 0"
    by (simp add: sample_client_def apply_configuration_def with_health_def Impl_init_def)
  from malformed_storm_at_ten [OF this, of 9] malformed_storm_at_ten [OF this, of 8] show ?thesis by simp
qed

end
