(* ===== verification/Lifecycle.thy ===== *)
theory Lifecycle
  imports Client_Run
begin

text \<open>
  Model of the lifecycle of \<open>Client::Impl\<close> (\<open>src/src/detail/client_impl.cpp\<close>): \<open>start\<close>, \<open>stop\<close> and
  the thread that executes \<open>run\<close>, as steps that any number of threads take in any order. The
  members \<open>worker_\<close>, \<open>active_worker_id_\<close>, \<open>joining_\<close> and \<open>lifecycle_mutex_\<close> are fields next to the
  state of \<open>Client_Impl\<close>. A call in progress is a program counter of its thread. A step is a
  section a mutex protects, or one access to shared state outside of the lifecycle mutex. A
  wait on \<open>lifecycle_cv_\<close> is written out: the predicate is evaluated with the mutex held, the
  thread goes to sleep and releases it, and a notification makes every sleeping thread
  compete for the mutex again.
\<close>

section \<open>Sections of start and stop\<close>

type_synonym thread_id = nat

text \<open>The reset at the beginning of a run, in the record section and the data section of \<open>start\<close>.\<close>

definition start_reset :: "Impl \<Rightarrow> Impl" where
  "start_reset s =
     s\<lparr>last_delivery_at := 0,
       fault_latch := reset_latch (fault_latch s),
       health := (health s)\<lparr>state := Connecting, fault_code := FaultNone, last_error := [],
                            receive_rate_hz := Finite 0, delivery_rate_hz := Finite 0\<rparr>,
       latest := None, last_record_at := 0, generation := generation s + 1,
       delivered_generation := 0, receive_times := [], delivery_times := [],
       consecutive_malformed := 0\<rparr>"

definition start_flags :: "bool \<Rightarrow> Impl \<Rightarrow> Impl" where
  "start_flags callback s = s\<lparr>stopping := False, worker_exited := False, callback_present := callback\<rparr>"

text \<open>
  The handler of a failed thread creation, in its sections: the flags, the callback and the
  time of the last delivery; the data; the fault, which is published again.
\<close>

definition rollback_flags :: "Impl \<Rightarrow> Impl \<Rightarrow> Impl" where
  "rollback_flags previous s =
     s\<lparr>stopping := stopping previous, worker_exited := worker_exited previous,
       callback_present := callback_present previous, last_delivery_at := last_delivery_at previous\<rparr>"

definition rollback_data :: "Impl \<Rightarrow> Impl \<Rightarrow> Impl" where
  "rollback_data previous s =
     s\<lparr>health := health previous, latest := latest previous,
       last_record_at := last_record_at previous, generation := generation previous,
       delivered_generation := delivered_generation previous,
       receive_times := receive_times previous, delivery_times := delivery_times previous,
       consecutive_malformed := consecutive_malformed previous\<rparr>"

definition rollback_fault :: "Impl \<Rightarrow> Impl \<Rightarrow> Impl" where
  "rollback_fault previous s =
     (let previous_fault = client_fault_code previous;
          s1 = s\<lparr>fault_latch := reset_latch (fault_latch s)\<rparr>
      in if previous_fault \<noteq> FaultNone then
           (case snd (publish previous_fault (last_error (health previous)) (fault_latch s1, health s1)) of
              (latch, h) \<Rightarrow> s1\<lparr>fault_latch := latch, health := h\<rparr>)
         else s1)"

text \<open>The state shown after a stop.\<close>

definition show_stopped :: "Impl \<Rightarrow> Impl" where
  "show_stopped s = (if \<not> faulted s then set_client_state Stopped s else s)"

section \<open>Threads\<close>

text \<open>The two predicates \<open>start\<close> waits for; \<open>stop\<close> waits for the first.\<close>

datatype Wait = ForJoin | ForExit

text \<open>
  How far \<open>start\<close> is in creating a thread: the data is reset; the flags are set as well; the
  creation failed and the flags, or the flags and the data, are as before.
\<close>

datatype Creation = DataReset | FlagsSet | FlagsRestored exn | DataRestored exn

text \<open>The calls in progress. A call that creates a thread keeps the state it has saved.\<close>

datatype Call =
    NoCall
  | StartEnter bool | StartTests bool Wait | StartCommits bool Wait | StartSleeps bool Wait
  | StartWoken bool Wait | StartJoins bool thread_id | StartReaped bool | StartNotifies bool
  | StartCreates bool Impl Creation
  | StopEnter | StopCommands | StopTests | StopCommits | StopSleeps | StopWoken
  | StopJoins thread_id | StopJoined | StopNotifies

text \<open>
  A thread that executes \<open>run\<close>: in its loop (or in the callback), after the close of the last
  session, after the store to \<open>worker_exited_\<close>, after the final state, and after it returned
  until it is joined.
\<close>

datatype Phase = Absent | Runs | Closed | Exited | Announces | Ended

record Lifecycle =
  impl :: Impl
  worker :: "thread_id option"
  active_worker_id :: "thread_id option"
  joining :: bool
  lifecycle_mutex :: "thread_id option"
  calls :: "thread_id \<Rightarrow> Call"
  phase :: "thread_id \<Rightarrow> Phase"

definition Lifecycle_init :: "Impl \<Rightarrow> Lifecycle" where
  "Lifecycle_init s =
     \<lparr>impl = s, worker = None, active_worker_id = None, joining = False, lifecycle_mutex = None,
      calls = (\<lambda>_. NoCall), phase = (\<lambda>_. Absent)\<rparr>"

definition set_call :: "thread_id \<Rightarrow> Call \<Rightarrow> Lifecycle \<Rightarrow> Lifecycle" where
  "set_call t c s = s\<lparr>calls := (calls s)(t := c)\<rparr>"

definition set_phase :: "thread_id \<Rightarrow> Phase \<Rightarrow> Lifecycle \<Rightarrow> Lifecycle" where
  "set_phase w p s = s\<lparr>phase := (phase s)(w := p)\<rparr>"

definition lock :: "thread_id \<Rightarrow> Lifecycle \<Rightarrow> Lifecycle" where
  "lock t s = s\<lparr>lifecycle_mutex := Some t\<rparr>"

definition unlock :: "Lifecycle \<Rightarrow> Lifecycle" where
  "unlock s = s\<lparr>lifecycle_mutex := None\<rparr>"

definition on_impl :: "(Impl \<Rightarrow> Impl) \<Rightarrow> Lifecycle \<Rightarrow> Lifecycle" where
  "on_impl f s = s\<lparr>impl := f (impl s)\<rparr>"

fun wake :: "Call \<Rightarrow> Call" where
  "wake (StartSleeps callback w) = StartWoken callback w"
| "wake StopSleeps = StopWoken"
| "wake c = c"

text \<open>\<open>lifecycle_cv_.notify_all()\<close>.\<close>

definition notify_all :: "Lifecycle \<Rightarrow> Lifecycle" where
  "notify_all s = s\<lparr>calls := wake \<circ> calls s\<rparr>"

definition called_from_worker_thread :: "thread_id \<Rightarrow> Lifecycle \<Rightarrow> bool" where
  "called_from_worker_thread t s \<longleftrightarrow> \<not> worker_exited (impl s) \<and> active_worker_id s = Some t"

fun wait_over :: "Wait \<Rightarrow> Lifecycle \<Rightarrow> bool" where
  "wait_over ForJoin s = (\<not> joining s)"
| "wait_over ForExit s = (worker_exited (impl s) \<or> \<not> faulted (impl s))"

text \<open>
  The decision of \<open>start\<close> once no thread is joining. Without a worker the state is saved and
  the data is reset, and the call goes on to create a thread. The value is what the call
  returns, if it ends here.
\<close>

definition start_decide ::
    "thread_id \<Rightarrow> bool \<Rightarrow> Lifecycle \<Rightarrow> (exn, unit) result option \<times> Lifecycle" where
  "start_decide t callback s =
     (case worker s of
        Some w \<Rightarrow>
          if \<not> worker_exited (impl s) then
            (if \<not> faulted (impl s)
             then (Some (Inl (LogicError ''client is already running'')), unlock (set_call t NoCall s))
             else (None, set_call t (StartTests callback ForExit) s))
          else (None, unlock (set_call t (StartJoins callback w) (s\<lparr>joining := True, worker := None\<rparr>)))
      | None \<Rightarrow> (None, set_call t (StartCreates callback (impl s) DataReset) (on_impl start_reset s)))"

text \<open>The thread exists: it is stored, its id is set, and the call returns.\<close>

definition start_created :: "thread_id \<Rightarrow> thread_id \<Rightarrow> Lifecycle \<Rightarrow> Lifecycle" where
  "start_created t w s =
     unlock (set_call t NoCall (notify_all
       (set_phase w Runs (s\<lparr>worker := Some w, active_worker_id := Some w\<rparr>))))"

text \<open>The last section of the handler, after which the exception leaves \<open>start\<close>.\<close>

definition start_failed :: "thread_id \<Rightarrow> Impl \<Rightarrow> Lifecycle \<Rightarrow> Lifecycle" where
  "start_failed t previous s =
     unlock (set_call t NoCall (notify_all (on_impl (rollback_fault previous) s)))"

text \<open>The rest of the section of \<open>stop\<close> once the flag is raised.\<close>

definition stop_decide :: "Env \<Rightarrow> thread_id \<Rightarrow> Lifecycle \<Rightarrow> (exn, unit) result option \<times> Lifecycle" where
  "stop_decide env t s =
     (let s1 = on_impl (stop_command env) s
      in if called_from_worker_thread t s1 then (Some (Inr ()), unlock (set_call t NoCall s1))
         else if joining s1 then (None, set_call t StopTests s1)
         else case worker s1 of
                None \<Rightarrow> (Some (Inr ()), unlock (set_call t NoCall (on_impl show_stopped s1)))
              | Some w \<Rightarrow> (None, unlock (set_call t (StopJoins w) (s1\<lparr>joining := True, worker := None\<rparr>))))"

text \<open>The section after a join, of \<open>start\<close> and of \<open>stop\<close>.\<close>

definition reaped :: "Lifecycle \<Rightarrow> Lifecycle" where
  "reaped s = s\<lparr>active_worker_id := None, joining := False\<rparr>"

section \<open>The worker\<close>

text \<open>
  The sections a session consists of, in no particular order: what \<open>receive_session\<close> and
  \<open>handle_record\<close> can do to the state at one time.
\<close>

inductive session_section :: "Env \<Rightarrow> Impl \<Rightarrow> Impl \<Rightarrow> bool" for env where
  section_tick: "session_section env s (s\<lparr>tick := n\<rparr>)"
| section_observe: "session_section env s (snd (observe_record (env_platform env) r arrival s))"
| section_invoke: "sample_finite x \<Longrightarrow> session_section env s (s\<lparr>invoked := invoked s @ [x]\<rparr>)"
| section_delivery: "sample_finite x \<Longrightarrow> session_section env s (record_delivery (env_platform env) x arrival s)"
| section_callback_error: "session_section env s (record_callback_error m s)"
| section_connecting: "session_section env s (set_client_state Connecting s)"
| section_timeout: "session_section env s (count_timeout s)"
| section_malformed: "session_section env s (snd (count_malformed s))"
| section_well_formed: "session_section env s (s\<lparr>consecutive_malformed := 0\<rparr>)"
| section_tracking: "session_section env s (begin_tracking s)"
| section_configuration:
    "session_section env s (snd (configuration_for_session (env_platform env) curl fe s))"
| section_apply:
    "fst (configuration_for_session (env_platform env) curl fe (s\<lparr>curl_initialization := ini\<rparr>)) = Inr c \<Longrightarrow>
    session_section env s (apply_configuration c s)"
| section_connect: "session_section env s (snd (net_connect env s))"
| section_send: "session_section env s (snd (net_send env command s))"
| section_started: "fst (net_send env command s) = Inr () \<Longrightarrow>
    session_section env s ((snd (net_send env command s))\<lparr>session_started := True\<rparr>)"
| section_ended: "session_section env s (s\<lparr>session_started := False\<rparr>)"
| section_close: "\<not> session_started s \<Longrightarrow> session_section env s (net_close env s)"
| section_backoff: "session_section env s (enter_backoff m v d s)"

text \<open>The worker makes a session step only while it has published no fault.\<close>

inductive worker_step :: "Env \<Rightarrow> Impl \<Rightarrow> Impl \<Rightarrow> bool" for env where
  worker_section: "\<not> faulted s \<Longrightarrow> session_section env s t \<Longrightarrow> worker_step env s t"
| worker_fault: "code \<noteq> FaultNone \<Longrightarrow> worker_step env s (set_fault code m s)"

text \<open>The worker from its first step to its last access to the client, with the phase it is in.\<close>

inductive worker_life :: "Env \<Rightarrow> Phase \<times> Impl \<Rightarrow> Phase \<times> Impl \<Rightarrow> bool" for env where
  life_runs: "worker_step env i j \<Longrightarrow> worker_life env (Runs, i) (Runs, j)"
| life_closes: "stopping i \<or> faulted i \<Longrightarrow> worker_life env (Runs, i) (Closed, net_close env (end_stream env i))"
| life_exits: "worker_life env (Closed, i) (Exited, i\<lparr>worker_exited := True\<rparr>)"
| life_finishes: "worker_life env (Exited, i) (Announces, show_stopped i)"

text \<open>What happens around it: a call of another thread, or the clock.\<close>

inductive around :: "Env \<Rightarrow> Phase \<times> Impl \<Rightarrow> Phase \<times> Impl \<Rightarrow> bool" for env where
  around_api: "api_step env i j \<Longrightarrow> around env (p, i) (p, j)"
| around_tick: "around env (p, i) (p, i\<lparr>tick := n\<rparr>)"

section \<open>Steps\<close>

datatype Label =
    CallStart thread_id bool | CallStop thread_id
  | Internal thread_id | Return thread_id "(exn, unit) result"
  | Spurious thread_id | Worker thread_id | Reader

definition outcome_label :: "thread_id \<Rightarrow> (exn, unit) result option \<Rightarrow> Label" where
  "outcome_label t r = (case r of None \<Rightarrow> Internal t | Some x \<Rightarrow> Return t x)"

text \<open>
  A new thread gets an id no thread has; ids are reused, but not before the thread that had
  it is joined. The thread of the worker makes calls only from the callback.
\<close>

definition id_unused :: "thread_id \<Rightarrow> Lifecycle \<Rightarrow> bool" where
  "id_unused w s \<longleftrightarrow> phase s w = Absent \<and> calls s w = NoCall"

definition may_call :: "thread_id \<Rightarrow> Lifecycle \<Rightarrow> bool" where
  "may_call t s \<longleftrightarrow> calls s t = NoCall \<and> (phase s t = Absent \<or> phase s t = Runs)"

inductive lifecycle_step :: "Env \<Rightarrow> Lifecycle \<Rightarrow> Label \<Rightarrow> Lifecycle \<Rightarrow> bool" for env where
  call_start: "may_call t s \<Longrightarrow>
    lifecycle_step env s (CallStart t callback) (set_call t (StartEnter callback) s)"
| call_stop: "may_call t s \<Longrightarrow> lifecycle_step env s (CallStop t) (set_call t StopEnter s)"
| start_refused: "calls s t = StartEnter callback \<Longrightarrow> lifecycle_mutex s = None \<Longrightarrow>
    called_from_worker_thread t s \<Longrightarrow>
    lifecycle_step env s (Return t (Inl (LogicError ''client is already running''))) (set_call t NoCall s)"
| start_enters: "calls s t = StartEnter callback \<Longrightarrow> lifecycle_mutex s = None \<Longrightarrow>
    \<not> called_from_worker_thread t s \<Longrightarrow>
    lifecycle_step env s (Internal t) (lock t (set_call t (StartTests callback ForJoin) s))"
| start_decides: "calls s t = StartTests callback ForJoin \<Longrightarrow> wait_over ForJoin s \<Longrightarrow>
    start_decide t callback s = (r, s') \<Longrightarrow> lifecycle_step env s (outcome_label t r) s'"
| start_flagged: "calls s t = StartCreates callback previous DataReset \<Longrightarrow>
    lifecycle_step env s (Internal t)
      (set_call t (StartCreates callback previous FlagsSet) (on_impl (start_flags callback) s))"
| start_succeeds: "calls s t = StartCreates callback previous FlagsSet \<Longrightarrow> id_unused w s \<Longrightarrow>
    lifecycle_step env s (Return t (Inr ())) (start_created t w s)"
| start_fails: "calls s t = StartCreates callback previous FlagsSet \<Longrightarrow>
    lifecycle_step env s (Internal t)
      (set_call t (StartCreates callback previous (FlagsRestored e)) (on_impl (rollback_flags previous) s))"
| start_restores: "calls s t = StartCreates callback previous (FlagsRestored e) \<Longrightarrow>
    lifecycle_step env s (Internal t)
      (set_call t (StartCreates callback previous (DataRestored e)) (on_impl (rollback_data previous) s))"
| start_throws: "calls s t = StartCreates callback previous (DataRestored e) \<Longrightarrow>
    lifecycle_step env s (Return t (Inl e)) (start_failed t previous s)"
| start_retries: "calls s t = StartTests callback ForExit \<Longrightarrow> wait_over ForExit s \<Longrightarrow>
    lifecycle_step env s (Internal t) (unlock (set_call t (StartEnter callback) s))"
| start_commits: "calls s t = StartTests callback w \<Longrightarrow> \<not> wait_over w s \<Longrightarrow>
    lifecycle_step env s (Internal t) (set_call t (StartCommits callback w) s)"
| start_sleeps: "calls s t = StartCommits callback w \<Longrightarrow>
    lifecycle_step env s (Internal t) (unlock (set_call t (StartSleeps callback w) s))"
| start_wakes: "calls s t = StartWoken callback w \<Longrightarrow> lifecycle_mutex s = None \<Longrightarrow>
    lifecycle_step env s (Internal t) (lock t (set_call t (StartTests callback w) s))"
| start_spurious: "calls s t = StartSleeps callback w \<Longrightarrow>
    lifecycle_step env s (Spurious t) (set_call t (StartWoken callback w) s)"
| start_joins: "calls s t = StartJoins callback w \<Longrightarrow> phase s w = Ended \<Longrightarrow>
    lifecycle_step env s (Internal t) (set_phase w Absent (set_call t (StartReaped callback) s))"
| start_reaps: "calls s t = StartReaped callback \<Longrightarrow> lifecycle_mutex s = None \<Longrightarrow>
    lifecycle_step env s (Internal t) (set_call t (StartNotifies callback) (reaped s))"
| start_notifies: "calls s t = StartNotifies callback \<Longrightarrow>
    lifecycle_step env s (Internal t) (set_call t (StartEnter callback) (notify_all s))"
| stop_enters: "calls s t = StopEnter \<Longrightarrow> lifecycle_mutex s = None \<Longrightarrow>
    lifecycle_step env s (Internal t) (lock t (set_call t StopCommands (notify_all (on_impl stop_flag s))))"
| stop_decides: "calls s t = StopCommands \<Longrightarrow> stop_decide env t s = (r, s') \<Longrightarrow>
    lifecycle_step env s (outcome_label t r) s'"
| stop_retries: "calls s t = StopTests \<Longrightarrow> wait_over ForJoin s \<Longrightarrow>
    lifecycle_step env s (Internal t) (unlock (set_call t StopEnter s))"
| stop_commits: "calls s t = StopTests \<Longrightarrow> \<not> wait_over ForJoin s \<Longrightarrow>
    lifecycle_step env s (Internal t) (set_call t StopCommits s)"
| stop_sleeps: "calls s t = StopCommits \<Longrightarrow>
    lifecycle_step env s (Internal t) (unlock (set_call t StopSleeps s))"
| stop_wakes: "calls s t = StopWoken \<Longrightarrow> lifecycle_mutex s = None \<Longrightarrow>
    lifecycle_step env s (Internal t) (lock t (set_call t StopTests s))"
| stop_spurious: "calls s t = StopSleeps \<Longrightarrow>
    lifecycle_step env s (Spurious t) (set_call t StopWoken s)"
| stop_joins: "calls s t = StopJoins w \<Longrightarrow> phase s w = Ended \<Longrightarrow>
    lifecycle_step env s (Internal t) (set_phase w Absent (set_call t StopJoined s))"
| stop_reaps: "calls s t = StopJoined \<Longrightarrow> lifecycle_mutex s = None \<Longrightarrow>
    lifecycle_step env s (Internal t) (set_call t StopNotifies (reaped (on_impl show_stopped s)))"
| stop_notifies: "calls s t = StopNotifies \<Longrightarrow>
    lifecycle_step env s (Return t (Inr ())) (set_call t NoCall (notify_all s))"
| worker_runs: "phase s w = Runs \<Longrightarrow> calls s w = NoCall \<Longrightarrow> worker_step env (impl s) i \<Longrightarrow>
    lifecycle_step env s (Worker w) (s\<lparr>impl := i\<rparr>)"
| worker_notifies: "phase s w = Runs \<Longrightarrow> calls s w = NoCall \<Longrightarrow>
    lifecycle_step env s (Worker w) (notify_all s)"
| worker_closes: "phase s w = Runs \<Longrightarrow> calls s w = NoCall \<Longrightarrow>
    stopping (impl s) \<or> faulted (impl s) \<Longrightarrow>
    lifecycle_step env s (Worker w) (set_phase w Closed (on_impl (\<lambda>i. net_close env (end_stream env i)) s))"
| worker_exits: "phase s w = Closed \<Longrightarrow>
    lifecycle_step env s (Worker w) (set_phase w Exited (on_impl (\<lambda>i. i\<lparr>worker_exited := True\<rparr>) s))"
| worker_finishes: "phase s w = Exited \<Longrightarrow>
    lifecycle_step env s (Worker w) (set_phase w Announces (on_impl show_stopped s))"
| worker_announces: "phase s w = Announces \<Longrightarrow>
    lifecycle_step env s (Worker w) (set_phase w Ended (notify_all s))"
| reader_bias: "lifecycle_step env s Reader (on_impl (\<lambda>i. snd (bias env i)) s)"
| reader_health: "lifecycle_step env s Reader (on_impl (\<lambda>i. snd (client_health (env_platform env) now i)) s)"
| reader_tick: "lifecycle_step env s Reader (on_impl (\<lambda>i. i\<lparr>tick := n\<rparr>) s)"

inductive reachable :: "Env \<Rightarrow> Impl \<Rightarrow> Lifecycle \<Rightarrow> bool" for env i where
  reachable_init: "reachable env i (Lifecycle_init i)"
| reachable_step: "reachable env i s \<Longrightarrow> lifecycle_step env s l s' \<Longrightarrow> reachable env i s'"

definition lifecycle_steps :: "Env \<Rightarrow> Lifecycle \<Rightarrow> Lifecycle \<Rightarrow> bool" where
  "lifecycle_steps env = (\<lambda>s s'. \<exists>l. lifecycle_step env s l s')\<^sup>*\<^sup>*"

lemma lifecycle_steps_refl: "lifecycle_steps env s s"
  by (simp add: lifecycle_steps_def)

lemma lifecycle_steps_step: "lifecycle_steps env s s' \<Longrightarrow> lifecycle_step env s' l s'' \<Longrightarrow> lifecycle_steps env s s''"
  unfolding lifecycle_steps_def by (rule rtranclp.rtrancl_into_rtrancl) auto

lemma reachable_steps: "lifecycle_steps env s s' \<Longrightarrow> reachable env i s \<Longrightarrow> reachable env i s'"
  unfolding lifecycle_steps_def by (induction rule: rtranclp_induct) (auto intro: reachable_step)

end
