(* ===== verification/Lifecycle_Inv.thy ===== *)
theory Lifecycle_Inv
  imports Lifecycle
begin

text \<open>
  Invariants of the lifecycle under every interleaving: who holds the mutex, who joins the
  worker, which thread executes \<open>run\<close>.
\<close>

section \<open>Classes of program counters\<close>

fun holds_mutex :: "Call \<Rightarrow> bool" where
  "holds_mutex (StartTests _ _) = True"
| "holds_mutex (StartCommits _ _) = True"
| "holds_mutex (StartCreates _ _ _) = True"
| "holds_mutex StopCommands = True"
| "holds_mutex StopTests = True"
| "holds_mutex StopCommits = True"
| "holds_mutex _ = False"

text \<open>The thread a call has taken out of \<open>worker_\<close> and is about to join.\<close>

fun joins :: "Call \<Rightarrow> thread_id option" where
  "joins (StartJoins _ w) = Some w"
| "joins (StopJoins w) = Some w"
| "joins _ = None"

text \<open>The calls that have set \<open>joining_\<close>.\<close>

fun is_reaper :: "Call \<Rightarrow> bool" where
  "is_reaper (StartJoins _ _) = True"
| "is_reaper (StartReaped _) = True"
| "is_reaper (StopJoins _) = True"
| "is_reaper StopJoined = True"
| "is_reaper _ = False"

fun is_notifier :: "Call \<Rightarrow> bool" where
  "is_notifier (StartNotifies _) = True"
| "is_notifier StopNotifies = True"
| "is_notifier _ = False"

text \<open>A call that found another thread joining, before and after it released the mutex.\<close>

fun commits_to_join :: "Call \<Rightarrow> bool" where
  "commits_to_join (StartCommits _ ForJoin) = True"
| "commits_to_join StopCommits = True"
| "commits_to_join _ = False"

fun sleeps_for_join :: "Call \<Rightarrow> bool" where
  "sleeps_for_join (StartSleeps _ ForJoin) = True"
| "sleeps_for_join StopSleeps = True"
| "sleeps_for_join _ = False"

text \<open>Where the thread of the worker can be in a call from the callback.\<close>

fun in_callback :: "Call \<Rightarrow> bool" where
  "in_callback NoCall = True"
| "in_callback (StartEnter _) = True"
| "in_callback StopEnter = True"
| "in_callback StopCommands = True"
| "in_callback _ = False"

text \<open>The calls of \<open>start\<close> between the flags and the thread: the exit flag is down without a worker.\<close>

fun launching :: "Call \<Rightarrow> bool" where
  "launching (StartCreates _ _ FlagsSet) = True"
| "launching _ = False"

fun saved :: "Call \<Rightarrow> Impl option" where
  "saved (StartCreates _ previous _) = Some previous"
| "saved _ = None"

lemma launching_saved: "launching c \<Longrightarrow> saved c \<noteq> None"
  by (cases c rule: launching.cases) auto

lemma saved_holds: "saved c \<noteq> None \<Longrightarrow> holds_mutex c"
  by (cases c) auto

lemma wake_classes [simp]:
  "holds_mutex (wake c) = holds_mutex c" "joins (wake c) = joins c" "is_reaper (wake c) = is_reaper c"
  "is_notifier (wake c) = is_notifier c" "commits_to_join (wake c) = commits_to_join c"
  "\<not> sleeps_for_join (wake c)" "in_callback (wake c) = in_callback c"
  "wake c = NoCall \<longleftrightarrow> c = NoCall" "launching (wake c) = launching c" "saved (wake c) = saved c"
  by (cases c; simp)+

lemma joins_is_reaper: "joins c = Some w \<Longrightarrow> is_reaper c"
  by (cases c) auto

lemma reaper_classes: "is_reaper c \<Longrightarrow> \<not> holds_mutex c \<and> \<not> is_notifier c \<and> \<not> in_callback c \<and> c \<noteq> NoCall"
  by (cases c) auto

section \<open>The invariant\<close>

definition mutex_ok :: "Lifecycle \<Rightarrow> bool" where
  "mutex_ok s \<longleftrightarrow> (\<forall>t. holds_mutex (calls s t) \<longleftrightarrow> lifecycle_mutex s = Some t)"

definition joining_ok :: "Lifecycle \<Rightarrow> bool" where
  "joining_ok s \<longleftrightarrow>
     (\<forall>t u. is_reaper (calls s t) \<longrightarrow> is_reaper (calls s u) \<longrightarrow> t = u) \<and>
     (joining s \<longleftrightarrow> (\<exists>t. is_reaper (calls s t)))"

definition worker_ok :: "Lifecycle \<Rightarrow> bool" where
  "worker_ok s \<longleftrightarrow>
     (\<forall>w. worker s = Some w \<longrightarrow> \<not> joining s \<and> active_worker_id s = Some w \<and> phase s w \<noteq> Absent) \<and>
     (\<forall>w. phase s w \<noteq> Absent \<longrightarrow>
        active_worker_id s = Some w \<and> (worker s = Some w \<or> (\<exists>t. joins (calls s t) = Some w))) \<and>
     (\<forall>t w. joins (calls s t) = Some w \<longrightarrow> phase s w \<noteq> Absent)"

definition exited_ok :: "Lifecycle \<Rightarrow> bool" where
  "exited_ok s \<longleftrightarrow>
     (if worker_exited (impl s) then (\<forall>w. phase s w \<noteq> Runs \<and> phase s w \<noteq> Closed)
      else (\<exists>w. phase s w = Runs \<or> phase s w = Closed) \<or> (\<exists>t. launching (calls s t)))"

text \<open>While a call creates a thread there is none, and the saved exit flag is up.\<close>

definition creation_ok :: "Lifecycle \<Rightarrow> bool" where
  "creation_ok s \<longleftrightarrow>
     (\<forall>t previous. saved (calls s t) = Some previous \<longrightarrow>
        worker s = None \<and> \<not> joining s \<and> worker_exited previous \<and>
        (worker_exited (impl s) \<longleftrightarrow> \<not> launching (calls s t)))"

definition caller_ok :: "Lifecycle \<Rightarrow> bool" where
  "caller_ok s \<longleftrightarrow>
     (\<forall>t. calls s t \<noteq> NoCall \<longrightarrow> phase s t = Absent \<or> phase s t = Runs) \<and>
     (\<forall>t. phase s t \<noteq> Absent \<longrightarrow> in_callback (calls s t))"

definition wakeup_ok :: "Lifecycle \<Rightarrow> bool" where
  "wakeup_ok s \<longleftrightarrow>
     (\<forall>t. commits_to_join (calls s t) \<longrightarrow> joining s) \<and>
     (\<forall>t. sleeps_for_join (calls s t) \<longrightarrow> joining s \<or> (\<exists>u. is_notifier (calls s u)))"

definition control_ok :: "Lifecycle \<Rightarrow> bool" where
  "control_ok s \<longleftrightarrow>
     mutex_ok s \<and> joining_ok s \<and> worker_ok s \<and> exited_ok s \<and> creation_ok s \<and> caller_ok s \<and> wakeup_ok s"

lemmas step_functions =
  set_call_def set_phase_def lock_def unlock_def on_impl_def notify_all_def reaped_def outcome_label_def
  start_decide_def stop_decide_def start_created_def start_failed_def may_call_def id_unused_def called_from_worker_thread_def

lemma worker_exited_frame [simp]:
  "worker_exited (stop_flag i) = worker_exited i"
  "worker_exited (end_stream env i) = worker_exited i"
  "worker_exited (stop_command env i) = worker_exited i"
  "worker_exited (show_stopped i) = worker_exited i"
  "worker_exited (net_close env i) = worker_exited i"
  "worker_exited (snd (bias env i)) = worker_exited i"
  "worker_exited (snd (client_health p now i)) = worker_exited i"
  "worker_exited (start_reset i) = worker_exited i" "worker_exited (start_flags callback i) = False"
  "worker_exited (rollback_flags i j) = worker_exited i" "worker_exited (rollback_data i j) = worker_exited j"
  "worker_exited (rollback_fault i j) = worker_exited j"
  "worker_exited (set_fault code m i) = worker_exited i"
  using end_stream_data [of i env] bias_frame [of i env]
  by (simp_all add: stop_flag_def same_data_def stop_command_def net_shutdown_def show_stopped_def
      set_client_state_def with_health_def net_close_def client_health_def Let_def start_reset_def
      start_flags_def rollback_flags_def rollback_data_def rollback_fault_def set_fault_def split: prod.splits)

lemma session_section_exited: "session_section env i j \<Longrightarrow> worker_exited j = worker_exited i"
  by (induction rule: session_section.induct)
    (auto simp: observe_record_def worker_step_defs begin_tracking_def configuration_for_session_def
      net_connect_def net_send_def net_close_def split: prod.splits option.splits Backend.splits)

lemma worker_step_exited: "worker_step env i j \<Longrightarrow> worker_exited j = worker_exited i"
  by (auto simp: session_section_exited elim: worker_step.cases)

lemma fields [simp]:
  "calls (set_call t c s) = (calls s)(t := c)" "phase (set_call t c s) = phase s"
  "worker (set_call t c s) = worker s" "active_worker_id (set_call t c s) = active_worker_id s"
  "joining (set_call t c s) = joining s" "lifecycle_mutex (set_call t c s) = lifecycle_mutex s"
  "impl (set_call t c s) = impl s"
  "calls (set_phase w p s) = calls s" "phase (set_phase w p s) = (phase s)(w := p)"
  "worker (set_phase w p s) = worker s" "active_worker_id (set_phase w p s) = active_worker_id s"
  "joining (set_phase w p s) = joining s" "lifecycle_mutex (set_phase w p s) = lifecycle_mutex s"
  "impl (set_phase w p s) = impl s"
  "calls (lock t s) = calls s" "phase (lock t s) = phase s"
  "worker (lock t s) = worker s" "active_worker_id (lock t s) = active_worker_id s"
  "joining (lock t s) = joining s" "lifecycle_mutex (lock t s) = Some t" "impl (lock t s) = impl s"
  "calls (unlock s) = calls s" "phase (unlock s) = phase s"
  "worker (unlock s) = worker s" "active_worker_id (unlock s) = active_worker_id s"
  "joining (unlock s) = joining s" "lifecycle_mutex (unlock s) = None" "impl (unlock s) = impl s"
  "calls (on_impl f s) = calls s" "phase (on_impl f s) = phase s"
  "worker (on_impl f s) = worker s" "active_worker_id (on_impl f s) = active_worker_id s"
  "joining (on_impl f s) = joining s" "lifecycle_mutex (on_impl f s) = lifecycle_mutex s"
  "impl (on_impl f s) = f (impl s)"
  "calls (notify_all s) = wake \<circ> calls s" "phase (notify_all s) = phase s"
  "worker (notify_all s) = worker s" "active_worker_id (notify_all s) = active_worker_id s"
  "joining (notify_all s) = joining s" "lifecycle_mutex (notify_all s) = lifecycle_mutex s"
  "impl (notify_all s) = impl s"
  "calls (reaped s) = calls s" "phase (reaped s) = phase s" "worker (reaped s) = worker s"
  "active_worker_id (reaped s) = None" "joining (reaped s) = False"
  "lifecycle_mutex (reaped s) = lifecycle_mutex s" "impl (reaped s) = impl s"
  by (simp_all add: set_call_def set_phase_def lock_def unlock_def on_impl_def notify_all_def reaped_def)

text \<open>The branches of the two decisions.\<close>

lemma start_decide_cases:
  assumes "start_decide t callback s = (r, s')"
  obtains (running) w where "worker s = Some w" "\<not> worker_exited (impl s)" "\<not> faulted (impl s)"
      "r = Some (Inl (LogicError ''client is already running''))" "s' = unlock (set_call t NoCall s)"
    | (ending) w where "worker s = Some w" "\<not> worker_exited (impl s)" "faulted (impl s)" "r = None"
      "s' = set_call t (StartTests callback ForExit) s"
    | (ended) w where "worker s = Some w" "worker_exited (impl s)" "r = None"
      "s' = unlock (set_call t (StartJoins callback w) (s\<lparr>joining := True, worker := None\<rparr>))"
    | (free) "worker s = None" "r = None"
      "s' = set_call t (StartCreates callback (impl s) DataReset) (on_impl start_reset s)"
  using assms by (auto simp: start_decide_def split: option.splits if_splits)

lemma stop_decide_cases:
  fixes s :: Lifecycle
  assumes "stop_decide env t s = (r, s')"
  defines "s1 \<equiv> on_impl (stop_command env) s"
  obtains (self) "\<not> worker_exited (impl s)" "active_worker_id s = Some t" "r = Some (Inr ())"
      "s' = unlock (set_call t NoCall s1)"
    | (waits) "worker_exited (impl s) \<or> active_worker_id s \<noteq> Some t" "joining s" "r = None"
      "s' = set_call t StopTests s1"
    | (idle) "worker_exited (impl s) \<or> active_worker_id s \<noteq> Some t" "\<not> joining s" "worker s = None"
      "r = Some (Inr ())" "s' = unlock (set_call t NoCall (on_impl show_stopped s1))"
    | (takes) w where "worker_exited (impl s) \<or> active_worker_id s \<noteq> Some t" "\<not> joining s"
      "worker s = Some w" "r = None"
      "s' = unlock (set_call t (StopJoins w) (s1\<lparr>joining := True, worker := None\<rparr>))"
  using assms
  by (auto simp: stop_decide_def Let_def called_from_worker_thread_def split: option.splits if_splits)

section \<open>The mutex\<close>

lemma mutex_ok_set:
  "mutex_ok s \<Longrightarrow> holds_mutex c = holds_mutex (calls s t) \<Longrightarrow> mutex_ok (set_call t c s)"
  by (simp add: mutex_ok_def)

lemma mutex_ok_lock:
  "mutex_ok s \<Longrightarrow> lifecycle_mutex s = None \<Longrightarrow> holds_mutex c \<Longrightarrow> mutex_ok (lock t (set_call t c s))"
  by (auto simp: mutex_ok_def)

lemma mutex_ok_unlock:
  "mutex_ok s \<Longrightarrow> holds_mutex (calls s t) \<Longrightarrow> \<not> holds_mutex c \<Longrightarrow> mutex_ok (unlock (set_call t c s))"
  by (auto simp: mutex_ok_def)

lemma mutex_ok_frame [simp]:
  "mutex_ok (on_impl f s) = mutex_ok s" "mutex_ok (set_phase w p s) = mutex_ok s"
  "mutex_ok (notify_all s) = mutex_ok s" "mutex_ok (reaped s) = mutex_ok s"
  "mutex_ok (s\<lparr>impl := i\<rparr>) = mutex_ok s"
  "mutex_ok (s\<lparr>joining := j, worker := x\<rparr>) = mutex_ok s"
  "mutex_ok (s\<lparr>worker := x, active_worker_id := y\<rparr>) = mutex_ok s"
  by (simp_all add: mutex_ok_def)

lemma start_decide_mutex_ok:
  "start_decide t callback s = (r, s') \<Longrightarrow> mutex_ok s \<Longrightarrow> holds_mutex (calls s t) \<Longrightarrow> mutex_ok s'"
  by (erule start_decide_cases) (auto intro!: mutex_ok_set mutex_ok_unlock)

lemma stop_decide_mutex_ok:
  "stop_decide env t s = (r, s') \<Longrightarrow> mutex_ok s \<Longrightarrow> holds_mutex (calls s t) \<Longrightarrow> mutex_ok s'"
  by (erule stop_decide_cases) (auto intro!: mutex_ok_set mutex_ok_unlock)

lemma mutex_ok_step: "lifecycle_step env s l s' \<Longrightarrow> mutex_ok s \<Longrightarrow> mutex_ok s'"
  by (induction rule: lifecycle_step.induct)
    (auto simp: may_call_def start_created_def start_failed_def intro!: mutex_ok_set mutex_ok_lock mutex_ok_unlock
      elim!: start_decide_mutex_ok stop_decide_mutex_ok)

section \<open>The joining thread\<close>

lemma joining_ok_set:
  "joining_ok s \<Longrightarrow> is_reaper c = is_reaper (calls s t) \<Longrightarrow> joining_ok (set_call t c s)"
  unfolding joining_ok_def by (auto split: if_splits)

lemma joining_ok_take:
  "joining_ok s \<Longrightarrow> \<not> joining s \<Longrightarrow> is_reaper c \<Longrightarrow>
   joining_ok (set_call t c (s\<lparr>joining := True, worker := None\<rparr>))"
  unfolding joining_ok_def by auto

lemma joining_ok_reaped:
  "joining_ok s \<Longrightarrow> is_reaper (calls s t) \<Longrightarrow> \<not> is_reaper c \<Longrightarrow> joining_ok (set_call t c (reaped s))"
  unfolding joining_ok_def by auto

lemma joining_ok_frame [simp]:
  "joining_ok (on_impl f s) = joining_ok s" "joining_ok (set_phase w p s) = joining_ok s"
  "joining_ok (notify_all s) = joining_ok s" "joining_ok (lock t s) = joining_ok s"
  "joining_ok (unlock s) = joining_ok s" "joining_ok (s\<lparr>impl := i\<rparr>) = joining_ok s"
  "joining_ok (s\<lparr>worker := x, active_worker_id := y\<rparr>) = joining_ok s"
  by (simp_all add: joining_ok_def)

lemma start_decide_joining_ok:
  "start_decide t callback s = (r, s') \<Longrightarrow> joining_ok s \<Longrightarrow> \<not> joining s \<Longrightarrow>
   calls s t = StartTests callback w \<Longrightarrow> joining_ok s'"
  by (erule start_decide_cases) (auto intro: joining_ok_set joining_ok_take)

lemma stop_decide_joining_ok:
  "stop_decide env t s = (r, s') \<Longrightarrow> joining_ok s \<Longrightarrow> calls s t = StopCommands \<Longrightarrow> joining_ok s'"
  by (erule stop_decide_cases) (auto intro: joining_ok_set joining_ok_take)

lemma joining_ok_step: "lifecycle_step env s l s' \<Longrightarrow> joining_ok s \<Longrightarrow> joining_ok s'"
  by (induction rule: lifecycle_step.induct)
    (auto simp: may_call_def start_created_def start_failed_def intro: joining_ok_set joining_ok_reaped
      elim!: start_decide_joining_ok stop_decide_joining_ok)

section \<open>The worker thread\<close>

lemma no_reaper: "joining_ok s \<Longrightarrow> \<not> joining s \<Longrightarrow> joins (calls s t) = None"
  unfolding joining_ok_def using joins_is_reaper by fastforce

lemma only_reaper:
  "joining_ok s \<Longrightarrow> is_reaper (calls s t) \<Longrightarrow> joins (calls s u) = Some w \<Longrightarrow> u = t"
  unfolding joining_ok_def using joins_is_reaper by blast

lemma reaper_joining: "joining_ok s \<Longrightarrow> is_reaper (calls s t) \<Longrightarrow> joining s"
  unfolding joining_ok_def by blast

lemma worker_okI:
  assumes "\<And>w. worker s = Some w \<Longrightarrow> \<not> joining s \<and> active_worker_id s = Some w \<and> phase s w \<noteq> Absent"
    and "\<And>w. phase s w \<noteq> Absent \<Longrightarrow>
      active_worker_id s = Some w \<and> (worker s = Some w \<or> (\<exists>t. joins (calls s t) = Some w))"
    and "\<And>t w. joins (calls s t) = Some w \<Longrightarrow> phase s w \<noteq> Absent"
  shows "worker_ok s"
  using assms unfolding worker_ok_def by blast

lemma worker_okD:
  assumes "worker_ok s"
  shows "worker s = Some w \<Longrightarrow> \<not> joining s" "worker s = Some w \<Longrightarrow> active_worker_id s = Some w"
    "worker s = Some w \<Longrightarrow> phase s w \<noteq> Absent" "phase s w \<noteq> Absent \<Longrightarrow> active_worker_id s = Some w"
    "phase s w \<noteq> Absent \<Longrightarrow> worker s = Some w \<or> (\<exists>t. joins (calls s t) = Some w)"
    "joins (calls s t) = Some w \<Longrightarrow> phase s w \<noteq> Absent"
  using assms unfolding worker_ok_def by blast+

lemma only_worker:
  "worker_ok s \<Longrightarrow> phase s v \<noteq> Absent \<Longrightarrow> phase s w \<noteq> Absent \<Longrightarrow> v = w"
  using worker_okD(4) by (metis option.inject)

lemma worker_ok_set:
  assumes "worker_ok s" "joins c = joins (calls s t)"
  shows "worker_ok (set_call t c s)"
proof -
  have "joins (calls (set_call t c s) u) = joins (calls s u)" for u using assms(2) by simp
  with assms(1) show ?thesis unfolding worker_ok_def by simp
qed

lemma worker_ok_take:
  assumes "worker_ok s" "joining_ok s" "worker s = Some w" "joins c = Some w"
  shows "worker_ok (set_call t c (s\<lparr>joining := True, worker := None\<rparr>))"
proof -
  note w = worker_okD(1-3) [OF assms(1,3)]
  have "phase s v \<noteq> Absent \<longleftrightarrow> v = w" for v using only_worker [OF assms(1) _ w(3)] w(3) by blast
  with w(2) no_reaper [OF assms(2) w(1)] assms(4) show ?thesis
    by (intro worker_okI) (auto simp: fun_upd_def split: if_splits)
qed

lemma worker_ok_joined:
  assumes "worker_ok s" "joining_ok s" "joins (calls s t) = Some w" "joins c = None"
  shows "worker_ok (set_phase w Absent (set_call t c s))"
proof -
  have r: "is_reaper (calls s t)" by (rule joins_is_reaper [OF assms(3)])
  have w: "phase s w \<noteq> Absent" by (rule worker_okD(6) [OF assms(1,3)])
  have "worker s = None"
    using worker_okD(1) [OF assms(1)] reaper_joining [OF assms(2) r] by (cases "worker s") auto
  moreover have "phase s v = Absent" if "v \<noteq> w" for v using only_worker [OF assms(1) _ w] that by blast
  moreover have "joins (calls s u) = None" if "u \<noteq> t" for u
    using only_reaper [OF assms(2) r, of u] that by (cases "joins (calls s u)") auto
  ultimately show ?thesis using assms(4) by (intro worker_okI) (auto split: if_splits)
qed

lemma no_worker_reaped:
  assumes "worker_ok s" "joining_ok s" "is_reaper (calls s t)" "joins (calls s t) = None"
  shows "worker s = None \<and> phase s w = Absent \<and> joins (calls s u) = None"
proof -
  have j: "joining s" by (rule reaper_joining [OF assms(2,3)])
  have "joins (calls s u) = None" for u using only_reaper [OF assms(2,3), of u] assms(4) by force
  with j assms(1) show ?thesis unfolding worker_ok_def by (metis not_None_eq)
qed

lemma no_worker_idle:
  assumes "worker_ok s" "joining_ok s" "\<not> joining s" "worker s = None"
  shows "phase s w = Absent"
  using worker_okD(5) [OF assms(1), of w] assms(4) no_reaper [OF assms(2,3)] by auto

lemma worker_ok_reaped:
  assumes "worker_ok s" "joining_ok s" "is_reaper (calls s t)" "joins (calls s t) = None" "joins c = None"
  shows "worker_ok (set_call t c (reaped s))"
  using no_worker_reaped [OF assms(1-4)] assms(5) by (intro worker_okI) (auto split: if_splits)

lemma worker_ok_launch:
  assumes "worker_ok s" "joining_ok s" "\<not> joining s" "worker s = None"
  shows "worker_ok (set_phase w Runs (s\<lparr>worker := Some w, active_worker_id := Some w\<rparr>))"
  using assms(3) no_worker_idle [OF assms] no_reaper [OF assms(2,3)]
  by (intro worker_okI) (auto split: if_splits)

lemma worker_ok_phase:
  assumes "worker_ok s" "phase s w \<noteq> Absent" "p \<noteq> Absent"
  shows "worker_ok (set_phase w p s)"
proof -
  have "phase (set_phase w p s) v = Absent \<longleftrightarrow> phase s v = Absent" for v using assms(2,3) by simp
  with assms(1) show ?thesis unfolding worker_ok_def by simp
qed

lemma worker_ok_frame [simp]:
  "worker_ok (on_impl f s) = worker_ok s" "worker_ok (notify_all s) = worker_ok s"
  "worker_ok (lock t s) = worker_ok s" "worker_ok (unlock s) = worker_ok s"
  "worker_ok (s\<lparr>impl := i\<rparr>) = worker_ok s"
  by (simp_all add: worker_ok_def)

lemma start_decide_worker_ok:
  "start_decide t callback s = (r, s') \<Longrightarrow> worker_ok s \<Longrightarrow> joining_ok s \<Longrightarrow> \<not> joining s \<Longrightarrow>
   calls s t = StartTests callback w \<Longrightarrow> worker_ok s'"
  by (erule start_decide_cases) (auto intro: worker_ok_set worker_ok_take)

lemma stop_decide_worker_ok:
  "stop_decide env t s = (r, s') \<Longrightarrow> worker_ok s \<Longrightarrow> joining_ok s \<Longrightarrow> calls s t = StopCommands \<Longrightarrow> worker_ok s'"
  by (erule stop_decide_cases) (auto intro: worker_ok_set worker_ok_take)

lemma creation_okD:
  assumes "creation_ok s" "saved (calls s t) = Some previous"
  shows "worker s = None" "\<not> joining s" "worker_exited previous"
    "worker_exited (impl s) \<longleftrightarrow> \<not> launching (calls s t)"
  using assms unfolding creation_ok_def by blast+

lemma start_created_worker_ok:
  assumes "worker_ok s" "joining_ok s" "creation_ok s" "saved (calls s t) = Some previous"
  shows "worker_ok (start_created t w s)"
  unfolding start_created_def
  using worker_ok_launch [OF assms(1,2) creation_okD(2,1) [OF assms(3,4)], of w] assms(4)
  by (auto intro!: worker_ok_set) (cases "calls s t"; simp)

lemma worker_ok_step:
  "lifecycle_step env s l s' \<Longrightarrow> joining_ok s \<Longrightarrow> creation_ok s \<Longrightarrow> worker_ok s \<Longrightarrow> worker_ok s'"
  by (induction rule: lifecycle_step.induct)
    (auto simp: may_call_def start_failed_def intro: worker_ok_set worker_ok_reaped worker_ok_joined worker_ok_phase
      start_created_worker_ok elim!: start_decide_worker_ok stop_decide_worker_ok)

section \<open>The exit of the worker\<close>

lemma exited_ok_impl:
  "worker_exited (f (impl s)) = worker_exited (impl s) \<Longrightarrow> exited_ok (on_impl f s) = exited_ok s"
  "worker_exited i = worker_exited (impl s) \<Longrightarrow> exited_ok (s\<lparr>impl := i\<rparr>) = exited_ok s"
  by (simp_all add: exited_ok_def)

lemma exited_ok_frame [simp]:
  "exited_ok (notify_all s) = exited_ok s"
  "exited_ok (lock t s) = exited_ok s" "exited_ok (unlock s) = exited_ok s"
  "exited_ok (reaped s) = exited_ok s" "exited_ok (s\<lparr>joining := j, worker := x\<rparr>) = exited_ok s"
  "exited_ok (s\<lparr>worker := x, active_worker_id := y\<rparr>) = exited_ok s"
  by (simp_all add: exited_ok_def)

lemma exited_ok_set:
  assumes "exited_ok s" "launching c = launching (calls s t)"
  shows "exited_ok (set_call t c s)"
proof -
  have "launching (calls (set_call t c s) u) = launching (calls s u)" for u using assms(2) by simp
  with assms(1) show ?thesis unfolding exited_ok_def by simp
qed

lemma exited_ok_phase:
  assumes "exited_ok s" "p \<in> {Runs, Closed} \<longleftrightarrow> phase s w \<in> {Runs, Closed}"
  shows "exited_ok (set_phase w p s)"
proof -
  have v: "((phase s)(w := p)) v = Runs \<or> ((phase s)(w := p)) v = Closed \<longleftrightarrow> phase s v = Runs \<or> phase s v = Closed"
    for v using assms(2) by auto
  then have "(\<forall>v. ((phase s)(w := p)) v \<noteq> Runs \<and> ((phase s)(w := p)) v \<noteq> Closed) \<longleftrightarrow>
      (\<forall>v. phase s v \<noteq> Runs \<and> phase s v \<noteq> Closed)" by blast
  with assms(1) show ?thesis by (simp only: exited_ok_def fields v)
qed

lemma exited_ok_exits:
  assumes "worker_ok s" "phase s w = Closed" "worker_exited (f (impl s))"
  shows "exited_ok (set_phase w Exited (on_impl f s))"
proof -
  have "phase s v = Absent" if "v \<noteq> w" for v
    using only_worker [OF assms(1), of v w] assms(2) that by fastforce
  with assms(3) show ?thesis by (simp add: exited_ok_def)
qed

lemma no_worker_exited:
  assumes "worker_ok s" "joining_ok s" "\<not> joining s" "worker s = None" "worker_exited (impl s)"
  shows "exited_ok s"
  using no_worker_idle [OF assms(1-4)] assms(5) by (simp add: exited_ok_def)

lemma saved_mutex: "mutex_ok s \<Longrightarrow> saved (calls s t) = Some previous \<Longrightarrow> lifecycle_mutex s = Some t"
  using saved_holds unfolding mutex_ok_def by blast

lemma holder_launches: "mutex_ok s \<Longrightarrow> launching (calls s u) \<Longrightarrow> lifecycle_mutex s = Some u"
  using saved_mutex launching_saved by blast

text \<open>When the mutex is free, or held by a call that creates nothing, no call does.\<close>

lemma nothing_saved:
  assumes "mutex_ok s" "lifecycle_mutex s = None \<or> holds_mutex (calls s t) \<and> saved (calls s t) = None"
  shows "saved (calls s u) = None"
proof (rule ccontr)
  assume "saved (calls s u) \<noteq> None"
  then obtain previous where p: "saved (calls s u) = Some previous" by blast
  from assms(2) show False
  proof
    assume "lifecycle_mutex s = None"
    then show False using saved_mutex [OF assms(1) p] by simp
  next
    assume h: "holds_mutex (calls s t) \<and> saved (calls s t) = None"
    then have "lifecycle_mutex s = Some t" using assms(1) by (simp add: mutex_ok_def)
    then have "u = t" using saved_mutex [OF assms(1) p] by simp
    with h p show False by simp
  qed
qed

lemma free_exited:
  assumes "mutex_ok s" "joining_ok s" "worker_ok s" "exited_ok s" "\<not> joining s" "worker s = None"
    and "holds_mutex (calls s t)" "saved (calls s t) = None"
  shows "worker_exited (impl s)"
proof -
  have "\<not> launching (calls s u)" for u
    using nothing_saved [OF assms(1), of t u] assms(7,8) launching_saved by metis
  with no_worker_idle [OF assms(3,2,5,6)] assms(4) show ?thesis by (simp add: exited_ok_def split: if_splits)
qed

lemma start_decide_exited_ok:
  assumes "start_decide t callback s = (r, s')" "exited_ok s" "\<not> launching (calls s t)"
  shows "exited_ok s'"
  using assms(1)
  by (cases rule: start_decide_cases) (use assms(2,3) in \<open>auto simp: exited_ok_impl intro!: exited_ok_set\<close>)

lemma stop_decide_exited_ok:
  assumes "stop_decide env t s = (r, s')" "exited_ok s" "\<not> launching (calls s t)"
  shows "exited_ok s'"
  using assms(1)
  by (cases rule: stop_decide_cases) (use assms(2,3) in \<open>auto simp: exited_ok_impl intro!: exited_ok_set\<close>)

lemma exited_ok_step:
  assumes "lifecycle_step env s l s'" "worker_ok s" "joining_ok s" "creation_ok s" "exited_ok s"
  shows "exited_ok s'"
  using assms
proof (induction rule: lifecycle_step.induct)
  case (start_flagged s t callback previous)
  then show ?case by (auto simp: exited_ok_def intro: exI [of _ t])
next
  case (start_succeeds s t callback previous w)
  then have "\<not> worker_exited (impl s)" using creation_okD(4) [of s t previous] by simp
  then show ?case by (auto simp: exited_ok_def start_created_def intro: exI [of _ w])
next
  case (start_fails s t callback previous e)
  then have "worker s = None" "\<not> joining s" "worker_exited previous" using creation_okD [of s t previous] by simp_all
  with start_fails show ?case using no_worker_idle [of s] by (simp add: exited_ok_def)
next
  case (start_joins s t callback w)
  then have "exited_ok (set_call t (StartReaped callback) s)" by (intro exited_ok_set) simp_all
  with start_joins(2) show ?case by (intro exited_ok_phase) simp_all
next
  case (stop_joins s t w)
  then have "exited_ok (set_call t StopJoined s)" by (intro exited_ok_set) simp_all
  with stop_joins(2) show ?case by (intro exited_ok_phase) simp_all
qed (auto simp: exited_ok_impl worker_step_exited may_call_def start_failed_def intro!: exited_ok_exits
    intro: exited_ok_phase exited_ok_set elim!: start_decide_exited_ok stop_decide_exited_ok)

section \<open>The creation of a thread\<close>

lemma creation_okI:
  assumes "\<And>t previous. saved (calls s t) = Some previous \<Longrightarrow>
      worker s = None \<and> \<not> joining s \<and> worker_exited previous \<and>
      (worker_exited (impl s) \<longleftrightarrow> \<not> launching (calls s t))"
  shows "creation_ok s"
  using assms unfolding creation_ok_def by blast

lemma creation_ok_none: "(\<And>t. saved (calls s t) = None) \<Longrightarrow> creation_ok s"
  by (rule creation_okI) simp

lemma creation_ok_set:
  assumes "creation_ok s" "saved c = saved (calls s t)" "launching c = launching (calls s t)"
  shows "creation_ok (set_call t c s)"
proof (rule creation_okI)
  fix u previous
  assume "saved (calls (set_call t c s) u) = Some previous"
  then have "saved (calls s u) = Some previous" using assms(2) by (simp split: if_splits)
  from creation_okD [OF assms(1) this] assms(3)
  show "worker (set_call t c s) = None \<and> \<not> joining (set_call t c s) \<and> worker_exited previous \<and>
      (worker_exited (impl (set_call t c s)) \<longleftrightarrow> \<not> launching (calls (set_call t c s) u))" by simp
qed

lemma creation_ok_frame [simp]:
  "creation_ok (notify_all s) = creation_ok s" "creation_ok (lock t s) = creation_ok s"
  "creation_ok (unlock s) = creation_ok s" "creation_ok (set_phase w p s) = creation_ok s"
  by (simp_all add: creation_ok_def)

lemma creation_ok_impl:
  "worker_exited (f (impl s)) = worker_exited (impl s) \<Longrightarrow> creation_ok (on_impl f s) = creation_ok s"
  "worker_exited i = worker_exited (impl s) \<Longrightarrow> creation_ok (s\<lparr>impl := i\<rparr>) = creation_ok s"
  by (simp_all add: creation_ok_def)

text \<open>A step of the creating call itself.\<close>

lemma creation_ok_goes_on:
  assumes "mutex_ok s" "creation_ok s" "saved (calls s t) = Some previous" "saved c = Some previous"
    and "worker_exited (f (impl s)) \<longleftrightarrow> \<not> launching c"
  shows "creation_ok (set_call t c (on_impl f s))"
proof (rule creation_okI)
  fix u p
  assume u: "saved (calls (set_call t c (on_impl f s)) u) = Some p"
  have "u = t"
  proof (rule ccontr)
    assume "u \<noteq> t"
    with u have "saved (calls s u) = Some p" by simp
    with saved_mutex [OF assms(1) this] saved_mutex [OF assms(1,3)] \<open>u \<noteq> t\<close> show False by simp
  qed
  with u assms(4,5) creation_okD [OF assms(2,3)]
  show "worker (set_call t c (on_impl f s)) = None \<and> \<not> joining (set_call t c (on_impl f s)) \<and> worker_exited p \<and>
      (worker_exited (impl (set_call t c (on_impl f s))) \<longleftrightarrow> \<not> launching (calls (set_call t c (on_impl f s)) u))"
    by simp
qed

lemma creation_ok_returns:
  assumes "mutex_ok s" "saved (calls s t) = Some previous" "calls s' = (wake \<circ> calls s)(t := NoCall)"
  shows "creation_ok s'"
proof (rule creation_ok_none)
  fix u
  have "saved (calls s u) = None" if "u \<noteq> t"
    using saved_mutex [OF assms(1)] saved_mutex [OF assms(1,2)] that by (cases "saved (calls s u)") fastforce+
  then show "saved (calls s' u) = None" using assms(3) by simp
qed

lemma creation_ok_step:
  assumes "lifecycle_step env s l s'" "mutex_ok s" "joining_ok s" "worker_ok s" "exited_ok s" "creation_ok s"
  shows "creation_ok s'"
  using assms
proof (induction rule: lifecycle_step.induct)
  case (start_decides s t callback r s')
  have n: "saved (calls s u) = None" for u using nothing_saved [of s t u] start_decides by simp
  have e: "worker s = None \<Longrightarrow> worker_exited (impl s)" using free_exited [of s t] start_decides by simp
  from start_decides(3) show ?case
  proof (cases rule: start_decide_cases)
    case free
    with e n start_decides(2) show ?thesis by (intro creation_okI) (auto split: if_splits)
  qed (auto intro!: creation_ok_none simp: n)
next
  case (stop_decides s t r s')
  have n: "saved (calls s u) = None" for u using nothing_saved [of s t u] stop_decides by simp
  from stop_decides(2) show ?case by (cases rule: stop_decide_cases) (auto intro!: creation_ok_none simp: n)
next
  case (start_flagged s t callback previous)
  then show ?case by (intro creation_ok_goes_on) auto
next
  case (start_fails s t callback previous e)
  then show ?case using creation_okD(3) [of s t previous] by (intro creation_ok_goes_on) auto
next
  case (start_restores s t callback previous e)
  then show ?case using creation_okD(4) [of s t previous] by (intro creation_ok_goes_on) auto
next
  case (start_succeeds s t callback previous w)
  then show ?case by (intro creation_ok_returns [of s t previous]) (simp_all add: start_created_def)
next
  case (start_throws s t callback previous e)
  then show ?case by (intro creation_ok_returns [of s t previous]) (simp_all add: start_failed_def)
next
  case (start_reaps s t callback)
  then show ?case using nothing_saved [of s] by (intro creation_ok_none) simp
next
  case (stop_reaps s t)
  then show ?case using nothing_saved [of s] by (intro creation_ok_none) simp
next
  case (worker_exits s w)
  have "saved (calls s u) = None" for u
  proof (cases "saved (calls s u)")
    case (Some previous)
    then show ?thesis
      using no_worker_idle [of s w] creation_okD(1,2) [of s u previous] worker_exits by simp
  qed
  then show ?case by (intro creation_ok_none) simp
qed (auto simp: creation_ok_impl worker_step_exited may_call_def intro: creation_ok_set)

section \<open>Callers\<close>

lemma caller_okI:
  assumes "\<And>t. calls s t \<noteq> NoCall \<Longrightarrow> phase s t = Absent \<or> phase s t = Runs"
    and "\<And>t. phase s t \<noteq> Absent \<Longrightarrow> in_callback (calls s t)"
  shows "caller_ok s"
  using assms unfolding caller_ok_def by blast

lemma caller_okD:
  assumes "caller_ok s"
  shows "calls s t \<noteq> NoCall \<Longrightarrow> phase s t = Absent \<or> phase s t = Runs"
    "phase s t \<noteq> Absent \<Longrightarrow> in_callback (calls s t)"
  using assms unfolding caller_ok_def by blast+

lemma caller_ok_set:
  assumes "caller_ok s" "c = NoCall \<or> phase s t = Absent \<or> phase s t = Runs \<and> in_callback c"
  shows "caller_ok (set_call t c s)"
  using assms(2) caller_okD [OF assms(1)] by (intro caller_okI) (auto split: if_splits)

lemma caller_ok_phase:
  assumes "caller_ok s" "p = Absent \<or> p = Runs \<and> in_callback (calls s w) \<or> calls s w = NoCall"
  shows "caller_ok (set_phase w p s)"
  using assms(2) caller_okD [OF assms(1)] by (intro caller_okI) (auto split: if_splits)

lemma caller_ok_frame [simp]:
  "caller_ok (on_impl f s) = caller_ok s" "caller_ok (notify_all s) = caller_ok s"
  "caller_ok (lock t s) = caller_ok s" "caller_ok (unlock s) = caller_ok s"
  "caller_ok (reaped s) = caller_ok s" "caller_ok (s\<lparr>joining := j, worker := x\<rparr>) = caller_ok s"
  "caller_ok (s\<lparr>worker := x, active_worker_id := y\<rparr>) = caller_ok s" "caller_ok (s\<lparr>impl := i\<rparr>) = caller_ok s"
  by (simp_all add: caller_ok_def)

text \<open>A thread that is not the worker in its callback does not execute \<open>run\<close>.\<close>

lemma not_worker_absent:
  assumes "worker_ok s" "exited_ok s" "caller_ok s" "calls s t \<noteq> NoCall"
    and "worker_exited (impl s) \<or> active_worker_id s \<noteq> Some t"
  shows "phase s t = Absent"
  using caller_okD(1) [OF assms(3,4)] assms(5) worker_okD(4) [OF assms(1), of t] assms(2)
  unfolding exited_ok_def by auto

lemma call_absent: "caller_ok s \<Longrightarrow> \<not> in_callback (calls s t) \<Longrightarrow> phase s t = Absent"
  using caller_okD(2) by blast

lemma exiting_no_call: "caller_ok s \<Longrightarrow> phase s w \<notin> {Absent, Runs} \<Longrightarrow> calls s w = NoCall"
  using caller_okD(1) by blast

lemma caller_ok_again: "caller_ok s \<Longrightarrow> \<not> in_callback (calls s t) \<Longrightarrow> caller_ok (set_call t c s)"
  by (simp add: caller_ok_set call_absent)

lemma caller_ok_exit: "caller_ok s \<Longrightarrow> phase s w \<notin> {Absent, Runs} \<Longrightarrow> caller_ok (set_phase w p s)"
  by (simp add: caller_ok_phase exiting_no_call)

lemma caller_ok_absent: "caller_ok s \<Longrightarrow> caller_ok (set_phase w Absent s)"
  by (simp add: caller_ok_phase)

lemma start_decide_caller_ok:
  assumes "start_decide t callback s = (r, s')" "caller_ok s" "calls s t = StartTests callback v"
  shows "caller_ok s'"
  using assms(1)
  by (cases rule: start_decide_cases) (use assms(2,3) in \<open>auto intro!: caller_ok_again\<close>)

lemma start_created_caller_ok:
  assumes "caller_ok s" "\<not> in_callback (calls s t)" "id_unused w s"
  shows "caller_ok (start_created t w s)"
  using assms call_absent [OF assms(1,2)] unfolding start_created_def
  by (auto simp: id_unused_def intro!: caller_ok_set caller_ok_phase)

lemma stop_decide_caller_ok:
  assumes "stop_decide env t s = (r, s')" "caller_ok s" "worker_ok s" "exited_ok s"
    and "calls s t = StopCommands"
  shows "caller_ok s'"
  using assms(1)
  by (cases rule: stop_decide_cases)
    (use assms(2,5) not_worker_absent [OF assms(3,4,2), of t] in \<open>auto intro!: caller_ok_set\<close>)

lemma caller_ok_step:
  assumes "lifecycle_step env s l s'" "worker_ok s" "exited_ok s" "caller_ok s"
  shows "caller_ok s'"
  using assms
proof (induction rule: lifecycle_step.induct)
  case (start_enters s t callback)
  then show ?case
    using not_worker_absent [of s t]
    by (auto simp: called_from_worker_thread_def intro!: caller_ok_set)
next
  case (stop_enters s t)
  then show ?case using caller_okD(1) [of s t] by (auto intro!: caller_ok_set)
qed (auto simp: may_call_def start_failed_def intro!: caller_ok_absent start_created_caller_ok intro: caller_ok_again caller_ok_exit caller_ok_set caller_ok_phase
    elim!: start_decide_caller_ok stop_decide_caller_ok)

section \<open>Wake-ups\<close>

lemma commits_holds: "commits_to_join c \<Longrightarrow> holds_mutex c"
  by (cases c rule: commits_to_join.cases) auto

lemma wakeup_okI:
  assumes "\<And>t. commits_to_join (calls s t) \<Longrightarrow> joining s"
    and "\<And>t. sleeps_for_join (calls s t) \<Longrightarrow> joining s \<or> (\<exists>u. is_notifier (calls s u))"
  shows "wakeup_ok s"
  using assms unfolding wakeup_ok_def by blast

lemma wakeup_ok_set:
  assumes "wakeup_ok s" "commits_to_join c \<Longrightarrow> joining s" "sleeps_for_join c \<Longrightarrow> joining s"
    and "is_notifier (calls s t) \<Longrightarrow> is_notifier c"
  shows "wakeup_ok (set_call t c s)"
proof -
  have "\<exists>v. is_notifier (calls (set_call t c s) v)" if "is_notifier (calls s u)" for u
    using that assms(4) by (cases "u = t") (auto intro: exI [of _ u])
  then have s: "joining s \<or> (\<exists>v. is_notifier (calls (set_call t c s) v))"
    if "sleeps_for_join (calls s u)" for u
    using assms(1) that unfolding wakeup_ok_def by blast
  have c: "joining s" if "commits_to_join (calls s u)" for u
    using assms(1) that unfolding wakeup_ok_def by blast
  show ?thesis
  proof (rule wakeup_okI)
    fix u
    show "joining (set_call t c s)" if "commits_to_join (calls (set_call t c s) u)"
      using that c assms(2) by (cases "u = t") auto
    show "joining (set_call t c s) \<or> (\<exists>v. is_notifier (calls (set_call t c s) v))"
      if "sleeps_for_join (calls (set_call t c s) u)"
      using that s [of u] assms(3) by (cases "u = t") auto
  qed
qed

lemma wakeup_ok_notify: "wakeup_ok s \<Longrightarrow> wakeup_ok (notify_all s)"
  by (simp add: wakeup_ok_def)

lemma wakeup_ok_notify_set:
  "wakeup_ok s \<Longrightarrow> \<not> commits_to_join c \<Longrightarrow> \<not> sleeps_for_join c \<Longrightarrow>
   wakeup_ok (set_call t c (notify_all s))"
  by (auto simp: wakeup_ok_def)

lemma wakeup_ok_reaped:
  assumes "mutex_ok s" "lifecycle_mutex s = None" "is_notifier c"
  shows "wakeup_ok (set_call t c (reaped s))"
proof -
  have "\<not> commits_to_join (calls s u)" for u using assms(1,2) commits_holds by (auto simp: mutex_ok_def)
  moreover have "\<not> commits_to_join c" using assms(3) by (cases c) auto
  ultimately show ?thesis using assms(3) unfolding wakeup_ok_def by (auto split: if_splits)
qed

lemma wakeup_ok_take:
  "wakeup_ok (set_call t c (s\<lparr>joining := True, worker := None\<rparr>))"
  by (simp add: wakeup_ok_def)

lemma wakeup_ok_frame [simp]:
  "wakeup_ok (on_impl f s) = wakeup_ok s" "wakeup_ok (set_phase w p s) = wakeup_ok s"
  "wakeup_ok (lock t s) = wakeup_ok s" "wakeup_ok (unlock s) = wakeup_ok s"
  "wakeup_ok (s\<lparr>worker := x, active_worker_id := y\<rparr>) = wakeup_ok s" "wakeup_ok (s\<lparr>impl := i\<rparr>) = wakeup_ok s"
  by (simp_all add: wakeup_ok_def)

lemma commit_joining: "wakeup_ok s \<Longrightarrow> commits_to_join (calls s t) \<Longrightarrow> joining s"
  unfolding wakeup_ok_def by blast

lemma start_decide_wakeup_ok:
  assumes "start_decide t callback s = (r, s')" "wakeup_ok s" "calls s t = StartTests callback v"
  shows "wakeup_ok s'"
  using assms(1)
  by (cases rule: start_decide_cases) (use assms(2,3) in \<open>auto simp: wakeup_ok_take intro: wakeup_ok_set\<close>)

lemma stop_decide_wakeup_ok:
  assumes "stop_decide env t s = (r, s')" "wakeup_ok s" "calls s t = StopCommands"
  shows "wakeup_ok s'"
  using assms(1)
  by (cases rule: stop_decide_cases)
    (use assms(2,3) in \<open>auto simp: wakeup_ok_take intro: wakeup_ok_set\<close>)

lemma wakeup_ok_step:
  assumes "lifecycle_step env s l s'" "mutex_ok s" "wakeup_ok s"
  shows "wakeup_ok s'"
  using assms
proof (induction rule: lifecycle_step.induct)
  case (start_commits s t callback w)
  then show ?case by (cases w) (auto intro: wakeup_ok_set)
next
  case (start_sleeps s t callback w)
  then show ?case using commit_joining [of s t] by (cases w) (auto intro: wakeup_ok_set)
next
  case (stop_sleeps s t)
  then show ?case using commit_joining [of s t] by (auto intro: wakeup_ok_set)
qed (auto simp: may_call_def start_created_def start_failed_def intro: wakeup_ok_set wakeup_ok_notify wakeup_ok_notify_set wakeup_ok_reaped
    elim!: start_decide_wakeup_ok stop_decide_wakeup_ok)

section \<open>Every reachable state\<close>

lemma control_ok_init: "worker_exited i \<Longrightarrow> control_ok (Lifecycle_init i)"
  by (simp add: control_ok_def mutex_ok_def joining_ok_def worker_ok_def exited_ok_def creation_ok_def caller_ok_def
      wakeup_ok_def Lifecycle_init_def)

lemma control_ok_step: "lifecycle_step env s l s' \<Longrightarrow> control_ok s \<Longrightarrow> control_ok s'"
  unfolding control_ok_def
  by (auto intro: mutex_ok_step joining_ok_step worker_ok_step exited_ok_step creation_ok_step caller_ok_step wakeup_ok_step)

lemma reachable_control_ok: "reachable env i s \<Longrightarrow> worker_exited i \<Longrightarrow> control_ok s"
  by (induction rule: reachable.induct) (auto intro: control_ok_init control_ok_step)

text \<open>
  C1. At most one thread executes \<open>run\<close> at any time, under every interleaving of \<open>start\<close> and
  \<open>stop\<close>. It is the thread \<open>active_worker_id_\<close> names, and it either is in \<open>worker_\<close>, with no thread
  joining, or was taken out by exactly one call that joins it. No thread joins itself.
\<close>

theorem one_worker:
  assumes "reachable env i s" "worker_exited i"
  shows "(phase s v \<noteq> Absent \<longrightarrow> phase s w \<noteq> Absent \<longrightarrow> v = w) \<and>
    (phase s w \<noteq> Absent \<longrightarrow> active_worker_id s = Some w \<and>
       (worker s = Some w \<and> (\<forall>t. joins (calls s t) = None) \<or>
        worker s = None \<and> (\<exists>!t. joins (calls s t) = Some w))) \<and>
    joins (calls s w) \<noteq> Some w"
proof -
  have k: "worker_ok s" "joining_ok s" "caller_ok s"
    using reachable_control_ok [OF assms] by (simp_all add: control_ok_def)
  have "joins (calls s t) = None" if "worker s = Some w" for t
    using no_reaper [OF k(2) worker_okD(1) [OF k(1) that]] .
  moreover have "worker s = None \<and> (\<exists>!t. joins (calls s t) = Some w)" if "joins (calls s t) = Some w" for t
  proof -
    note r = joins_is_reaper [OF that]
    have "worker s = None"
      using worker_okD(1) [OF k(1)] reaper_joining [OF k(2) r] by (cases "worker s") auto
    with that only_reaper [OF k(2) r] show ?thesis by blast
  qed
  moreover have "joins (calls s w) \<noteq> Some w"
    using worker_okD(6) [OF k(1), of w w] caller_okD(2) [OF k(3), of w] reaper_classes joins_is_reaper by blast
  ultimately show ?thesis
    using only_worker [OF k(1)] worker_okD(4,5) [OF k(1)] by blast
qed

text \<open>A client in its first start: thread 2 is about to create the worker.\<close>

definition creating_client :: "Impl \<Rightarrow> Lifecycle" where
  "creating_client i =
     \<lparr>impl = start_flags True (start_reset i), worker = None, active_worker_id = None, joining = False,
      lifecycle_mutex = Some 2, calls = (\<lambda>_. NoCall)(2 := StartCreates True i FlagsSet), phase = (\<lambda>_. Absent)\<rparr>"

text \<open>A client after one start: thread 7 executes \<open>run\<close>.\<close>

definition started_client :: "Impl \<Rightarrow> Lifecycle" where
  "started_client i =
     \<lparr>impl = start_flags True (start_reset i), worker = Some 7, active_worker_id = Some 7, joining = False,
      lifecycle_mutex = None, calls = (\<lambda>_. NoCall), phase = (\<lambda>_. Absent)(7 := Runs)\<rparr>"

text \<open>
  The steps of this start, for every property that they keep: thread 2 makes them, and no
  thread but 7 appears.
\<close>

lemma first_start:
  assumes "worker_exited i" "R (Lifecycle_init i)"
    and "\<And>s l s'. R s \<Longrightarrow> lifecycle_step env s l s' \<Longrightarrow>
      l \<in> {CallStart 2 True, Internal 2, Return 2 (Inr ())} \<Longrightarrow> (\<forall>w. w \<noteq> 7 \<longrightarrow> phase s' w = Absent) \<Longrightarrow> R s'"
  shows "R (creating_client i)" "R (started_client i)"
proof -
  let ?s1 = "set_call 2 (StartEnter True) (Lifecycle_init i)"
  let ?s2 = "lock 2 (set_call 2 (StartTests True ForJoin) ?s1)"
  let ?s3 = "set_call 2 (StartCreates True i DataReset) (on_impl start_reset ?s2)"
  let ?s4 = "set_call 2 (StartCreates True i FlagsSet) (on_impl (start_flags True) ?s3)"
  have "R ?s1"
    by (rule assms(3) [OF assms(2) call_start]) (simp_all add: may_call_def Lifecycle_init_def)
  then have "R ?s2"
    by (rule assms(3) [OF _ start_enters [of _ 2 True]])
      (simp_all add: Lifecycle_init_def called_from_worker_thread_def assms(1))
  moreover have "start_decide 2 True ?s2 = (None, ?s3)"
    by (simp add: start_decide_def Lifecycle_init_def)
  ultimately have "R ?s3"
    by (rule assms(3) [OF _ start_decides [of _ 2 True, rotated 2]])
      (simp_all add: Lifecycle_init_def outcome_label_def)
  then have "R ?s4"
    by (rule assms(3) [OF _ start_flagged]) (simp_all add: Lifecycle_init_def)
  moreover have "?s4 = creating_client i"
    by (simp add: creating_client_def Lifecycle_init_def set_call_def lock_def on_impl_def)
  ultimately show c: "R (creating_client i)" by simp
  have "R (start_created 2 7 (creating_client i))"
    by (rule assms(3) [OF c start_succeeds [of _ 2 True i]])
      (simp_all add: creating_client_def id_unused_def start_created_def)
  moreover have "start_created 2 7 (creating_client i) = started_client i"
    by (simp add: start_created_def started_client_def creating_client_def set_call_def set_phase_def
        unlock_def notify_all_def fun_eq_iff)
  ultimately show "R (started_client i)" by simp
qed

lemma creating_client_reachable: "worker_exited i \<Longrightarrow> reachable env i (creating_client i)"
  by (rule first_start(1) [where env = env and R = "reachable env i"]) (auto intro: reachable_step reachable_init)

lemma started_client_reachable: "worker_exited i \<Longrightarrow> reachable env i (started_client i)"
  by (rule first_start(2) [where env = env and R = "reachable env i"]) (auto intro: reachable_step reachable_init)

lemma one_worker_witness:
  "phase (started_client (Impl_init Config_default)) 7 \<noteq> Absent \<and>
   active_worker_id (started_client (Impl_init Config_default)) = Some 7 \<and>
   joins (calls (started_client (Impl_init Config_default)) 7) \<noteq> Some 7"
  using one_worker [OF started_client_reachable, of "Impl_init Config_default" 7 7]
  by (simp add: Impl_init_def started_client_def)

text \<open>The steps of a call, by the place it is at.\<close>

fun step_of :: "Label \<Rightarrow> thread_id option" where
  "step_of (Internal t) = Some t"
| "step_of (Return t _) = Some t"
| "step_of _ = None"

lemma step_of_outcome [simp]: "step_of (outcome_label t r) = Some t"
  by (simp add: outcome_label_def split: option.splits)

lemma step_from_start_enter:
  assumes "lifecycle_step env s l s'" "step_of l = Some t" "calls s t = StartEnter callback"
  shows "lifecycle_mutex s = None \<and>
    (if called_from_worker_thread t s
     then l = Return t (Inl (LogicError ''client is already running'')) \<and> s' = set_call t NoCall s
     else l = Internal t \<and> s' = lock t (set_call t (StartTests callback ForJoin) s))"
  using assms by (cases rule: lifecycle_step.cases) auto

lemma step_from_stop_enter:
  assumes "lifecycle_step env s l s'" "step_of l = Some t" "calls s t = StopEnter"
  shows "lifecycle_mutex s = None \<and> l = Internal t \<and>
    s' = lock t (set_call t StopCommands (notify_all (on_impl stop_flag s)))"
  using assms by (cases rule: lifecycle_step.cases) auto

lemma step_from_stop_commands:
  assumes "lifecycle_step env s l s'" "step_of l = Some t" "calls s t = StopCommands"
  shows "l = outcome_label t (fst (stop_decide env t s)) \<and> s' = snd (stop_decide env t s)"
  using assms by (cases rule: lifecycle_step.cases) auto

text \<open>
  C17. Calls from the callback do not wait for the thread they run on. On the thread of the
  worker \<open>start\<close> is refused with \<open>client is already running\<close> and no effect; \<open>stop\<close> raises the
  flag, ends the stream and returns, and never takes the worker away to join it.
\<close>

theorem callback_calls_return:
  assumes "reachable env i s" "worker_exited i" "phase s t = Runs"
    and "lifecycle_step env s l s'" "step_of l = Some t"
  shows "case calls s t of
      StartEnter callback \<Rightarrow>
        l = Return t (Inl (LogicError ''client is already running'')) \<and> s' = set_call t NoCall s
    | StopEnter \<Rightarrow> calls s' t = StopCommands \<and> stopping (impl s') \<and> worker s' = worker s
    | StopCommands \<Rightarrow> l = Return t (Inr ()) \<and> calls s' t = NoCall \<and> worker s' = worker s \<and>
        joining s' = joining s \<and> impl s' = stop_command env (impl s)
    | _ \<Rightarrow> False"
proof -
  have k: "worker_ok s" "exited_ok s" "caller_ok s"
    using reachable_control_ok [OF assms(1,2)] by (simp_all add: control_ok_def)
  have c: "in_callback (calls s t)" using caller_okD(2) [OF k(3)] assms(3) by simp
  have w: "\<not> worker_exited (impl s)" "active_worker_id s = Some t"
    using k(2) worker_okD(4) [OF k(1), of t] assms(3) by (auto simp: exited_ok_def)
  then have w': "called_from_worker_thread t s" by (simp add: called_from_worker_thread_def)
  have "calls s t \<noteq> NoCall"
    using assms(4,5) by (cases rule: lifecycle_step.cases) auto
  with c w w' step_from_start_enter [OF assms(4,5)] step_from_stop_enter [OF assms(4,5)]
    step_from_stop_commands [OF assms(4,5)]
  show ?thesis
    by (cases "calls s t") (auto simp: stop_decide_def called_from_worker_thread_def outcome_label_def
        stop_flag_def Let_def)
qed

text \<open>The callback of thread 7 calls \<open>start\<close>.\<close>

lemma callback_calls_return_witness:
  "let s = set_call 7 (StartEnter True) (started_client (Impl_init Config_default));
       l = Return 7 (Inl (LogicError ''client is already running''))
   in phase s 7 = Runs \<and> lifecycle_step quiet_env s l (set_call 7 NoCall s) \<and>
      (case calls s 7 of StartEnter callback \<Rightarrow> l = Return 7 (Inl (LogicError ''client is already running''))
         | _ \<Rightarrow> False)"
proof -
  let ?i = "Impl_init Config_default" let ?c = "started_client ?i"
  let ?s = "set_call 7 (StartEnter True) ?c"
  let ?l = "Return 7 (Inl (LogicError ''client is already running''))"
  have i: "worker_exited ?i" by (simp add: Impl_init_def)
  have r: "reachable quiet_env ?i ?s"
    by (rule reachable_step [OF started_client_reachable [OF i] call_start])
      (simp add: may_call_def started_client_def)
  have p: "phase ?s 7 = Runs" by (simp add: started_client_def)
  have l: "lifecycle_step quiet_env ?s ?l (set_call 7 NoCall ?s)"
    by (rule start_refused [of _ _ True]) (simp_all add: started_client_def called_from_worker_thread_def start_flags_def)
  show ?thesis using callback_calls_return [OF r i p l] p l by (simp add: Let_def)
qed

end
