(* ===== verification/Lifecycle_Data.thy ===== *)
theory Lifecycle_Data
  imports Lifecycle_Inv
begin

text \<open>
  What the lifecycle keeps of the data of the client: the locale \<open>impl_invariant\<close> lists the
  steps a predicate on \<open>Impl\<close> has to survive to hold in every reachable state, across any
  number of starts and stops. The worker of \<open>Client_Session\<close> takes only the steps that the
  lifecycle allows its thread.
\<close>

section \<open>Predicates that survive the lifecycle\<close>

lemma start_decide_saved:
  assumes "start_decide t callback s = (r, s')" "saved (calls s' u) = Some previous"
  shows "saved (calls s u) = Some previous \<or>
    u = t \<and> worker s = None \<and> previous = impl s \<and> r = None \<and> calls s' t = StartCreates callback previous DataReset"
  using assms(1) by (cases rule: start_decide_cases) (use assms(2) in \<open>auto split: if_splits\<close>)

lemma stop_decide_saved: "stop_decide env t s = (r, s') \<Longrightarrow> saved (calls s' u) = Some previous \<Longrightarrow> saved (calls s u) = Some previous"
  by (erule stop_decide_cases) (auto split: if_splits)

text \<open>A state is saved by the decision of \<open>start\<close>, and only there.\<close>

lemma saved_step:
  assumes "lifecycle_step env s l s'" "saved (calls s' t) = Some previous" "saved (calls s t) \<noteq> Some previous"
  shows "\<exists>callback. calls s t = StartTests callback ForJoin \<and> \<not> joining s \<and> worker s = None \<and> previous = impl s \<and>
    l = Internal t \<and> calls s' t = StartCreates callback previous DataReset \<and> impl s' = start_reset (impl s)"
  using assms(1)
proof (cases rule: lifecycle_step.cases)
  case (start_decides u callback r)
  then have "t = u \<and> worker s = None \<and> previous = impl s \<and> r = None" 
    using start_decide_saved [OF start_decides(4) assms(2)] assms(3) by blast
  with start_decides show ?thesis by (auto simp: outcome_label_def start_decide_def)
next
  case (stop_decides u r)
  then show ?thesis using stop_decide_saved assms(2,3) by blast
qed (use assms(2,3) in \<open>simp_all add: start_created_def start_failed_def split: if_splits\<close>)

text \<open>The steps of a thread that creates a worker, as opposed to all others.\<close>

definition creation_step :: "Lifecycle \<Rightarrow> Label \<Rightarrow> Lifecycle \<Rightarrow> bool" where
  "creation_step s l s' \<longleftrightarrow>
     (\<exists>t. step_of l = Some t \<and> (saved (calls s t) \<noteq> None \<or> saved (calls s' t) \<noteq> None))"

locale step_invariant =
  fixes ok :: "Env \<Rightarrow> bool" and P :: "Impl \<Rightarrow> bool"
  assumes on_worker: "ok env \<Longrightarrow> P i \<Longrightarrow> worker_step env i j \<Longrightarrow> P j"
    and on_flag: "P i \<Longrightarrow> P (stop_flag i)"
    and on_command: "P i \<Longrightarrow> P (stop_command env i)"
    and on_bias: "P i \<Longrightarrow> P (snd (bias env i))"
    and on_health: "P i \<Longrightarrow> P (snd (client_health p now i))"
    and on_tick: "P i \<Longrightarrow> P (i\<lparr>tick := n\<rparr>)"
    and on_close: "P i \<Longrightarrow> P (net_close env (end_stream env i))"
    and on_exit: "P i \<Longrightarrow> P (i\<lparr>worker_exited := True\<rparr>)"
    and on_stopped: "P i \<Longrightarrow> P (show_stopped i)"
begin

lemma on_start_decide:
  "start_decide t callback s = (r, s') \<Longrightarrow> saved (calls s' t) = None \<Longrightarrow> P (impl s) \<Longrightarrow> P (impl s')"
  by (erule start_decide_cases) auto

lemma on_stop_decide: "stop_decide env t s = (r, s') \<Longrightarrow> P (impl s) \<Longrightarrow> P (impl s')"
  by (erule stop_decide_cases) (auto intro: on_command on_stopped)

lemma on_other_step:
  "lifecycle_step env s l s' \<Longrightarrow> \<not> creation_step s l s' \<Longrightarrow> ok env \<Longrightarrow> P (impl s) \<Longrightarrow> P (impl s')"
  by (induction rule: lifecycle_step.induct)
    (auto simp: creation_step_def intro: on_worker on_flag on_bias on_health on_tick on_close on_exit on_stopped
      elim: on_start_decide on_stop_decide)

end

locale impl_invariant = step_invariant +
  assumes on_reset: "P i \<Longrightarrow> P (start_reset i)"
    and on_start_flags: "P i \<Longrightarrow> P (start_flags callback i)"
    and on_rollback_flags: "P i \<Longrightarrow> P j \<Longrightarrow> P (rollback_flags i j)"
    and on_rollback_data: "P i \<Longrightarrow> P j \<Longrightarrow> P (rollback_data i j)"
    and on_rollback_fault: "P i \<Longrightarrow> P j \<Longrightarrow> P (rollback_fault i j)"
begin

lemma on_creation_step:
  assumes "lifecycle_step env s l s'" "step_of l = Some t" "P (impl s)"
    and "saved (calls s t) = Some previous \<and> P previous \<or> saved (calls s t) = None \<and> saved (calls s' t) \<noteq> None"
  shows "P (impl s')"
  using assms
  by (cases rule: lifecycle_step.cases)
    (auto simp: start_created_def start_failed_def intro: on_reset on_start_flags on_rollback_flags
      on_rollback_data on_rollback_fault elim!: start_decide_cases stop_decide_cases)

lemma on_reachable:
  assumes "reachable env i s" "ok env" "P i"
  shows "P (impl s)" "saved (calls s t) = Some previous \<Longrightarrow> P previous"
proof -
  from assms(1) have "P (impl s) \<and> (\<forall>t previous. saved (calls s t) = Some previous \<longrightarrow> P previous)"
  proof (induction rule: reachable.induct)
    case reachable_init
    then show ?case using assms(3) by (simp add: Lifecycle_init_def)
  next
    case (reachable_step s l s')
    have "P previous" if "saved (calls s' t) = Some previous" for t previous
      using saved_step [OF reachable_step.hyps(2) that] reachable_step.IH by blast
    moreover have "P (impl s')"
    proof (cases "creation_step s l s'")
      case True
      then obtain t where t: "step_of l = Some t" "saved (calls s t) \<noteq> None \<or> saved (calls s' t) \<noteq> None"
        unfolding creation_step_def by blast
      note step = on_creation_step [OF reachable_step.hyps(2) t(1) conjunct1 [OF reachable_step.IH]]
      show ?thesis
        using t(2) reachable_step.IH by (cases "saved (calls s t)") (auto intro: step)
    next
      case False
      then show ?thesis using on_other_step [OF reachable_step.hyps(2)] assms(2) reachable_step.IH by blast
    qed
    ultimately show ?case by blast
  qed
  then show "P (impl s)" "saved (calls s t) = Some previous \<Longrightarrow> P previous" by blast+
qed

end

text \<open>The steps outside of the worker leave its data alone.\<close>

lemma stop_command_data: "same_data i (stop_command env i)"
  using end_stream_data [of i env] by (simp add: stop_command_def net_shutdown_def same_data_def)

lemma stop_steps_data:
  "same_data i (stop_flag i)" "same_data i (snd (bias env i))"
  "same_data i (snd (client_health p now i))" "same_data i (net_close env (end_stream env i))"
  using bias_frame [of i env] same_data_trans [OF end_stream_data net_close_data]
  by (simp_all add: stop_flag_def same_data_def client_health_def Let_def)

context data_invariant
begin

lemma inv_section: "session_section env s t \<Longrightarrow> inv s \<Longrightarrow> inv t"
proof (induction rule: session_section.induct)
  case (section_apply curl fe ini s c)
  have "inv (s\<lparr>curl_initialization := ini\<rparr>)"
    using section_apply.prems by (rule on_data [rotated]) (simp add: same_data_def)
  then show ?case using on_apply [OF _ section_apply.hyps] section_apply.prems by blast
next
  case (section_configuration s curl fe)
  then show ?case
    by (rule on_data [rotated])
      (simp add: same_data_def configuration_for_session_def split: option.splits prod.splits)
next
  case (section_connect s)
  then show ?case by (rule on_data [rotated]) simp
next
  case (section_send s command)
  then show ?case by (rule on_data [rotated]) simp
next
  case (section_started command s)
  have "same_data s ((snd (net_send env command s))\<lparr>session_started := True\<rparr>)"
    using net_send_data [of s env command] by (simp add: same_data_def)
  then show ?case using section_started.prems on_data by blast
next
  case (section_close s)
  then show ?case using on_data [OF net_close_data] by blast
qed (blast intro: on_observe on_invoke on_delivery on_callback_error on_connecting on_timeout
    on_malformed on_backoff inv_tick inv_well_formed inv_tracking inv_ended)+

end

text \<open>What the sections of \<open>start\<close> do to the fields the predicates speak of.\<close>

lemma start_frames:
  "config (start_reset i) = config i" "invoked (start_reset i) = invoked i" "latest (start_reset i) = None"
  "generation (start_reset i) = generation i + 1" "delivered_generation (start_reset i) = 0"
  "udp (start_reset i) = udp i" "session_started (start_reset i) = session_started i"
  "sensor_configuration (health (start_reset i)) = sensor_configuration (health i)"
  "config (start_flags callback i) = config i" "invoked (start_flags callback i) = invoked i"
  "latest (start_flags callback i) = latest i" "generation (start_flags callback i) = generation i"
  "delivered_generation (start_flags callback i) = delivered_generation i" "udp (start_flags callback i) = udp i"
  "session_started (start_flags callback i) = session_started i" "health (start_flags callback i) = health i"
  "config (rollback_flags i j) = config j" "invoked (rollback_flags i j) = invoked j"
  "latest (rollback_flags i j) = latest j" "generation (rollback_flags i j) = generation j"
  "delivered_generation (rollback_flags i j) = delivered_generation j" "udp (rollback_flags i j) = udp j"
  "session_started (rollback_flags i j) = session_started j" "health (rollback_flags i j) = health j"
  "config (rollback_data i j) = config j" "invoked (rollback_data i j) = invoked j"
  "latest (rollback_data i j) = latest i" "generation (rollback_data i j) = generation i"
  "delivered_generation (rollback_data i j) = delivered_generation i" "udp (rollback_data i j) = udp j"
  "session_started (rollback_data i j) = session_started j" "health (rollback_data i j) = health i"
  "config (rollback_fault i j) = config j" "invoked (rollback_fault i j) = invoked j"
  "latest (rollback_fault i j) = latest j" "generation (rollback_fault i j) = generation j"
  "delivered_generation (rollback_fault i j) = delivered_generation j" "udp (rollback_fault i j) = udp j"
  "session_started (rollback_fault i j) = session_started j"
  "sensor_configuration (health (rollback_fault i j)) = sensor_configuration (health j)"
  by (simp_all add: start_reset_def start_flags_def rollback_flags_def rollback_data_def rollback_fault_def
      publish_def Let_def)

text \<open>The fault in the latch is the one the health record shows.\<close>

lemma worker_step_consistent: "worker_step env i j \<Longrightarrow> fault_consistent i \<Longrightarrow> fault_consistent j"
proof (induction rule: worker_step.induct)
  case (worker_section s t)
  then have "fault_free s" by (simp add: fault_free_def fault_consistent_def)
  with worker_section show ?case by (blast intro: fault_free_consistent faults.inv_section)
qed (rule set_fault_consistent)

lemma show_stopped_frame:
  "faulted (show_stopped i) = faulted i" "client_fault_code (show_stopped i) = client_fault_code i"
  "config (show_stopped i) = config i" "invoked (show_stopped i) = invoked i"
  "latest (show_stopped i) = latest i" "generation (show_stopped i) = generation i"
  "delivered_generation (show_stopped i) = delivered_generation i" "udp (show_stopped i) = udp i"
  "session_started (show_stopped i) = session_started i" "stopping (show_stopped i) = stopping i"
  "sensor_configuration (health (show_stopped i)) = sensor_configuration (health i)"
  "fault_code (health (show_stopped i)) = fault_code (health i)"
  by (simp_all add: show_stopped_def set_client_state_def with_health_def faulted_def client_fault_code_def)

lemma start_fault_frames:
  "fault_free (start_reset i)" "faulted (start_flags callback i) = faulted i"
  "faulted (rollback_flags i j) = faulted j" "faulted (rollback_data i j) = faulted j"
  by (simp_all add: fault_free_def faulted_def start_reset_def start_flags_def rollback_flags_def rollback_data_def
      reset_latch_def latch_faulted_def)

interpretation consistent: step_invariant "\<lambda>_. True" fault_consistent
proof
  fix i :: Impl
  show "fault_consistent i \<Longrightarrow> fault_consistent (i\<lparr>worker_exited := True\<rparr>)"
    by (simp add: fault_consistent_def faulted_def client_fault_code_def)
  show "fault_consistent i \<Longrightarrow> fault_consistent (show_stopped i)"
    by (auto simp: fault_consistent_def show_stopped_frame) (simp add: show_stopped_def)
  show "fault_consistent i \<Longrightarrow> fault_consistent (i\<lparr>tick := n\<rparr>)" for n
    by (simp add: fault_consistent_def faulted_def client_fault_code_def)
qed (use consistent_same_data stop_command_data stop_steps_data worker_step_consistent in blast)+

text \<open>A predicate on the data of the worker that a fault, a restart and a stop leave alone.\<close>

locale lifecycle_data = data_invariant +
  assumes on_fault: "inv i \<Longrightarrow> inv (set_fault code m i)"
    and on_exited: "inv i \<Longrightarrow> inv (i\<lparr>worker_exited := True\<rparr>)"
    and on_shown: "inv i \<Longrightarrow> inv (set_client_state Stopped i)"
    and on_start: "inv i \<Longrightarrow> inv (start_reset i)" "inv i \<Longrightarrow> inv (start_flags callback i)"
    and on_rolled_back: "inv i \<Longrightarrow> inv j \<Longrightarrow> inv (rollback_flags i j)"
      "inv i \<Longrightarrow> inv j \<Longrightarrow> inv (rollback_data i j)" "inv i \<Longrightarrow> inv j \<Longrightarrow> inv (rollback_fault i j)"

sublocale lifecycle_data \<subseteq> impl_invariant "\<lambda>_. True" inv
proof
  fix env i j
  show "inv i \<Longrightarrow> worker_step env i j \<Longrightarrow> inv j"
    by (erule worker_step.cases) (auto intro: on_fault inv_section)
  show "inv i \<Longrightarrow> inv (show_stopped i)" by (simp add: show_stopped_def on_shown)
qed (blast intro: on_exited inv_tick on_start on_rolled_back on_data [OF stop_command_data]
    on_data [OF stop_steps_data(1)] on_data [OF stop_steps_data(2)] on_data [OF stop_steps_data(3)]
    on_data [OF stop_steps_data(4)])+

interpretation samples: lifecycle_data samples_ok
  by unfold_locales
    (auto simp: samples_ok_def set_fault_frame start_frames
      set_client_state_def with_health_def)

interpretation configured: lifecycle_data "configured_as c" for c
  by unfold_locales
    (auto simp: configured_as_def set_fault_frame start_frames
      set_client_state_def with_health_def)

text \<open>A run that has delivered a sample has a latest sample.\<close>

definition first_sample_ok :: "Impl \<Rightarrow> bool" where
  "first_sample_ok s \<longleftrightarrow> (delivered_generation s = generation s \<longrightarrow> generation s = 0 \<or> latest s \<noteq> None)"

lemma observe_record_generation:
  "generation (snd (observe_record p r arrival s)) = generation s"
  "delivered_generation (snd (observe_record p r arrival s)) = delivered_generation s"
  by (simp_all add: observe_record_def Let_def split: prod.splits option.splits)

lemma set_fault_generation:
  "generation (set_fault code m s) = generation s"
  "delivered_generation (set_fault code m s) = delivered_generation s"
  by (simp_all add: set_fault_def split: prod.splits)

interpretation first_sample: lifecycle_data first_sample_ok
  by unfold_locales
    (auto simp: first_sample_ok_def same_data_def observe_record_generation observe_record_frame
      worker_step_defs set_fault_generation set_fault_frame start_frames)

text \<open>The account of the socket.\<close>

lemma session_section_socket_ok:
  "session_section env s t \<Longrightarrow> fresh_os env \<Longrightarrow> socket_ok s \<Longrightarrow> socket_ok t"
proof (induction rule: session_section.induct)
  case (section_connect s)
  then show ?case by (simp add: net_connect_socket_ok)
next
  case (section_started command s)
  then show ?case using net_send_ok [of env command s] by (simp add: socket_ok_def)
next
  case (section_close s)
  then show ?case using net_close_no_leak [of s env] by (auto simp: socket_ok_def net_close_def)
qed (auto simp: socket_ok_def observe_record_frame worker_step_defs begin_tracking_def
    configuration_for_session_def split: option.splits prod.splits)

lemma api_step_socket_ok: "api_step env s t \<Longrightarrow> socket_ok s \<Longrightarrow> socket_ok t"
  using api_step_frame [of env s t] by (auto simp: socket_ok_def)

lemma stop_command_socket_ok: "socket_ok i \<Longrightarrow> socket_ok (stop_command env i)"
proof -
  assume "socket_ok i"
  then have "socket_ok (stop_flag i)" by (simp add: socket_ok_def stop_flag_def)
  moreover have "api_step env (stop_flag i) (stop_command env (stop_flag i))"
    by (rule api_stop_command) (simp add: stop_flag_def)
  ultimately have "socket_ok (stop_command env (stop_flag i))" by (rule api_step_socket_ok [rotated])
  moreover have "udp (stop_command env (stop_flag i)) = udp (stop_command env i)"
    "session_started (stop_command env (stop_flag i)) = session_started (stop_command env i)"
    by (simp_all add: stop_command_def net_shutdown_def stop_flag_def end_stream_def net_send_def Let_def
        split: Backend.splits)
  ultimately show ?thesis by (simp add: socket_ok_def)
qed

lemma set_fault_socket_ok: "socket_ok i \<Longrightarrow> socket_ok (set_fault code m i)"
  by (simp add: socket_ok_def set_fault_frame)

interpretation sockets: impl_invariant fresh_os socket_ok
proof
  fix env i j
  show "fresh_os env \<Longrightarrow> socket_ok i \<Longrightarrow> worker_step env i j \<Longrightarrow> socket_ok j"
    by (erule worker_step.cases) (simp_all add: session_section_socket_ok set_fault_socket_ok)
  show "socket_ok i \<Longrightarrow> socket_ok (net_close env (end_stream env i))"
    using net_close_no_leak [of "end_stream env i" env] by (auto simp: socket_ok_def net_close_def)
  show "socket_ok i \<Longrightarrow> socket_ok (snd (bias env i))" by (rule api_step_socket_ok [OF api_bias])
  show "socket_ok i \<Longrightarrow> socket_ok (stop_command env i)" by (rule stop_command_socket_ok)
qed (auto simp: socket_ok_def stop_flag_def client_health_def Let_def
    show_stopped_frame start_frames)

section \<open>The worker takes these steps\<close>

definition worker_reaches :: "Env \<Rightarrow> Impl \<Rightarrow> Impl \<Rightarrow> bool" where
  "worker_reaches env = (\<lambda>i j. worker_step env i j \<or> api_step env i j \<or> (\<exists>n. j = i\<lparr>tick := n\<rparr>))\<^sup>*\<^sup>*"

text \<open>The states of a session, all reached from the first one.\<close>

definition in_session :: "Env \<Rightarrow> Impl \<Rightarrow> Impl \<Rightarrow> bool" where
  "in_session env s0 s \<longleftrightarrow> worker_reaches env s0 s \<and> fault_free s \<and> config s = config s0"

lemma in_session_section: "in_session env s0 s \<Longrightarrow> session_section env s t \<Longrightarrow> in_session env s0 t"
proof -
  assume s: "in_session env s0 s" and t: "session_section env s t"
  then have "worker_step env s t" by (auto simp: in_session_def fault_free_def intro: worker_section)
  with s have "worker_reaches env s0 t" unfolding in_session_def worker_reaches_def by (blast intro: rtranclp.rtrancl_into_rtrancl)
  with s show ?thesis
    using faults.inv_section [OF t] configured.inv_section [OF t, of "config s0"]
    by (simp add: in_session_def configured_as_def)
qed

lemma in_session_api: "(api_step env)\<^sup>*\<^sup>* s t \<Longrightarrow> in_session env s0 s \<Longrightarrow> in_session env s0 t"
proof (induction rule: rtranclp_induct)
  case (step t u)
  have "worker_reaches env s0 u"
    using step unfolding in_session_def worker_reaches_def by (blast intro: rtranclp.rtrancl_into_rtrancl)
  with step api_step_frame [OF step.hyps(2)] show ?case
    by (auto simp: in_session_def fault_free_def faulted_def same_data_def)
qed

lemma configuration_depends:
  "config u = config s \<Longrightarrow> curl_initialization u = curl_initialization s \<Longrightarrow>
   fst (configuration_for_session p curl fe u) = fst (configuration_for_session p curl fe s)"
  by (simp add: configuration_for_session_def split: option.splits prod.splits)

interpretation session: session_invariant "\<lambda>e. e = env \<and> benign env" "in_session env s0" for env s0
proof
  fix e s n
  show "e = env \<and> benign env \<Longrightarrow> in_session env s0 s \<Longrightarrow> in_session env s0 (interference e n s)"
    by (auto simp: benign_def intro: in_session_api)
next
  fix e s t curl fe c
  assume e: "e = env \<and> benign env" and s: "in_session env s0 s"
    and c: "fst (configuration_for_session (env_platform e) curl fe s) = Inr c" and t: "in_session env s0 t"
  have "fst (configuration_for_session (env_platform env) curl fe
      (t\<lparr>curl_initialization := curl_initialization s\<rparr>)) = Inr c"
    using c e configuration_depends [of "t\<lparr>curl_initialization := curl_initialization s\<rparr>" s] s t
    by (simp add: in_session_def)
  then show "in_session env s0 (apply_configuration c t)"
    using in_session_section [OF t section_apply] by blast
qed (blast intro: in_session_section session_section.intros)+

definition worker_history :: "Env \<Rightarrow> Phase \<times> Impl \<Rightarrow> Phase \<times> Impl \<Rightarrow> bool" where
  "worker_history env = (\<lambda>x y. worker_life env x y \<or> around env x y)\<^sup>*\<^sup>*"

lemma history_refl: "worker_history env x x"
  by (simp add: worker_history_def)

lemma history_trans: "worker_history env x y \<Longrightarrow> worker_history env y z \<Longrightarrow> worker_history env x z"
  by (simp add: worker_history_def)

lemma history_life: "worker_history env x y \<Longrightarrow> worker_life env y z \<Longrightarrow> worker_history env x z"
  unfolding worker_history_def by (blast intro: rtranclp.rtrancl_into_rtrancl)

lemma history_around: "worker_history env x y \<Longrightarrow> around env y z \<Longrightarrow> worker_history env x z"
  unfolding worker_history_def by (blast intro: rtranclp.rtrancl_into_rtrancl)

lemma history_api: "(api_step env)\<^sup>*\<^sup>* i j \<Longrightarrow> worker_history env (p, i) (p, j)"
  by (induction rule: rtranclp_induct) (auto intro: history_refl history_around around_api)

lemma history_yield: "benign env \<Longrightarrow> worker_history env x (p, i) \<Longrightarrow> worker_history env x (p, yield env i)"
  unfolding yield_def benign_def by (blast intro: history_around history_trans history_api around_tick)

lemma history_reaches: "worker_reaches env i j \<Longrightarrow> worker_history env (Runs, i) (Runs, j)"
  unfolding worker_reaches_def
  by (induction rule: rtranclp_induct)
    (auto intro: history_refl history_life history_around life_runs around_api around_tick)

lemma history_fault:
  "worker_history env x (Runs, i) \<Longrightarrow> code \<noteq> FaultNone \<Longrightarrow> worker_history env x (Runs, set_fault code m i)"
  by (blast intro: history_life life_runs worker_fault)

text \<open>The end of the worker.\<close>

lemma history_finish:
  assumes "benign env" "worker_history env x (Runs, i)" "stopping i \<or> faulted i"
  shows "worker_history env x (Announces, finish_session env i)"
proof -
  let ?y = "yield env i" let ?c = "close_session env i"
  let ?e = "(yield env ?c)\<lparr>worker_exited := True\<rparr>" let ?f = "yield env ?e"
  have "stopping ?y \<or> faulted ?y"
    using assms(3) yield_frame(1,2) [OF assms(1), of i] by (auto simp: same_data_def faulted_def)
  then have "worker_history env x (Closed, ?c)"
    unfolding close_session_def using history_life [OF history_yield [OF assms(1,2)] life_closes] by blast
  then have "worker_history env x (Exited, ?e)"
    using history_life [OF history_yield [OF assms(1)] life_exits] by blast
  then have f: "worker_history env x (Exited, ?f)" by (rule history_yield [OF assms(1)])
  have same: "faulted (yield env ?f) = faulted ?f"
    using yield_frame(1) [OF assms(1), of ?f] by (simp add: same_data_def faulted_def)
  show ?thesis
  proof (cases "faulted ?f")
    case True
    then have "finish_session env i = show_stopped ?f" by (simp add: finish_session_def Let_def show_stopped_def)
    then show ?thesis using history_life [OF f life_finishes] by simp
  next
    case False
    then have "finish_session env i = show_stopped (yield env ?f)"
      using same by (simp add: finish_session_def Let_def show_stopped_def)
    then show ?thesis using history_life [OF history_yield [OF assms(1) f] life_finishes] by simp
  qed
qed

lemma run_loop_reaches:
  assumes "benign env" "fault_free s" "run_loop fuel env backoff s = Some (r, s')"
  shows "worker_history env (Runs, s) (Runs, s')"
proof -
  have s: "in_session env s s" using assms(2) by (simp add: in_session_def worker_reaches_def)
  have "run_end (in_session env s) s'"
    using session.inv_run_loop [OF _ s assms(3)] assms(1) by blast
  then show ?thesis
    by (auto simp: run_end_def in_session_def fault_for_not_None intro: history_fault history_reaches)
qed

text \<open>
  C12. The worker refines the lifecycle. Every execution of \<open>run\<close>, with whatever other threads
  do in between, is a history of the steps the lifecycle gives the worker: sections of a
  session while no fault is published, then the close, the exit flag and the final state.
\<close>

theorem run_refines_lifecycle:
  assumes "benign env" "fault_free s" "run fuel env s = Some (Inr u, s')"
  shows "worker_history env (Runs, s) (Announces, s')"
proof -
  obtain r s1 where l: "run_loop fuel env (reconnect_initial_delay (config s)) s = Some (r, s1)"
    using assms(3) by (auto simp: run_def split: option.splits)
  note h = run_loop_reaches [OF assms(1,2) l]
  show ?thesis
  proof (cases r)
    case (Inr v)
    then have "stopping s1 \<or> faulted s1"
      using run_loop_reason [OF assms(1), of "config s" s] l assms(2) by (auto simp: configured_as_def)
    from history_finish [OF assms(1) h this] Inr l assms(3) show ?thesis by (simp add: run_def)
  next
    case (Inl e)
    let ?y = "yield env s1"
    let ?s2 = "if \<not> stopping ?y then set_fault FaultSocket (what e) ?y else ?y"
    have "worker_history env (Runs, s) (Runs, ?s2)"
      using history_yield [OF assms(1) h] by (auto intro: history_fault)
    moreover have "stopping ?s2 \<or> faulted ?s2" by (simp add: set_fault_faulted)
    ultimately have "worker_history env (Runs, s) (Announces, finish_session env ?s2)"
      by (rule history_finish [OF assms(1)])
    then show ?thesis using Inl l assms(3) by (auto simp: run_def Let_def split: if_splits)
  qed
qed

lemma run_refines_lifecycle_witness:
  "\<exists>s'. run 1 stopped_env (Impl_init Config_default) = Some (Inr (), s') \<and>
        worker_history stopped_env (Runs, Impl_init Config_default) (Announces, s')"
proof -
  obtain s' where r: "run 1 stopped_env (Impl_init Config_default) = Some (Inr (), s')"
    by (simp add: run_def yield_def stopped_env_def stop_flag_def)
  have "fault_free (Impl_init Config_default)"
    by (simp add: fault_free_def faulted_def latch_faulted_def Impl_init_def FaultLatch_init_def HealthSnapshot_default_def)
  with r run_refines_lifecycle [OF benign_stopped_env _ r] show ?thesis by blast
qed

text \<open>Each of these steps is a step of the lifecycle, wherever the client is.\<close>

lemma life_is_lifecycle_step:
  assumes "worker_life env (phase s w, impl s) (p, i)" "phase s w = Runs \<Longrightarrow> calls s w = NoCall"
  shows "lifecycle_step env s (Worker w) (set_phase w p (s\<lparr>impl := i\<rparr>))"
  using assms(1)
proof (cases rule: worker_life.cases)
  case life_runs
  then have "(phase s)(w := p) = phase s" by auto
  then have "set_phase w p (s\<lparr>impl := i\<rparr>) = s\<lparr>impl := i\<rparr>" by (simp add: set_phase_def)
  with life_runs assms(2) show ?thesis by (auto intro: worker_runs)
next
  case life_closes
  then have *: "set_phase w p (s\<lparr>impl := i\<rparr>) =
      set_phase w Closed (on_impl (\<lambda>i. net_close env (end_stream env i)) s)" by (simp add: on_impl_def)
  show ?thesis unfolding * by (rule worker_closes) (use life_closes assms(2) in auto)
next
  case life_exits
  then have *: "set_phase w p (s\<lparr>impl := i\<rparr>) = set_phase w Exited (on_impl (\<lambda>i. i\<lparr>worker_exited := True\<rparr>) s)"
    by (simp add: on_impl_def)
  show ?thesis unfolding * by (rule worker_exits) (use life_exits in simp)
next
  case life_finishes
  then have *: "set_phase w p (s\<lparr>impl := i\<rparr>) = set_phase w Announces (on_impl show_stopped s)"
    by (simp add: on_impl_def)
  show ?thesis unfolding * by (rule worker_finishes) (use life_finishes in simp)
qed

end
