(* ===== verification/Lifecycle_Start.thy ===== *)
theory Lifecycle_Start
  imports Lifecycle_Data
begin

text \<open>
  The transitions of \<open>start\<close>: the reset, the creation of the thread, and the roll-back after a
  failed creation, with what other threads can see and do in between. From there the
  invariant of the data of a client over its whole life, and what \<open>start\<close> returns.
\<close>

section \<open>While a thread is created\<close>

text \<open>The calls that do not take the lifecycle mutex: what can happen to the client meanwhile.\<close>

inductive reader_step :: "Env \<Rightarrow> Impl \<Rightarrow> Impl \<Rightarrow> bool" for env where
  read_bias: "reader_step env i (snd (bias env i))"
| read_health: "reader_step env i (snd (client_health (env_platform env) now i))"
| read_tick: "reader_step env i (i\<lparr>tick := n\<rparr>)"

lemma reader_step_frame:
  assumes "reader_step env i j"
  shows "health j = health i" "fault_latch j = fault_latch i" "faulted j = faulted i"
    "session_started j = session_started i"
  using assms bias_frame [of i env]
  by (auto simp: same_data_def client_health_def Let_def faulted_def elim!: reader_step.cases)

lemma creation_frame:
  assumes "lifecycle_step env s l s'" "control_ok s" "saved (calls s t) = Some previous" "step_of l \<noteq> Some t"
  shows "calls s' t = calls s t" "impl s' = impl s \<or> reader_step env (impl s) (impl s')" "phase s' = phase s"
proof -
  have k: "mutex_ok s" "joining_ok s" "worker_ok s" "creation_ok s" using assms(2) by (simp_all add: control_ok_def)
  have m: "lifecycle_mutex s = Some t" by (rule saved_mutex [OF k(1) assms(3)])
  have h: "holds_mutex (calls s u) \<longleftrightarrow> u = t" for u using k(1) m by (auto simp: mutex_ok_def)
  have p: "phase s w = Absent" for w
    by (rule no_worker_idle [OF k(3,2) creation_okD(2,1) [OF k(4) assms(3)]])
  have t: "calls s t \<noteq> NoCall" "wake (calls s t) = calls s t" "calls s t \<noteq> StopSleeps"
    "calls s t \<noteq> StartSleeps b w" for b w
    using assms(3) by (cases "calls s t"; simp)+
  have n: "\<And>u. step_of l = Some u \<Longrightarrow> \<not> holds_mutex (calls s u)" using h assms(4) by auto
  from assms(1) show "calls s' t = calls s t"
    by (cases rule: lifecycle_step.cases) (use n m t assms(4) in \<open>simp_all add: may_call_def, auto\<close>)
  from assms(1) show "impl s' = impl s \<or> reader_step env (impl s) (impl s')"
  proof (cases rule: lifecycle_step.cases)
    case reader_bias
    then show ?thesis by (simp add: read_bias)
  next
    case reader_health
    then show ?thesis by (simp add: read_health)
  next
    case reader_tick
    then show ?thesis by (simp add: read_tick)
  qed (use n m in \<open>simp_all add: p\<close>)
  from assms(1) show "phase s' = phase s"
    by (cases rule: lifecycle_step.cases) (use n in \<open>simp_all add: p\<close>)
qed

lemma only_saved:
  "mutex_ok s \<Longrightarrow> saved (calls s t) = Some p \<Longrightarrow> saved (calls s u) = Some q \<Longrightarrow> u = t"
  using saved_mutex by (metis option.inject)

lemma saved_call: "saved c = Some previous \<Longrightarrow> \<exists>callback creation. c = StartCreates callback previous creation"
  by (cases c) auto

text \<open>The steps of the client, from the point of view of the creation of a thread.\<close>

lemma creation_cases:
  assumes "lifecycle_step env s l s'" "control_ok s"
  obtains (other) "\<And>t. saved (calls s t) = None" "\<And>t. saved (calls s' t) = None" "\<not> creation_step s l s'"
    | (begins) t callback where "\<And>u. saved (calls s u) = None" "calls s t = StartTests callback ForJoin"
        "\<not> joining s" "worker s = None"
        "s' = set_call t (StartCreates callback (impl s) DataReset) (on_impl start_reset s)"
    | (reads) t previous where "saved (calls s t) = Some previous" "calls s' t = calls s t"
        "\<And>u. u \<noteq> t \<Longrightarrow> saved (calls s' u) = None" "phase s' = phase s"
        "impl s' = impl s \<or> reader_step env (impl s) (impl s')"
    | (flags) t callback previous where "calls s t = StartCreates callback previous DataReset"
        "s' = set_call t (StartCreates callback previous FlagsSet) (on_impl (start_flags callback) s)"
    | (succeeds) t callback previous w where "calls s t = StartCreates callback previous FlagsSet"
        "l = Return t (Inr ())" "s' = start_created t w s"
    | (fails) t callback previous e where "calls s t = StartCreates callback previous FlagsSet"
        "s' = set_call t (StartCreates callback previous (FlagsRestored e)) (on_impl (rollback_flags previous) s)"
    | (restores) t callback previous e where "calls s t = StartCreates callback previous (FlagsRestored e)"
        "s' = set_call t (StartCreates callback previous (DataRestored e)) (on_impl (rollback_data previous) s)"
    | (throws) t callback previous e where "calls s t = StartCreates callback previous (DataRestored e)"
        "l = Return t (Inl e)" "s' = start_failed t previous s"
proof -
  have m: "mutex_ok s" using assms(2) by (simp add: control_ok_def)
  show thesis
  proof (cases "\<exists>t previous. saved (calls s t) = Some previous")
    case True
    then obtain t previous where t: "saved (calls s t) = Some previous" by blast
    have h: "holds_mutex (calls s u) \<Longrightarrow> u = t" for u
      using m saved_mutex [OF m t] by (auto simp: mutex_ok_def)
    show thesis
    proof (cases "step_of l = Some t")
      case False
      note f = creation_frame [OF assms t False]
      have "saved (calls s' u) = None" if "u \<noteq> t" for u
      proof (cases "saved (calls s' u)")
        case (Some q)
        have "saved (calls s u) \<noteq> Some q" using only_saved [OF m t] that by blast
        from saved_step [OF assms(1) Some this] h [of u] that show ?thesis by auto
      qed
      with f t show thesis by (intro reads) auto
    next
      case True
      obtain callback creation where c: "calls s t = StartCreates callback previous creation"
        using saved_call [OF t] by blast
      from assms(1) True c show thesis
        by (cases rule: lifecycle_step.cases) (auto intro: flags succeeds fails restores throws)
    qed
  next
    case False
    then have n: "saved (calls s u) = None" for u by auto
    show thesis
    proof (cases "\<exists>t previous. saved (calls s' t) = Some previous")
      case True
      then obtain t previous where t: "saved (calls s' t) = Some previous" by blast
      obtain callback where c: "calls s t = StartTests callback ForJoin" "\<not> joining s" "worker s = None"
          "l = Internal t" using saved_step [OF assms(1) t] n by auto
      have "s' = snd (start_decide t callback s)"
        using assms(1) c(1,2,4) by (cases rule: lifecycle_step.cases) (auto simp: outcome_label_def split: option.splits)
      with c(3) have "s' = set_call t (StartCreates callback (impl s) DataReset) (on_impl start_reset s)"
        by (simp add: start_decide_def)
      with begins n c show thesis by blast
    next
      case False
      then have "saved (calls s' u) = None" for u by auto
      with other n show thesis by (simp add: creation_step_def)
    qed
  qed
qed

fun restored :: "Call \<Rightarrow> bool" where
  "restored (StartCreates _ _ (DataRestored _)) = True"
| "restored _ = False"

text \<open>
  The latch and the health record agree, except in the last section of the handler of a
  failed creation, where the health record is back and the latch is not.
\<close>

definition fault_settled :: "Lifecycle \<Rightarrow> bool" where
  "fault_settled s \<longleftrightarrow>
     ((\<forall>t. \<not> restored (calls s t)) \<longrightarrow> fault_consistent (impl s)) \<and>
     (\<forall>t previous. saved (calls s t) = Some previous \<longrightarrow>
        fault_consistent previous \<and> \<not> faulted (impl s) \<and>
        (restored (calls s t) \<longrightarrow> health (impl s) = health previous))"

lemma fault_settledI:
  assumes "(\<And>t. \<not> restored (calls s t)) \<Longrightarrow> fault_consistent (impl s)"
    and "\<And>t previous. saved (calls s t) = Some previous \<Longrightarrow>
      fault_consistent previous \<and> \<not> faulted (impl s) \<and> (restored (calls s t) \<longrightarrow> health (impl s) = health previous)"
  shows "fault_settled s"
  using assms unfolding fault_settled_def by blast

lemma fault_settledD:
  assumes "fault_settled s"
  shows "(\<And>t. \<not> restored (calls s t)) \<Longrightarrow> fault_consistent (impl s)"
    "saved (calls s t) = Some previous \<Longrightarrow> fault_consistent previous"
    "saved (calls s t) = Some previous \<Longrightarrow> \<not> faulted (impl s)"
    "saved (calls s t) = Some previous \<Longrightarrow> restored (calls s t) \<Longrightarrow> health (impl s) = health previous"
  using assms unfolding fault_settled_def by blast+

lemma restored_saved: "restored c \<Longrightarrow> saved c \<noteq> None"
  by (cases c rule: restored.cases) auto

lemma wake_restored [simp]: "restored (wake c) = restored c"
  by (cases c rule: restored.cases) auto

text \<open>The fault is back as it was.\<close>

lemma rollback_fault_consistent:
  assumes "fault_consistent previous" "health i = health previous"
  shows "fault_consistent (rollback_fault previous i)" "faulted (rollback_fault previous i) = faulted previous"
    "faulted previous \<or> state (health (rollback_fault previous i)) = state (health previous)"
  using assms
  by (auto simp: rollback_fault_def publish_def fault_consistent_def faulted_def latch_faulted_def reset_latch_def
      client_fault_code_def latch_code_def Let_def)

text \<open>A step of the creating call, which is the only one.\<close>

lemma fault_settled_own:
  assumes "fault_settled s" "mutex_ok s" "saved (calls s t) = Some previous" "saved c = Some previous"
    and "\<not> faulted i" "restored c \<Longrightarrow> health i = health previous"
    and "\<not> restored c \<Longrightarrow> fault_consistent i"
  shows "fault_settled (set_call t c (on_impl (\<lambda>_. i) s))"
proof (rule fault_settledI)
  show "fault_consistent (impl (set_call t c (on_impl (\<lambda>_. i) s)))"
    if "\<And>u. \<not> restored (calls (set_call t c (on_impl (\<lambda>_. i) s)) u)"
    using assms(7) that [of t] by simp
  fix u q
  assume u: "saved (calls (set_call t c (on_impl (\<lambda>_. i) s)) u) = Some q"
  then have "u = t" using only_saved [OF assms(2,3), of u] by (auto split: if_splits)
  with u assms(4) have "q = previous" by simp
  with \<open>u = t\<close> assms(5,6) fault_settledD(2) [OF assms(1,3)]
  show "fault_consistent q \<and> \<not> faulted (impl (set_call t c (on_impl (\<lambda>_. i) s))) \<and>
      (restored (calls (set_call t c (on_impl (\<lambda>_. i) s)) u) \<longrightarrow>
        health (impl (set_call t c (on_impl (\<lambda>_. i) s))) = health q)" by simp
qed

lemma fault_settled_returns:
  assumes "mutex_ok s" "saved (calls s t) = Some previous" "calls s' = (wake \<circ> calls s)(t := NoCall)"
    and "fault_consistent (impl s')"
  shows "fault_settled s'"
proof (rule fault_settledI)
  fix u q
  assume "saved (calls s' u) = Some q"
  then have "u \<noteq> t" "saved (calls s u) = Some q" using assms(3) by (auto split: if_splits)
  then have False using only_saved [OF assms(1,2)] by blast
  then show "fault_consistent q \<and> \<not> faulted (impl s') \<and> (restored (calls s' u) \<longrightarrow> health (impl s') = health q)" ..
qed (rule assms(4))

lemma on_impl_const: "on_impl f s = on_impl (\<lambda>_. f (impl s)) s"
  by (simp add: on_impl_def)

lemma fault_settled_step:
  assumes "lifecycle_step env s l s'" "control_ok s" "fault_settled s"
  shows "fault_settled s'"
proof -
  have m: "mutex_ok s" using assms(2) by (simp add: control_ok_def)
  have not_restored: "\<not> restored (calls s u)" if "saved (calls s t) \<noteq> None" "\<not> restored (calls s t)" for t u
    using that restored_saved only_saved [OF m] by (cases "saved (calls s u)") force+
  from assms(1,2) show ?thesis
  proof (cases rule: creation_cases)
    case other
    have "\<not> restored (calls s t)" for t using other(1) restored_saved by metis
    then have "fault_consistent (impl s)" by (rule fault_settledD(1) [OF assms(3)])
    with consistent.on_other_step [OF assms(1) other(3)] other(2) show ?thesis by (intro fault_settledI) auto
  next
    case (begins t callback)
    have "\<not> restored (calls s t)" for t using begins(1) restored_saved by metis
    then have "fault_consistent (impl s)" by (rule fault_settledD(1) [OF assms(3)])
    moreover have "fault_free (start_reset (impl s))" by (rule start_fault_frames)
    ultimately show ?thesis
      using begins by (intro fault_settledI) (auto simp: fault_free_def fault_consistent_def split: if_splits)
  next
    case (reads t previous)
    have r: "restored (calls s u) = restored (calls s' u)" for u
    proof (cases "u = t")
      case False
      then have "saved (calls s u) = None"
        using only_saved [OF m reads(1), of u] by (cases "saved (calls s u)") auto
      with reads(3) [OF False] show ?thesis using restored_saved by blast
    qed (use reads(2) in simp)
    have f: "health (impl s') = health (impl s)" "fault_latch (impl s') = fault_latch (impl s)"
      using reads(5) reader_step_frame by auto
    then have c: "fault_consistent (impl s') = fault_consistent (impl s)" "faulted (impl s') = faulted (impl s)"
      by (simp_all add: fault_consistent_def faulted_def client_fault_code_def)
    show ?thesis
    proof (rule fault_settledI)
      show "fault_consistent (impl s')" if "\<And>t. \<not> restored (calls s' t)"
        using fault_settledD(1) [OF assms(3)] that r c(1) by simp
      fix u q
      assume u: "saved (calls s' u) = Some q"
      then have "u = t" using reads(3) by force
      with u reads(1,2) have "q = previous" by simp
      with \<open>u = t\<close> reads(2) fault_settledD(2-4) [OF assms(3) reads(1)] c(2) f(1)
      show "fault_consistent q \<and> \<not> faulted (impl s') \<and> (restored (calls s' u) \<longrightarrow> health (impl s') = health q)"
        by simp
    qed
  next
    case (flags t callback previous)
    then have n: "\<not> faulted (impl s)" using fault_settledD(3) [OF assms(3), of t previous] by simp
    have "fault_consistent (impl s)" using flags not_restored [of t] by (intro fault_settledD(1) [OF assms(3)]) simp
    with n have c: "fault_consistent (start_flags callback (impl s))"
      by (simp add: fault_consistent_def start_fault_frames start_frames)
    show ?thesis
      unfolding flags(2) on_impl_const [of "start_flags callback"]
      by (rule fault_settled_own [OF assms(3) m]) (use flags(1) n c in \<open>simp_all add: start_fault_frames\<close>)
  next
    case (succeeds t callback previous w)
    have "fault_consistent (impl s)" using succeeds not_restored [of t] by (intro fault_settledD(1) [OF assms(3)]) simp
    then show ?thesis
      unfolding succeeds(3) by (intro fault_settled_returns [OF m, of t previous])
        (use succeeds(1) in \<open>simp_all add: start_created_def\<close>)
  next
    case (fails t callback previous e)
    then have n: "\<not> faulted (impl s)" using fault_settledD(3) [OF assms(3), of t previous] by simp
    have "fault_consistent (impl s)" using fails not_restored [of t] by (intro fault_settledD(1) [OF assms(3)]) simp
    with n have c: "fault_consistent (rollback_flags previous (impl s))"
      by (simp add: fault_consistent_def start_fault_frames start_frames)
    show ?thesis
      unfolding fails(2) on_impl_const [of "rollback_flags previous"]
      by (rule fault_settled_own [OF assms(3) m]) (use fails(1) n c in \<open>simp_all add: start_fault_frames\<close>)
  next
    case (restores t callback previous e)
    then have n: "\<not> faulted (impl s)" using fault_settledD(3) [OF assms(3), of t previous] by simp
    show ?thesis
      unfolding restores(2) on_impl_const [of "rollback_data previous"]
      by (rule fault_settled_own [OF assms(3) m])
        (use restores(1) n in \<open>simp_all add: start_fault_frames start_frames\<close>)
  next
    case (throws t callback previous e)
    then have "fault_consistent previous" "health (impl s) = health previous"
      using fault_settledD(2,4) [OF assms(3), of t previous] by simp_all
    then have "fault_consistent (rollback_fault previous (impl s))" by (rule rollback_fault_consistent)
    then show ?thesis
      unfolding throws(3) by (intro fault_settled_returns [OF m, of t previous])
        (use throws(1) in \<open>simp_all add: start_failed_def\<close>)
  qed
qed

lemma reachable_settled: "reachable env i s \<Longrightarrow> fault_consistent i \<Longrightarrow> worker_exited i \<Longrightarrow> fault_settled s"
proof (induction rule: reachable.induct)
  case reachable_init
  then show ?case by (simp add: fault_settled_def Lifecycle_init_def)
next
  case (reachable_step s l s')
  then show ?case using fault_settled_step [OF reachable_step.hyps(2) reachable_control_ok] by blast
qed

section \<open>A client without a running worker\<close>

definition shows_end :: "Impl \<Rightarrow> bool" where
  "shows_end i \<longleftrightarrow> faulted i \<or> state (health i) = Stopped"

text \<open>The transport is closed once the worker has left its loop, and the end is shown after that.\<close>

definition idle_ok :: "Lifecycle \<Rightarrow> bool" where
  "idle_ok s \<longleftrightarrow>
     ((\<forall>w. phase s w \<noteq> Runs) \<longrightarrow> transport_closed (impl s)) \<and>
     ((\<forall>w. phase s w \<notin> {Runs, Closed, Exited}) \<longrightarrow> (\<forall>t. saved (calls s t) = None) \<longrightarrow> shows_end (impl s)) \<and>
     (\<forall>t previous. saved (calls s t) = Some previous \<longrightarrow> shows_end previous)"

lemma stop_command_closed: "transport_closed i \<Longrightarrow> transport_closed (stop_command env i)"
  by (simp add: transport_closed_def stop_command_def end_stream_def net_shutdown_def posix_shutdown_def
      windows_shutdown_def holds_socket_def Let_def split: Backend.splits)

lemma closed_frame:
  "transport_closed (stop_flag i) = transport_closed i"
  "transport_closed (snd (bias env i)) = transport_closed i"
  "transport_closed (snd (client_health p now i)) = transport_closed i"
  "transport_closed (show_stopped i) = transport_closed i"
  "transport_closed (i\<lparr>worker_exited := b\<rparr>) = transport_closed i"
  "transport_closed (i\<lparr>tick := n\<rparr>) = transport_closed i"
  using bias_frame [of i env]
  by (simp_all add: transport_closed_def stop_flag_def client_health_def Let_def show_stopped_frame)

lemma shows_end_same_data: "same_data i j \<Longrightarrow> shows_end j = shows_end i"
  by (simp add: shows_end_def faulted_def same_data_def)

lemma shows_end_frame:
  "shows_end (stop_flag i) = shows_end i" "shows_end (stop_command env i) = shows_end i"
  "shows_end (snd (bias env i)) = shows_end i" "shows_end (snd (client_health p now i)) = shows_end i"
  "shows_end (show_stopped i)" "shows_end (i\<lparr>tick := n\<rparr>) = shows_end i"
  "shows_end (i\<lparr>worker_exited := b\<rparr>) = shows_end i"
  using shows_end_same_data [OF stop_command_data] shows_end_same_data [OF stop_steps_data(1)]
    shows_end_same_data [OF stop_steps_data(2)] shows_end_same_data [OF stop_steps_data(3)]
  by (simp_all add: shows_end_def faulted_def show_stopped_def set_client_state_def with_health_def)

lemma idle_okI:
  assumes "(\<And>w. phase s w \<noteq> Runs) \<Longrightarrow> transport_closed (impl s)"
    and "(\<And>w. phase s w \<notin> {Runs, Closed, Exited}) \<Longrightarrow> \<forall>t. saved (calls s t) = None \<Longrightarrow> shows_end (impl s)"
    and "\<And>t previous. saved (calls s t) = Some previous \<Longrightarrow> shows_end previous"
  shows "idle_ok s"
  using assms unfolding idle_ok_def by blast

lemma idle_okD:
  assumes "idle_ok s"
  shows "(\<And>w. phase s w \<noteq> Runs) \<Longrightarrow> transport_closed (impl s)"
    "(\<And>w. phase s w \<notin> {Runs, Closed, Exited}) \<Longrightarrow> \<forall>t. saved (calls s t) = None \<Longrightarrow> shows_end (impl s)"
    "saved (calls s t) = Some previous \<Longrightarrow> shows_end previous"
  using assms unfolding idle_ok_def by blast+

lemma reader_step_idle:
  assumes "reader_step env i j"
  shows "transport_closed j = transport_closed i" "shows_end j = shows_end i"
  using assms by (auto simp: closed_frame shows_end_frame elim!: reader_step.cases)

text \<open>Without a thread in the making: the transport and the state shown follow the phase.\<close>

definition phase_ok :: "(thread_id \<Rightarrow> Phase) \<Rightarrow> Impl \<Rightarrow> bool" where
  "phase_ok ph i \<longleftrightarrow>
     ((\<forall>w. ph w \<noteq> Runs) \<longrightarrow> transport_closed i) \<and>
     ((\<forall>w. ph w \<notin> {Runs, Closed, Exited}) \<longrightarrow> shows_end i)"

lemma phase_ok_impl:
  assumes "phase_ok ph i" "transport_closed i \<Longrightarrow> transport_closed j" "shows_end i \<Longrightarrow> shows_end j"
  shows "phase_ok ph j"
  using assms unfolding phase_ok_def by auto

lemma phase_ok_runs: "ph w = Runs \<Longrightarrow> phase_ok ph i"
  unfolding phase_ok_def by auto

lemma phase_ok_upd:
  assumes "phase_ok ph i" "ph w \<noteq> Runs" "ph w \<in> {Closed, Exited} \<Longrightarrow> p \<in> {Runs, Closed, Exited}"
  shows "phase_ok (ph(w := p)) i"
proof -
  have "(ph(w := p)) v \<noteq> Runs \<Longrightarrow> ph v \<noteq> Runs" for v using assms(2) by (cases "v = w") auto
  moreover have "(ph(w := p)) v \<notin> {Runs, Closed, Exited} \<Longrightarrow> ph v \<notin> {Runs, Closed, Exited}" for v
    using assms(2,3) by (cases "v = w") auto
  ultimately show ?thesis using assms(1) unfolding phase_ok_def by blast
qed

lemma stop_decide_phase_ok:
  assumes "stop_decide env t s = (r, s')" "phase_ok (phase s) (impl s)"
  shows "phase_ok (phase s') (impl s')"
proof -
  have 1: "phase_ok (phase s) (stop_command env (impl s))"
    using assms(2) by (rule phase_ok_impl) (simp_all add: stop_command_closed shows_end_frame)
  then have 2: "phase_ok (phase s) (show_stopped (stop_command env (impl s)))"
    by (rule phase_ok_impl) (simp_all add: closed_frame shows_end_frame)
  from assms(1) show ?thesis by (cases rule: stop_decide_cases) (use 1 2 in simp_all)
qed

lemma phase_ok_step:
  assumes "lifecycle_step env s l s'" "\<not> creation_step s l s'" "socket_ok (impl s)" "phase_ok (phase s) (impl s)"
  shows "phase_ok (phase s') (impl s')"
  using assms
proof (induction rule: lifecycle_step.induct)
  case (start_decides s t callback r s')
  from start_decides(3) show ?case
    by (cases rule: start_decide_cases) (use start_decides.prems in \<open>auto simp: creation_step_def\<close>)
next
  case (stop_decides s t r s')
  then show ?case by (blast intro: stop_decide_phase_ok)
next
  case (worker_closes s w)
  have "no_leak (udp (end_stream env (impl s)))" using worker_closes.prems by (simp add: socket_ok_def)
  from net_close_no_leak [OF this, of env]
  have "transport_closed (net_close env (end_stream env (impl s)))"
    by (auto simp: transport_closed_def no_leak_def net_close_def holds_socket_def)
  then show ?case by (auto simp: phase_ok_def)
next
  case (worker_exits s w)
  then have "phase_ok ((phase s)(w := Exited)) ((impl s)\<lparr>worker_exited := True\<rparr>)"
    by (intro phase_ok_upd phase_ok_impl [OF worker_exits.prems(3)]) (simp_all add: closed_frame shows_end_frame)
  then show ?case by (simp add: fun_upd_def)
next
  case (worker_finishes s w)
  then have "phase_ok ((phase s)(w := Exited)) (show_stopped (impl s))"
    by (intro phase_ok_upd phase_ok_impl [OF worker_finishes.prems(3)]) (simp_all add: closed_frame shows_end_frame)
  then show ?case by (auto simp: phase_ok_def shows_end_frame split: if_splits)
next
  case (worker_announces s w)
  then show ?case using phase_ok_upd [of "phase s" "impl s" w] by (simp add: fun_upd_def)
next
  case (start_joins s t callback w)
  then show ?case using phase_ok_upd [of "phase s" "impl s" w] by (simp add: fun_upd_def)
next
  case (stop_joins s t w)
  then show ?case using phase_ok_upd [of "phase s" "impl s" w] by (simp add: fun_upd_def)
next
  case (worker_runs s w i)
  then show ?case by (auto intro: phase_ok_runs [of _ w])
qed (auto simp: creation_step_def closed_frame shows_end_frame intro: phase_ok_impl)

lemma closed_start_frames:
  "transport_closed (start_reset i) = transport_closed i" "transport_closed (start_flags callback i) = transport_closed i"
  "transport_closed (rollback_flags j i) = transport_closed i" "transport_closed (rollback_data j i) = transport_closed i"
  "transport_closed (rollback_fault j i) = transport_closed i"
  by (simp_all add: transport_closed_def start_frames)

lemma idle_ok_own:
  assumes "idle_ok s" "mutex_ok s" "saved (calls s t) = Some previous" "saved c = Some previous"
    and "transport_closed (f (impl s)) = transport_closed (impl s)"
  shows "idle_ok (set_call t c (on_impl f s))"
proof (rule idle_okI)
  show "transport_closed (impl (set_call t c (on_impl f s)))" if "\<And>w. phase (set_call t c (on_impl f s)) w \<noteq> Runs"
    using idle_okD(1) [OF assms(1)] that assms(5) by simp
  show "shows_end (impl (set_call t c (on_impl f s)))" if "\<forall>u. saved (calls (set_call t c (on_impl f s)) u) = None"
    using that [rule_format, of t] assms(4) by simp
  show "shows_end q" if "saved (calls (set_call t c (on_impl f s)) u) = Some q" for u q
    using that assms(3,4) idle_okD(3) [OF assms(1)] by (auto split: if_splits)
qed

lemma idle_ok_step:
  assumes "lifecycle_step env s l s'" "control_ok s" "idle_ok s" "fault_settled s" "socket_ok (impl s)"
  shows "idle_ok s'"
proof -
  have m: "mutex_ok s" "joining_ok s" "worker_ok s" "creation_ok s" using assms(2) by (simp_all add: control_ok_def)
  have absent: "phase s w = Absent" if "saved (calls s t) = Some previous" for t previous w
    by (rule no_worker_idle [OF m(3,2) creation_okD(2,1) [OF m(4) that]])
  then have closed: "transport_closed (impl s)" if "saved (calls s t) = Some previous" for t previous
    using idle_okD(1) [OF assms(3)] that by simp
  from assms(1,2) show ?thesis
  proof (cases rule: creation_cases)
    case other
    have "phase_ok (phase s) (impl s)" using idle_okD(1,2) [OF assms(3)] other(1) by (simp add: phase_ok_def)
    from phase_ok_step [OF assms(1) other(3) assms(5) this] other(2) show ?thesis
      by (simp add: idle_ok_def phase_ok_def)
  next
    case (begins t callback)
    have "phase s w = Absent" for w using no_worker_idle [OF m(3,2) begins(3,4)] .
    then have "shows_end (impl s)" "transport_closed (impl s)" using idle_okD(1,2) [OF assms(3)] begins(1) by simp_all
    then have e: "transport_closed (impl s')" "saved (calls s' t) \<noteq> None"
      "\<And>u q. saved (calls s' u) = Some q \<Longrightarrow> shows_end q"
      using begins(1,5) by (auto simp: closed_start_frames split: if_splits)
    show ?thesis by (rule idle_okI) (use e(1) in simp, use e(2) in simp, rule e(3))
  next
    case (reads t previous)
    have "transport_closed (impl s')" using closed [OF reads(1)] reads(5) reader_step_idle(1) by auto
    moreover have "shows_end q" if "saved (calls s' u) = Some q" for u q
      using that reads(1-3) idle_okD(3) [OF assms(3)] by (cases "u = t") auto
    moreover have "saved (calls s' t) \<noteq> None" using reads(1,2) by simp
    ultimately show ?thesis by (intro idle_okI) (simp, metis, blast)
  next
    case (flags t callback previous)
    show ?thesis unfolding flags(2)
      by (rule idle_ok_own [OF assms(3) m(1)]) (use flags(1) in \<open>simp_all add: closed_start_frames\<close>)
  next
    case (succeeds t callback previous w)
    have "saved (calls s u) = None" if "u \<noteq> t" for u
      using only_saved [OF m(1), of t previous u] succeeds(1) that by (cases "saved (calls s u)") auto
    moreover have "phase s' w = Runs" unfolding succeeds(3) start_created_def by simp
    ultimately show ?thesis
      by (intro idle_okI) (blast, blast, auto simp: succeeds(3) start_created_def split: if_splits)
  next
    case (fails t callback previous e)
    show ?thesis unfolding fails(2)
      by (rule idle_ok_own [OF assms(3) m(1)]) (use fails(1) in \<open>simp_all add: closed_start_frames\<close>)
  next
    case (restores t callback previous e)
    show ?thesis unfolding restores(2)
      by (rule idle_ok_own [OF assms(3) m(1)]) (use restores(1) in \<open>simp_all add: closed_start_frames\<close>)
  next
    case (throws t callback previous e)
    then have t: "saved (calls s t) = Some previous" "restored (calls s t)" by simp_all
    have n: "saved (calls s u) = None" if "u \<noteq> t" for u
      using only_saved [OF m(1) t(1), of u] that by (cases "saved (calls s u)") auto
    have "shows_end (rollback_fault previous (impl s))"
      using rollback_fault_consistent(2,3) [OF fault_settledD(2) [OF assms(4) t(1)] fault_settledD(4) [OF assms(4) t]]
        idle_okD(3) [OF assms(3) t(1)] by (auto simp: shows_end_def)
    with closed [OF t(1)] n show ?thesis
      unfolding throws(3) start_failed_def by (intro idle_okI) (auto simp: closed_start_frames split: if_splits)
  qed
qed

lemma reachable_idle_ok:
  assumes "reachable env i s" "fresh_os env" "fault_consistent i" "socket_ok i" "worker_exited i"
    "transport_closed i" "shows_end i"
  shows "idle_ok s"
  using assms(1)
proof (induction rule: reachable.induct)
  case reachable_init
  then show ?case using assms by (simp add: idle_ok_def Lifecycle_init_def)
next
  case (reachable_step s l s')
  show ?case
    by (rule idle_ok_step [OF reachable_step.hyps(2) reachable_control_ok [OF reachable_step.hyps(1) assms(5)]
        reachable_step.IH reachable_settled [OF reachable_step.hyps(1) assms(3,5)]
        sockets.on_reachable(1) [OF reachable_step.hyps(1) assms(2,4)]])
qed

text \<open>A freshly constructed client.\<close>

lemma Impl_init_ok:
  "worker_exited (Impl_init c)" "fault_consistent (Impl_init c)" "socket_ok (Impl_init c)"
  "transport_closed (Impl_init c)" "shows_end (Impl_init c)" "first_sample_ok (Impl_init c)"
  "\<not> faulted (Impl_init c)" "fault_free (Impl_init c)"
  by (simp_all add: Impl_init_def fault_consistent_def faulted_def latch_faulted_def FaultLatch_init_def
      HealthSnapshot_default_def socket_ok_def no_leak_def transport_closed_def UdpTransport_init_def
      holds_socket_def shows_end_def first_sample_ok_def fault_free_def)

lemma validated_override:
  "validate_config p now c = Inr () \<Longrightarrow> calibration_override c = Some k \<Longrightarrow> validate_calibration k = Inr ()"
  by (auto simp: validate_config_def bind_result_eq_Inr_iff split: option.splits)

lemma Impl_construct_ok:
  assumes "Impl_construct p now c = Inr i"
  shows "i = Impl_init c" "samples_ok i"
  using assms validated_override [of p now c]
  by (auto simp: Impl_construct_def bind_result_eq_Inr_iff samples_ok_def Impl_init_def HealthSnapshot_default_def)

text \<open>
  C2. The data of a client over its whole life, with any number of starts, stops, faults and
  threads in between: the fault shown is the fault latched; every sample delivered or kept
  is finite and every calibration in force passed validation; no descriptor leaks. Whenever
  the worker is not in its loop the transport is closed, and once it has finished the
  client shows \<open>Stopped\<close>, or \<open>Faulted\<close> with the latched code. The exceptions are the moments
  in a call of \<open>start\<close> that is creating a thread: the state shown may then be \<open>Connecting\<close>, and,
  while a failed creation is undone, the latch is restored after the health record.
\<close>

theorem client_life_invariant:
  assumes "Impl_construct p now c = Inr i" "reachable env i s" "fresh_os env"
  shows "((\<forall>t. \<not> restored (calls s t)) \<longrightarrow>
       (if faulted (impl s) then state (health (impl s)) = Faulted \<and>
          fault_code (health (impl s)) = client_fault_code (impl s)
        else fault_code (health (impl s)) = FaultNone)) \<and>
    samples_ok (impl s) \<and> no_leak (udp (impl s)) \<and> config (impl s) = c \<and>
    ((\<forall>w. phase s w \<noteq> Runs) \<longrightarrow>
       \<not> session_started (impl s) \<and> open_sockets (udp (impl s)) = []) \<and>
    ((\<forall>w. phase s w \<in> {Absent, Announces, Ended}) \<and> (\<forall>t. saved (calls s t) = None) \<longrightarrow>
       state (health (impl s)) = (if faulted (impl s) then Faulted else Stopped))"
proof -
  note i = Impl_construct_ok [OF assms(1)]
  have j: "fault_consistent i" "socket_ok i" "worker_exited i" "transport_closed i" "shows_end i"
    "configured_as c i"
    unfolding i(1) by (simp_all add: Impl_init_ok configured_as_def) (simp add: Impl_init_def)
  have d: "fault_settled s" by (rule reachable_settled [OF assms(2) j(1,3)])
  have "samples_ok (impl s)" by (rule samples.on_reachable(1) [OF assms(2) TrueI i(2)])
  moreover have "socket_ok (impl s)" by (rule sockets.on_reachable(1) [OF assms(2,3) j(2)])
  moreover have "configured_as c (impl s)" by (rule configured.on_reachable(1) [OF assms(2) TrueI j(6)])
  moreover have o: "idle_ok s" by (rule reachable_idle_ok [OF assms(2,3) j(1-5)])
  moreover have "state (health (impl s)) = (if faulted (impl s) then Faulted else Stopped)"
    if "(\<forall>w. phase s w \<in> {Absent, Announces, Ended}) \<and> (\<forall>t. saved (calls s t) = None)"
  proof -
    have "phase s w \<notin> {Runs, Closed, Exited}" for w using that by (metis insertE Phase.distinct singletonD)
    then have "shows_end (impl s)" using idle_okD(2) [OF o] that by blast
    moreover have "fault_consistent (impl s)"
      by (rule fault_settledD(1) [OF d]) (use that restored_saved in metis)
    ultimately show ?thesis by (auto simp: shows_end_def fault_consistent_def)
  qed
  ultimately show ?thesis
    using fault_settledD(1) [OF d] idle_okD(1) [OF o] by (simp add: fault_consistent_def socket_ok_def configured_as_def transport_closed_def)
qed

lemma client_life_invariant_witness:
  "let s = started_client (Impl_init Config_default)
   in reachable quiet_env (Impl_init Config_default) s \<and> samples_ok (impl s) \<and>
      no_leak (udp (impl s)) \<and> fault_code (health (impl s)) = FaultNone"
proof -
  have c: "Impl_construct macos_arm64 (\<lambda>_. 0) Config_default = Inr (Impl_init Config_default)"
    by (simp add: Impl_construct_def Config_default_accepted)
  have f: "fresh_os quiet_env" by (simp add: fresh_os_def quiet_env_def fresh_sample_posix)
  have r: "reachable quiet_env (Impl_init Config_default) (started_client (Impl_init Config_default))"
    by (rule started_client_reachable) (simp add: Impl_init_ok)
  have "\<not> faulted (impl (started_client (Impl_init Config_default)))"
    by (simp add: started_client_def start_fault_frames start_fault_frames(1) [unfolded fault_free_def])
  then show ?thesis using client_life_invariant [OF c r f] r by (simp add: Let_def started_client_def)
qed

section \<open>Start\<close>

text \<open>Only readers ran in between.\<close>

definition only_read :: "Env \<Rightarrow> Impl \<Rightarrow> Impl \<Rightarrow> bool" where
  "only_read env = (reader_step env)\<^sup>*\<^sup>*"

lemma only_read_frame:
  assumes "only_read env i j"
  shows "health j = health i" "fault_latch j = fault_latch i" "session_started j = session_started i"
  using assms unfolding only_read_def
  by (induction rule: rtranclp_induct) (auto simp: reader_step_frame)

lemma only_read_refl: "only_read env i i"
  by (simp add: only_read_def)

lemma only_read_step: "only_read env i j \<Longrightarrow> reader_step env j k \<Longrightarrow> only_read env i k"
  unfolding only_read_def by (rule rtranclp.rtrancl_into_rtrancl)

text \<open>The state of the client while a call creates a thread.\<close>

fun creation_state :: "Env \<Rightarrow> bool \<Rightarrow> Impl \<Rightarrow> Creation \<Rightarrow> Impl \<Rightarrow> bool" where
  "creation_state env callback previous DataReset i \<longleftrightarrow> (\<exists>n. i = (start_reset previous)\<lparr>tick := n\<rparr>)"
| "creation_state env callback previous FlagsSet i \<longleftrightarrow>
     (\<exists>n. i = (start_flags callback (start_reset previous))\<lparr>tick := n\<rparr>)"
| "creation_state env callback previous (FlagsRestored e) i \<longleftrightarrow>
     (\<exists>n. i = (rollback_flags previous (start_reset previous))\<lparr>tick := n\<rparr>)"
| "creation_state env callback previous (DataRestored e) i \<longleftrightarrow>
     (\<exists>j. only_read env previous j \<and> i = j\<lparr>fault_latch := reset_latch (fault_latch j)\<rparr>)"

text \<open>Readers do not disturb it: there is no session, and the rate windows are empty.\<close>

lemma reader_step_simple:
  assumes "reader_step env i j" "\<not> session_started i"
  obtains "j = i" | now where "j = snd (client_health (env_platform env) now i)" | n where "j = i\<lparr>tick := n\<rparr>"
  using assms(1)
proof (cases rule: reader_step.cases)
  case read_bias
  then show ?thesis using assms(2) that(1) by (simp add: bias_def)
qed (use that(2,3) in blast)+

lemma reader_step_reset:
  assumes "reader_step env (k\<lparr>tick := m\<rparr>) j" "\<not> session_started k" "receive_times k = []" "delivery_times k = []"
  shows "\<exists>n. j = k\<lparr>tick := n\<rparr>"
  using assms(1)
proof (rule reader_step_simple)
  show "\<exists>n. j = k\<lparr>tick := n\<rparr>" if "j = snd (client_health (env_platform env) now (k\<lparr>tick := m\<rparr>))" for now
  proof -
    have "j = k\<lparr>tick := m\<rparr>" using that assms(3,4) by (simp add: client_health_def Let_def)
    then show ?thesis by blast
  qed
qed (use assms(2) in auto)

lemma creation_state_read:
  assumes "creation_state env callback previous creation i" "\<not> session_started previous" "reader_step env i j"
  shows "creation_state env callback previous creation j"
proof (cases creation)
  case (DataRestored e)
  then obtain k where k: "only_read env previous k" "i = k\<lparr>fault_latch := reset_latch (fault_latch k)\<rparr>"
    using assms(1) by auto
  have n: "\<not> session_started i" using k only_read_frame(3) [OF k(1)] assms(2) by simp
  have "\<exists>k'. reader_step env k k' \<and> j = k'\<lparr>fault_latch := reset_latch (fault_latch k')\<rparr> \<or> j = i"
    using assms(3) n
  proof (rule reader_step_simple)
    fix now
    assume "j = snd (client_health (env_platform env) now i)"
    then show ?thesis
      using read_health [of env k now] k(2) by (auto simp: client_health_def Let_def)
  next
    fix m
    assume "j = i\<lparr>tick := m\<rparr>"
    then show ?thesis using read_tick [of env k m] k(2) by auto
  qed simp
  then show ?thesis
    using k only_read_step [OF k(1)] unfolding DataRestored creation_state.simps by blast
qed (use assms reader_step_reset in \<open>auto simp: start_reset_def start_flags_def rollback_flags_def\<close>)

lemma creation_state_rolls_back:
  assumes "creation_state env callback previous (FlagsRestored e) i"
  shows "creation_state env callback previous (DataRestored e) (rollback_data previous i)"
proof -
  obtain n where i: "i = (rollback_flags previous (start_reset previous))\<lparr>tick := n\<rparr>" using assms by auto
  have "rollback_data previous i = (previous\<lparr>tick := n\<rparr>)\<lparr>fault_latch := reset_latch (fault_latch (previous\<lparr>tick := n\<rparr>))\<rparr>"
    unfolding i by (simp add: rollback_data_def rollback_flags_def start_reset_def reset_latch_def)
  moreover have "only_read env previous (previous\<lparr>tick := n\<rparr>)"
    by (rule only_read_step [OF only_read_refl read_tick])
  ultimately show ?thesis by auto
qed

lemma creation_state_restored:
  assumes "creation_state env callback previous (DataRestored e) i" "fault_consistent previous"
  shows "only_read env previous (rollback_fault previous i)"
proof -
  obtain j where j: "only_read env previous j" "i = j\<lparr>fault_latch := reset_latch (fault_latch j)\<rparr>"
    using assms(1) by auto
  note f = only_read_frame(1,2) [OF j(1)]
  have "publish (client_fault_code previous) (last_error (health previous)) (reset_latch (fault_latch previous), health previous) =
      (True, (fault_latch previous, health previous))" if "faulted previous"
    using assms(2) that
    by (simp add: publish_def reset_latch_def fault_consistent_def client_fault_code_def latch_code_def)
  moreover have "reset_latch (fault_latch previous) = fault_latch previous" if "\<not> faulted previous"
    using that by (simp add: reset_latch_def faulted_def latch_faulted_def)
  moreover have "client_fault_code previous \<noteq> FaultNone \<longleftrightarrow> faulted previous"
    by (simp add: client_fault_code_def latch_code_def faulted_def latch_faulted_def)
  moreover have "reset_latch (reset_latch l) = reset_latch l" for l by (simp add: reset_latch_def)
  moreover have "j\<lparr>fault_latch := fault_latch previous, health := health previous\<rparr> = j"
    "j\<lparr>fault_latch := fault_latch previous\<rparr> = j" using f by simp_all
  ultimately have "rollback_fault previous i = j"
    using f j(2) by (cases "faulted previous") (simp_all add: rollback_fault_def Let_def)
  with j(1) show ?thesis by simp
qed

text \<open>A call that creates a thread, since its decision.\<close>

definition creates_since :: "Env \<Rightarrow> Impl \<Rightarrow> thread_id \<Rightarrow> bool \<Rightarrow> Impl \<Rightarrow> Lifecycle \<Rightarrow> bool" where
  "creates_since env i t callback previous s \<longleftrightarrow>
     (\<exists>s0. reachable env i s0 \<and> lifecycle_steps env s0 s \<and> calls s0 t = StartTests callback ForJoin \<and>
        \<not> joining s0 \<and> worker s0 = None \<and> impl s0 = previous)"

lemma creates_since_step:
  "creates_since env i t callback previous s \<Longrightarrow> lifecycle_step env s l s' \<Longrightarrow> creates_since env i t callback previous s'"
  unfolding creates_since_def by (blast intro: lifecycle_steps_step)

definition creation_inv :: "Env \<Rightarrow> Impl \<Rightarrow> Lifecycle \<Rightarrow> bool" where
  "creation_inv env i s \<longleftrightarrow>
     (\<forall>t callback previous creation. calls s t = StartCreates callback previous creation \<longrightarrow>
        \<not> session_started previous \<and> creation_state env callback previous creation (impl s) \<and>
        creates_since env i t callback previous s)"

lemma creation_invI:
  assumes "\<And>t callback previous creation. calls s t = StartCreates callback previous creation \<Longrightarrow>
      \<not> session_started previous \<and> creation_state env callback previous creation (impl s) \<and>
      creates_since env i t callback previous s"
  shows "creation_inv env i s"
  using assms unfolding creation_inv_def by blast

lemma creation_invD:
  assumes "creation_inv env i s" "calls s t = StartCreates callback previous creation"
  shows "\<not> session_started previous" "creation_state env callback previous creation (impl s)"
    "creates_since env i t callback previous s"
  using assms unfolding creation_inv_def by blast+

text \<open>There is one creating call at most, so that its own step is what matters.\<close>

lemma creation_inv_own:
  assumes "creation_inv env i s" "mutex_ok s" "calls s t = StartCreates callback previous creation"
    and "lifecycle_step env s l s'" "s' = set_call t (StartCreates callback previous creation') (on_impl f s)"
    and "creation_state env callback previous creation' (f (impl s))"
  shows "creation_inv env i s'"
proof (rule creation_invI)
  fix u b p c
  assume u: "calls s' u = StartCreates b p c"
  have "u = t"
  proof (rule ccontr)
    assume "u \<noteq> t"
    with u assms(5) have "saved (calls s u) = Some p" by simp
    with \<open>u \<noteq> t\<close> only_saved [OF assms(2), of t previous u p] assms(3) show False by simp
  qed
  with u assms(5) have "b = callback" "p = previous" "c = creation'" by simp_all
  with \<open>u = t\<close> creation_invD [OF assms(1,3)] assms(6) creates_since_step [OF _ assms(4)]
  show "\<not> session_started p \<and> creation_state env b p c (impl s') \<and> creates_since env i u b p s'"
    by (simp add: assms(5))
qed

lemma creation_inv_none: "(\<And>t. saved (calls s t) = None) \<Longrightarrow> creation_inv env i s"
  by (rule creation_invI) (metis option.distinct(1) saved.simps(1))

lemma creation_inv_step:
  assumes "reachable env i s" "lifecycle_step env s l s'" "control_ok s" "idle_ok s" "creation_inv env i s"
  shows "creation_inv env i s'"
proof -
  have m: "mutex_ok s" "joining_ok s" "worker_ok s" using assms(3) by (simp_all add: control_ok_def)
  from assms(2,3) show ?thesis
  proof (cases rule: creation_cases)
    case other
    then show ?thesis by (intro creation_inv_none)
  next
    case (begins t callback)
    have "\<not> session_started (impl s)"
      using idle_okD(1) [OF assms(4)] no_worker_idle [OF m(3,2) begins(3,4)] by (simp add: transport_closed_def)
    moreover have "creates_since env i t callback (impl s) s'"
      unfolding creates_since_def using assms(1,2) begins(2-4) lifecycle_steps_step [OF lifecycle_steps_refl assms(2)] by blast
    moreover have "creation_state env callback (impl s) DataReset (impl s')"
      unfolding begins(5) by (auto intro!: exI [of _ "tick (impl s)"] simp: start_reset_def)
    ultimately show ?thesis
      using begins(1,5) by (intro creation_invI) (auto split: if_splits, (metis option.distinct(1) saved.simps(1))+)
  next
    case (reads t previous)
    show ?thesis
    proof (rule creation_invI)
      fix u b p c
      assume u: "calls s' u = StartCreates b p c"
      then have "u = t" using reads(3) [of u] by auto
      with u reads(2) have c: "calls s t = StartCreates b p c" by simp
      note inv = creation_invD [OF assms(5) c]
      have "creation_state env b p c (impl s')"
        using inv(2) creation_state_read [OF inv(2,1)] reads(5) by auto
      with inv(1) creates_since_step [OF inv(3) assms(2)] \<open>u = t\<close>
      show "\<not> session_started p \<and> creation_state env b p c (impl s') \<and> creates_since env i u b p s'" by simp
    qed
  next
    case (flags t callback previous)
    obtain n where "impl s = (start_reset previous)\<lparr>tick := n\<rparr>" using creation_invD(2) [OF assms(5) flags(1)] by auto
    then have "start_flags callback (impl s) = (start_flags callback (start_reset previous))\<lparr>tick := n\<rparr>"
      by (cases "start_reset previous") (simp add: start_flags_def)
    then have "creation_state env callback previous FlagsSet (start_flags callback (impl s))" by auto
    then show ?thesis by (rule creation_inv_own [OF assms(5) m(1) flags(1) assms(2) flags(2)])
  next
    case (fails t callback previous e)
    obtain n where "impl s = (start_flags callback (start_reset previous))\<lparr>tick := n\<rparr>"
      using creation_invD(2) [OF assms(5) fails(1)] by auto
    then have "rollback_flags previous (impl s) = (rollback_flags previous (start_reset previous))\<lparr>tick := n\<rparr>"
      by (cases "start_reset previous") (simp add: start_flags_def rollback_flags_def)
    then have "creation_state env callback previous (FlagsRestored e) (rollback_flags previous (impl s))" by auto
    then show ?thesis by (rule creation_inv_own [OF assms(5) m(1) fails(1) assms(2) fails(2)])
  next
    case (restores t callback previous e)
    from creation_state_rolls_back [OF creation_invD(2) [OF assms(5) restores(1)]]
    show ?thesis by (rule creation_inv_own [OF assms(5) m(1) restores(1) assms(2) restores(2)])
  next
    case (succeeds t callback previous w)
    have "saved (calls s u) = None" if "u \<noteq> t" for u
      using only_saved [OF m(1), of t previous u] succeeds(1) that by (cases "saved (calls s u)") auto
    then show ?thesis by (intro creation_inv_none) (simp add: succeeds(3) start_created_def)
  next
    case (throws t callback previous e)
    have "saved (calls s u) = None" if "u \<noteq> t" for u
      using only_saved [OF m(1), of t previous u] throws(1) that by (cases "saved (calls s u)") auto
    then show ?thesis by (intro creation_inv_none) (simp add: throws(3) start_failed_def)
  qed
qed

lemma reachable_creation:
  assumes "reachable env (Impl_init c) s" "fresh_os env"
  shows "creation_inv env (Impl_init c) s"
  using assms(1)
proof (induction rule: reachable.induct)
  case reachable_init
  then show ?case by (intro creation_inv_none) (simp add: Lifecycle_init_def)
next
  case (reachable_step s l s')
  show ?case
    by (rule creation_inv_step [OF reachable_step.hyps reachable_control_ok [OF reachable_step.hyps(1) Impl_init_ok(1)]
        reachable_idle_ok [OF reachable_step.hyps(1) assms(2) Impl_init_ok(2,3,1,4,5)] reachable_step.IH])
qed

text \<open>
  C6. What \<open>start\<close> returns, once it has looked for a worker. It fails with \<open>client is already
  running\<close> when the worker is alive without a fault, and then changes nothing. Otherwise it
  had decided to create a thread in a state without a worker. When the thread cannot be
  created the error is passed on and the client is as in that state, as if only its
  readers had run since: every saved value is put back, a latched fault included. When
  it succeeds the client has a new worker and no other, no fault, no stop request, no
  sample, empty rate windows, the next generation, and all its counters.
\<close>

theorem start_outcome:
  assumes "Impl_construct p now c = Inr i" "fresh_os env" "reachable env i s"
    and "calls s t = StartTests callback w \<or> calls s t = StartCreates callback previous creation"
    and "lifecycle_step env s (Return t r) s'"
  shows "(worker s \<noteq> None \<and> \<not> worker_exited (impl s) \<and> \<not> faulted (impl s) \<and>
      r = Inl (LogicError ''client is already running'') \<and>
      impl s' = impl s \<and> worker s' = worker s \<and> phase s' = phase s) \<or>
    (\<exists>s0. reachable env i s0 \<and> lifecycle_steps env s0 s \<and> calls s0 t = StartTests callback ForJoin \<and>
       \<not> joining s0 \<and> worker s0 = None \<and>
       (case r of
          Inl e \<Rightarrow> only_read env (impl s0) (impl s') \<and> worker s' = None \<and> phase s' = (\<lambda>_. Absent)
        | Inr _ \<Rightarrow>
            (\<exists>v. worker s' = Some v \<and> active_worker_id s' = Some v \<and> phase s' = (\<lambda>_. Absent)(v := Runs)) \<and>
            \<not> faulted (impl s') \<and> \<not> stopping (impl s') \<and> \<not> worker_exited (impl s') \<and> latest (impl s') = None \<and>
            receive_times (impl s') = [] \<and> delivery_times (impl s') = [] \<and>
            generation (impl s') = generation (impl s0) + 1 \<and> delivered_generation (impl s') = 0 \<and>
            callback_present (impl s') = callback \<and>
            health (impl s') = (health (impl s0))\<lparr>state := Connecting, fault_code := FaultNone,
              last_error := [], receive_rate_hz := Finite 0, delivery_rate_hz := Finite 0\<rparr>))"
proof -
  note i = Impl_construct_ok(1) [OF assms(1)]
  have k: "control_ok s" "creation_inv env i s" "fault_settled s"
    using reachable_control_ok [OF assms(3)] reachable_creation [OF _ assms(2)] reachable_settled [OF assms(3)]
      assms(3) i by (simp_all add: Impl_init_ok)
  then have m: "joining_ok s" "worker_ok s" "creation_ok s" by (simp_all add: control_ok_def)
  have absent: "phase s = (\<lambda>_. Absent)" "worker s = None" if "saved (calls s t) = Some q" for q
    using no_worker_idle [OF m(2,1) creation_okD(2,1) [OF m(3) that]] creation_okD(1) [OF m(3) that] by auto
  from assms(5) show ?thesis
  proof (cases rule: lifecycle_step.cases)
    case (start_decides u b r')
    then have "start_decide t b s = (Some r, s')" by (auto simp: outcome_label_def split: option.splits)
    then show ?thesis by (cases rule: start_decide_cases) auto
  next
    case (start_succeeds b q v)
    with assms(4) have q: "calls s t = StartCreates callback q FlagsSet" "s' = start_created t v s" "r = Inr ()" by auto
    obtain n where n: "impl s = (start_flags callback (start_reset q))\<lparr>tick := n\<rparr>"
      using creation_invD(2) [OF k(2) q(1)] by auto
    have f: "\<not> faulted (impl s)" using fault_settledD(3) [OF k(3), of t q] q(1) by simp
    have a: "phase s = (\<lambda>_. Absent)" using absent(1) [of q] q(1) by simp
    obtain s0 where s0: "reachable env i s0" "lifecycle_steps env s0 s" "calls s0 t = StartTests callback ForJoin"
      "\<not> joining s0" "worker s0 = None" "impl s0 = q"
      using creation_invD(3) [OF k(2) q(1)] unfolding creates_since_def by blast
    have "impl s' = impl s" "worker s' = Some v" "active_worker_id s' = Some v" "phase s' = (\<lambda>_. Absent)(v := Runs)"
      using a by (simp_all add: q(2) start_created_def)
    with s0 f q(3) n show ?thesis
      by (intro disjI2 exI [of _ s0]) (simp add: start_flags_def start_reset_def)
  next
    case (start_throws b q e)
    with assms(4) have q: "calls s t = StartCreates callback q (DataRestored e)" "s' = start_failed t q s" "r = Inl e" by auto
    have "fault_consistent q" using fault_settledD(2) [OF k(3), of t q] q(1) by simp
    from creation_state_restored [OF creation_invD(2) [OF k(2) q(1)] this]
    have "only_read env q (impl s')" by (simp add: q(2) start_failed_def)
    moreover have "creates_since env i t callback q s" by (rule creation_invD(3) [OF k(2) q(1)])
    ultimately show ?thesis
      using absent [of q] q unfolding creates_since_def by (auto simp: start_failed_def)
  qed (use assms(4) in \<open>auto simp: outcome_label_def split: option.splits\<close>)
qed

text \<open>A thread that cannot be created.\<close>

lemma start_outcome_witness:
  "\<exists>s s'. reachable quiet_env (Impl_init Config_default) s \<and>
     lifecycle_step quiet_env s (Return 2 (Inl (RuntimeError ''Resource temporarily unavailable''))) s' \<and>
     (\<exists>s0. reachable quiet_env (Impl_init Config_default) s0 \<and> only_read quiet_env (impl s0) (impl s') \<and>
        worker s' = None)"
proof -
  let ?i = "Impl_init Config_default" let ?e = "RuntimeError ''Resource temporarily unavailable''"
  let ?s1 = "creating_client ?i"
  let ?s2 = "set_call 2 (StartCreates True ?i (FlagsRestored ?e)) (on_impl (rollback_flags ?i) ?s1)"
  let ?s3 = "set_call 2 (StartCreates True ?i (DataRestored ?e)) (on_impl (rollback_data ?i) ?s2)"
  have "reachable quiet_env ?i ?s2"
    by (rule reachable_step [OF creating_client_reachable [OF Impl_init_ok(1)] start_fails])
      (simp add: creating_client_def)
  then have r: "reachable quiet_env ?i ?s3" by (rule reachable_step [OF _ start_restores]) simp
  have t: "calls ?s3 2 = StartTests True ForJoin \<or> calls ?s3 2 = StartCreates True ?i (DataRestored ?e)" by simp
  have l: "lifecycle_step quiet_env ?s3 (Return 2 (Inl ?e)) (start_failed 2 ?i ?s3)"
    by (rule start_throws [of _ _ True]) simp
  have c: "Impl_construct macos_arm64 (\<lambda>_. 0) Config_default = Inr ?i"
    by (simp add: Impl_construct_def Config_default_accepted)
  have f: "fresh_os quiet_env" by (simp add: fresh_os_def quiet_env_def fresh_sample_posix)
  from start_outcome [OF c f r t l] r l show ?thesis by (auto simp: creating_client_def)
qed

end
