(* ===== verification/Lifecycle_Progress.thy ===== *)
theory Lifecycle_Progress
  imports Lifecycle_Start
begin

text \<open>
  Calls come to an end. The steps of \<open>start\<close> and \<open>stop\<close> decrease a measure, so that without new
  calls only finitely many of them happen; and once the worker has ended some call can
  always go on, with one exception: a call of \<open>start\<close> that sleeps until the worker exits can
  miss the only notification of that exit.
\<close>

section \<open>A call can go on\<close>

lemma mutex_holder_steps:
  assumes "mutex_ok s" "lifecycle_mutex s = Some u"
  shows "\<exists>l s'. lifecycle_step env s l s' \<and> step_of l = Some u"
proof -
  have "holds_mutex (calls s u)" using assms by (simp add: mutex_ok_def)
  then consider callback w where "calls s u = StartTests callback w"
    | callback w where "calls s u = StartCommits callback w"
    | "calls s u = StopCommands" | "calls s u = StopTests" | "calls s u = StopCommits"
    | callback previous creation where "calls s u = StartCreates callback previous creation"
    by (cases "calls s u") auto
  then show ?thesis
  proof cases
    case (1 callback w)
    show ?thesis
    proof (cases "wait_over w s")
      case True
      obtain r s' where "start_decide u callback s = (r, s')" by (cases "start_decide u callback s")
      then have "w = ForJoin \<Longrightarrow> lifecycle_step env s (outcome_label u r) s'"
        using 1 True start_decides by blast
      moreover have "w = ForExit \<Longrightarrow> lifecycle_step env s (Internal u) (unlock (set_call u (StartEnter callback) s))"
        using 1 True start_retries by blast
      ultimately show ?thesis by (cases w) (metis step_of_outcome, metis step_of.simps(1))
    next
      case False
      then show ?thesis using start_commits [OF 1 False] by (metis step_of.simps(1))
    qed
  next
    case (2 callback w)
    then show ?thesis using start_sleeps by (metis step_of.simps(1))
  next
    case 3
    then show ?thesis using stop_decides [OF 3, of env] by (metis prod.exhaust step_of_outcome)
  next
    case 4
    then show ?thesis using stop_retries [OF 4] stop_commits [OF 4] by (metis step_of.simps(1))
  next
    case 5
    then show ?thesis using stop_sleeps by (metis step_of.simps(1))
  next
    case (6 callback previous creation)
    show ?thesis
    proof (cases creation)
      case DataReset
      then show ?thesis using 6 start_flagged by (metis step_of.simps(1))
    next
      case FlagsSet
      then show ?thesis using 6 start_fails by (metis step_of.simps(1))
    next
      case (FlagsRestored e)
      then show ?thesis using 6 start_restores by (metis step_of.simps(1))
    next
      case (DataRestored e)
      then show ?thesis using 6 start_throws by (metis step_of.simps(2))
    qed
  qed
qed

lemma mutex_waiter_steps:
  assumes "mutex_ok s" "lifecycle_mutex s = None \<Longrightarrow> \<exists>l s'. lifecycle_step env s l s' \<and> step_of l = Some t"
  shows "\<exists>u l s'. lifecycle_step env s l s' \<and> step_of l = Some u"
  using assms mutex_holder_steps [OF assms(1)] by (cases "lifecycle_mutex s") blast+

lemma reaper_steps:
  assumes "control_ok s" "is_reaper (calls s t)" "\<forall>w. phase s w \<in> {Absent, Ended}"
  shows "\<exists>u l s'. lifecycle_step env s l s' \<and> step_of l = Some u"
proof -
  have k: "mutex_ok s" "worker_ok s" using assms(1) by (simp_all add: control_ok_def)
  have e: "phase s w = Ended" if "joins (calls s t) = Some w" for w
    using worker_okD(6) [OF k(2) that] assms(3) by blast
  from assms(2) consider callback w where "calls s t = StartJoins callback w"
    | callback where "calls s t = StartReaped callback" | w where "calls s t = StopJoins w"
    | "calls s t = StopJoined" by (cases "calls s t") auto
  then show ?thesis
  proof cases
    case (1 callback w)
    then show ?thesis using start_joins [OF 1 e] by (metis joins.simps(1) step_of.simps(1))
  next
    case (2 callback)
    show ?thesis by (rule mutex_waiter_steps [OF k(1), of _ t]) (metis start_reaps [OF 2] step_of.simps(1))
  next
    case (3 w)
    then show ?thesis using stop_joins [OF 3 e] by (metis joins.simps(2) step_of.simps(1))
  next
    case 4
    show ?thesis by (rule mutex_waiter_steps [OF k(1), of _ t]) (metis stop_reaps [OF 4] step_of.simps(1))
  qed
qed

lemma notifier_steps:
  "is_notifier (calls s t) \<Longrightarrow> \<exists>u l s'. lifecycle_step env s l s' \<and> step_of l = Some u"
  by (cases "calls s t") (auto, metis start_notifies step_of.simps(1), metis stop_notifies step_of.simps(2))

lemma calls_go_on:
  assumes "reachable env i s" "worker_exited i" "\<forall>w. phase s w \<in> {Absent, Ended}"
    and "calls s t \<noteq> NoCall" "\<forall>callback. calls s t \<noteq> StartSleeps callback ForExit"
  shows "\<exists>u l s'. lifecycle_step env s l s' \<and> step_of l = Some u"
proof -
  have c: "control_ok s" by (rule reachable_control_ok [OF assms(1,2)])
  then have k: "mutex_ok s" "joining_ok s" "wakeup_ok s" by (simp_all add: control_ok_def)
  consider "is_reaper (calls s t)" | "is_notifier (calls s t)" | "holds_mutex (calls s t)"
    | "sleeps_for_join (calls s t)" | callback where "calls s t = StartEnter callback"
    | callback w where "calls s t = StartWoken callback w" | "calls s t = StopEnter" | "calls s t = StopWoken"
    using assms(4,5) by (cases "calls s t" rule: sleeps_for_join.cases) auto
  then show ?thesis
  proof cases
    case 1
    then show ?thesis by (rule reaper_steps [OF c _ assms(3)])
  next
    case 2
    then show ?thesis by (rule notifier_steps)
  next
    case 3
    then show ?thesis using mutex_holder_steps [OF k(1)] k(1) unfolding mutex_ok_def by blast
  next
    case 4
    then consider "joining s" | u where "is_notifier (calls s u)" using k(3) unfolding wakeup_ok_def by blast
    then show ?thesis
    proof cases
      case 1
      then obtain u where "is_reaper (calls s u)" using k(2) unfolding joining_ok_def by blast
      then show ?thesis by (rule reaper_steps [OF c _ assms(3)])
    next
      case 2
      then show ?thesis by (rule notifier_steps)
    qed
  next
    case (5 callback)
    show ?thesis
      by (rule mutex_waiter_steps [OF k(1), of _ t])
        (metis start_refused [OF 5] start_enters [OF 5] step_of.simps(1,2))
  next
    case (6 callback w)
    show ?thesis by (rule mutex_waiter_steps [OF k(1), of _ t]) (metis start_wakes [OF 6] step_of.simps(1))
  next
    case 7
    show ?thesis by (rule mutex_waiter_steps [OF k(1), of _ t]) (metis stop_enters [OF 7] step_of.simps(1))
  next
    case 8
    show ?thesis by (rule mutex_waiter_steps [OF k(1), of _ t]) (metis stop_wakes [OF 8] step_of.simps(1))
  qed
qed

text \<open>
  C10. No deadlock among calls. Once the worker has ended, whenever a call of \<open>start\<close> or \<open>stop\<close>
  is in progress some call can take a step, under every interleaving; the only call this
  does not cover is a \<open>start\<close> that sleeps until the worker exits.
\<close>

theorem calls_make_progress:
  assumes "reachable env i s" "worker_exited i" "\<forall>w. phase s w \<in> {Absent, Ended}"
    and "calls s t \<noteq> NoCall" "\<forall>callback. calls s t \<noteq> StartSleeps callback ForExit"
  shows "\<exists>u l s'. lifecycle_step env s l s' \<and> step_of l = Some u"
  using assms by (rule calls_go_on)

lemma calls_make_progress_witness:
  "\<exists>u l s'. lifecycle_step quiet_env (set_call 3 StopEnter (Lifecycle_init (Impl_init Config_default))) l s' \<and>
            step_of l = Some u"
proof -
  let ?i = "Impl_init Config_default"
  have "reachable quiet_env ?i (set_call 3 StopEnter (Lifecycle_init ?i))"
    by (rule reachable_step [OF reachable_init call_stop]) (simp add: may_call_def Lifecycle_init_def)
  from calls_make_progress [OF this Impl_init_ok(1), of 3] show ?thesis by (simp add: Lifecycle_init_def)
qed

section \<open>Calls end\<close>

fun in_start :: "Call \<Rightarrow> bool" where
  "in_start (StartEnter _) = True"
| "in_start (StartTests _ _) = True"
| "in_start (StartCommits _ _) = True"
| "in_start (StartSleeps _ _) = True"
| "in_start (StartWoken _ _) = True"
| "in_start (StartJoins _ _) = True"
| "in_start (StartReaped _) = True"
| "in_start (StartNotifies _) = True"
| "in_start (StartCreates _ _ _) = True"
| "in_start _ = False"

lemma saved_in_start: "saved c \<noteq> None \<Longrightarrow> in_start c"
  by (cases c) auto

text \<open>
  What a call of \<open>start\<close> can still set off: its loop may go round again until it creates a
  thread, and then it goes straight on.
\<close>

fun start_weight :: "Call \<Rightarrow> nat" where
  "start_weight (StartCreates _ _ DataReset) = 5"
| "start_weight (StartCreates _ _ FlagsSet) = 4"
| "start_weight (StartCreates _ _ (FlagsRestored _)) = 3"
| "start_weight (StartCreates _ _ (DataRestored _)) = 2"
| "start_weight c = (if in_start c then 6 else 0)"

text \<open>The notifications a call can still send before the next worker is reaped.\<close>

fun notifications :: "bool \<Rightarrow> Call \<Rightarrow> nat" where
  "notifications j StopEnter = 1"
| "notifications j StopNotifies = 1"
| "notifications j (StartNotifies _) = 1"
| "notifications j StopTests = (if j then 0 else 1)"
| "notifications j StopCommits = (if j then 0 else 1)"
| "notifications j StopSleeps = (if j then 0 else 1)"
| "notifications j StopWoken = (if j then 0 else 1)"
| "notifications j _ = 0"

text \<open>The steps a call can still take before it sleeps, ends or takes part in a join.\<close>

fun distance :: "bool \<Rightarrow> bool \<Rightarrow> Call \<Rightarrow> nat" where
  "distance j e NoCall = 0"
| "distance j e (StartSleeps _ _) = 1"
| "distance j e (StartCommits _ _) = 2"
| "distance j e (StartTests _ ForExit) = (if e then 8 else 3)"
| "distance j e (StartWoken _ ForExit) = (if e then 9 else 4)"
| "distance j e (StartTests _ ForJoin) = 5"
| "distance j e (StartWoken _ ForJoin) = 6"
| "distance j e (StartEnter _) = 7"
| "distance j e (StartJoins _ _) = 2"
| "distance j e (StartReaped _) = 1"
| "distance j e (StartNotifies _) = 1"
| "distance j e (StartCreates _ _ _) = 1"
| "distance j e StopSleeps = 1"
| "distance j e StopCommits = 2"
| "distance j e StopTests = (if j then 3 else 7)"
| "distance j e StopWoken = (if j then 4 else 8)"
| "distance j e StopCommands = 5"
| "distance j e StopEnter = 6"
| "distance j e (StopJoins _) = 2"
| "distance j e StopJoined = 1"
| "distance j e StopNotifies = 1"

definition callers :: "Lifecycle \<Rightarrow> thread_id set" where
  "callers s = {t. calls s t \<noteq> NoCall}"

definition total :: "(Call \<Rightarrow> nat) \<Rightarrow> Lifecycle \<Rightarrow> nat" where
  "total g s = (\<Sum>t\<in>callers s. g (calls s t))"

lemma total_superset:
  assumes "finite B" "callers s \<subseteq> B" "g NoCall = 0"
  shows "total g s = (\<Sum>t\<in>B. g (calls s t))"
  unfolding total_def by (rule sum.mono_neutral_left) (use assms in \<open>auto simp: callers_def\<close>)

lemma total_set_call:
  assumes "finite (callers s)" "g NoCall = 0"
  shows "total g (set_call t c s) + g (calls s t) = total g s + g c"
proof -
  let ?B = "insert t (callers s)"
  have "total g s = (\<Sum>u\<in>?B. g (calls s u))" by (rule total_superset) (use assms in auto)
  moreover have "total g (set_call t c s) = (\<Sum>u\<in>?B. g (calls (set_call t c s) u))"
    by (rule total_superset) (use assms in \<open>auto simp: callers_def\<close>)
  moreover have "(\<Sum>u\<in>?B - {t}. g (calls (set_call t c s) u)) = (\<Sum>u\<in>?B - {t}. g (calls s u))"
    by (rule sum.cong) auto
  ultimately show ?thesis
    using assms(1) by (simp add: sum.remove [of ?B t])
qed

lemma callers_frame [simp]:
  "callers (notify_all s) = callers s" "callers (lock t s) = callers s" "callers (unlock s) = callers s"
  "callers (on_impl f s) = callers s" "callers (set_phase w p s) = callers s" "callers (reaped s) = callers s"
  "callers (s\<lparr>impl := i\<rparr>) = callers s" "callers (s\<lparr>joining := j, worker := x\<rparr>) = callers s"
  "callers (s\<lparr>worker := x, active_worker_id := y\<rparr>) = callers s"
  by (simp_all add: callers_def)

lemma callers_set_call: "callers (set_call t c s) = (if c = NoCall then callers s - {t} else insert t (callers s))"
  by (auto simp: callers_def)

lemma total_frame [simp]:
  "total g (lock t s) = total g s" "total g (unlock s) = total g s" "total g (on_impl f s) = total g s"
  "total g (set_phase w p s) = total g s" "total g (reaped s) = total g s"
  "total g (s\<lparr>impl := i\<rparr>) = total g s" "total g (s\<lparr>joining := j, worker := x\<rparr>) = total g s"
  "total g (s\<lparr>worker := x, active_worker_id := y\<rparr>) = total g s"
  by (simp_all add: total_def)

lemma total_notify: "(\<And>c. g (wake c) = g c) \<Longrightarrow> total g (notify_all s) = total g s"
  by (simp add: total_def)

lemma finite_callers: "reachable env i s \<Longrightarrow> finite (callers s)"
proof (induction rule: reachable.induct)
  case reachable_init
  then show ?case by (simp add: callers_def Lifecycle_init_def)
next
  case (reachable_step s l s')
  from reachable_step.hyps(2) reachable_step.IH show ?case
    by (induction rule: lifecycle_step.induct)
      (auto simp: callers_set_call start_created_def start_failed_def elim!: start_decide_cases stop_decide_cases)
qed

definition starts :: "Lifecycle \<Rightarrow> nat" where
  "starts = total start_weight"

definition worker_pending :: "Lifecycle \<Rightarrow> nat" where
  "worker_pending s = (if worker s \<noteq> None \<or> joining s then 1 else 0)"

definition call_measure :: "Lifecycle \<Rightarrow> nat \<times> nat \<times> nat \<times> nat" where
  "call_measure s =
     (starts s + worker_pending s, if joining s then 0 else 1, total (notifications (joining s)) s,
      total (distance (joining s) (wait_over ForExit s)) s)"

definition measure_less :: "(nat \<times> nat \<times> nat \<times> nat) rel" where
  "measure_less = less_than <*lex*> less_than <*lex*> less_than <*lex*> less_than"

lemma in_start_wake [simp]: "in_start (wake c) = in_start c"
  by (cases c) auto

lemma start_weight_wake [simp]: "start_weight (wake c) = start_weight c"
  by (cases c) auto

lemma notifications_wake [simp]: "notifications j (wake c) = notifications j c"
  by (cases c) auto

lemma starts_set_call:
  "finite (callers s) \<Longrightarrow>
   starts (set_call t c s) + start_weight (calls s t) = starts s + start_weight c"
  unfolding starts_def by (subst total_set_call) simp_all

lemma starts_frame [simp]:
  "starts (lock t s) = starts s" "starts (unlock s) = starts s" "starts (on_impl f s) = starts s"
  "starts (set_phase w p s) = starts s" "starts (reaped s) = starts s"
  "starts (s\<lparr>impl := i\<rparr>) = starts s" "starts (s\<lparr>joining := j, worker := x\<rparr>) = starts s"
  "starts (s\<lparr>worker := x, active_worker_id := y\<rparr>) = starts s" "starts (notify_all s) = starts s"
  by (simp_all add: starts_def total_notify)

text \<open>The four ways the measure goes down.\<close>

lemma less_first: "starts s' + worker_pending s' < starts s + worker_pending s \<Longrightarrow>
   (call_measure s', call_measure s) \<in> measure_less"
  by (simp add: call_measure_def measure_less_def)

lemma less_second:
  "starts s' = starts s \<Longrightarrow> worker_pending s' = worker_pending s \<Longrightarrow> joining s' \<Longrightarrow> \<not> joining s \<Longrightarrow>
   (call_measure s', call_measure s) \<in> measure_less"
  by (simp add: call_measure_def measure_less_def)

lemma less_third:
  "starts s' = starts s \<Longrightarrow> worker_pending s' = worker_pending s \<Longrightarrow> joining s' = joining s \<Longrightarrow>
   total (notifications (joining s)) s' < total (notifications (joining s)) s \<Longrightarrow>
   (call_measure s', call_measure s) \<in> measure_less"
  by (simp add: call_measure_def measure_less_def)

lemma less_fourth:
  "starts s' = starts s \<Longrightarrow> worker_pending s' = worker_pending s \<Longrightarrow> joining s' = joining s \<Longrightarrow>
   total (notifications (joining s)) s' \<le> total (notifications (joining s)) s \<Longrightarrow>
   wait_over ForExit s' = wait_over ForExit s \<Longrightarrow>
   total (distance (joining s) (wait_over ForExit s)) s' < total (distance (joining s) (wait_over ForExit s)) s \<Longrightarrow>
   (call_measure s', call_measure s) \<in> measure_less"
  by (auto simp: call_measure_def measure_less_def)

lemma total_cong: "calls s' = calls s \<Longrightarrow> total g s' = total g s"
  by (simp add: total_def callers_def)

lemma total_move:
  assumes "finite (callers s)" "calls s' = (calls s)(t := c)" "g NoCall = 0"
  shows "total g s' + g (calls s t) = total g s + g c"
  using total_set_call [OF assms(1), of g t c] assms(2,3) total_cong [of s' "set_call t c s" g] by simp

lemma total_notify_move:
  assumes "finite (callers s)" "calls s' = (wake \<circ> calls s)(t := c)" "g NoCall = 0" "\<And>c. g (wake c) = g c"
  shows "total g s' + g (calls s t) = total g s + g c"
  using total_move [of "notify_all s" s' t c g] total_notify [of g s] assms by simp

lemma move_within:
  assumes "finite (callers s)" "worker s' = worker s" "joining s' = joining s"
    and "wait_over ForExit s' = wait_over ForExit s" "start_weight c = start_weight (calls s t)"
    and "notifications (joining s) c \<le> notifications (joining s) (calls s t)"
    and "distance (joining s) (wait_over ForExit s) c < distance (joining s) (wait_over ForExit s) (calls s t)"
    and "calls s' = (calls s)(t := c)"
  shows "(call_measure s', call_measure s) \<in> measure_less"
proof (rule less_fourth)
  note move = total_move [OF assms(1,8)]
  show "starts s' = starts s"
    using move [of start_weight] assms(5) by (simp add: starts_def)
  show "worker_pending s' = worker_pending s" using assms(2,3) by (simp add: worker_pending_def)
  show "total (notifications (joining s)) s' \<le> total (notifications (joining s)) s"
    using move [of "notifications (joining s)"] assms(6) by simp
  show "total (distance (joining s) (wait_over ForExit s)) s' < total (distance (joining s) (wait_over ForExit s)) s"
    using move [of "distance (joining s) (wait_over ForExit s)"] assms(7) by simp
qed (use assms in auto)

lemma move_notifying:
  assumes "finite (callers s)" "worker s' = worker s" "joining s' = joining s"
    and "start_weight c = start_weight (calls s t)"
    and "notifications (joining s) c < notifications (joining s) (calls s t)"
    and "calls s' = (wake \<circ> calls s)(t := c)"
  shows "(call_measure s', call_measure s) \<in> measure_less"
proof (rule less_third)
  note move = total_notify_move [OF assms(1,6)]
  show "starts s' = starts s"
    using move [of start_weight] assms(4) by (simp add: starts_def)
  show "worker_pending s' = worker_pending s" using assms(2,3) by (simp add: worker_pending_def)
  show "total (notifications (joining s)) s' < total (notifications (joining s)) s"
    using move [of "notifications (joining s)"] assms(5) by simp
qed (use assms in auto)

lemma move_taking:
  assumes "finite (callers s)" "worker s \<noteq> None" "\<not> joining s" "joining s'"
    and "start_weight c = start_weight (calls s t)" "calls s' = (calls s)(t := c)"
  shows "(call_measure s', call_measure s) \<in> measure_less"
proof (rule less_second)
  show "starts s' = starts s"
    using total_move [OF assms(1,6), of start_weight] assms(5) by (simp add: starts_def)
qed (use assms in \<open>auto simp: worker_pending_def\<close>)

lemma move_reaping:
  assumes "finite (callers s)" "joining s" "worker s' = None" "\<not> joining s'"
    and "start_weight c = start_weight (calls s t)" "calls s' = (calls s)(t := c)"
  shows "(call_measure s', call_measure s) \<in> measure_less"
proof (rule less_first)
  have "starts s' = starts s"
    using total_move [OF assms(1,6), of start_weight] assms(5) by (simp add: starts_def)
  then show "starts s' + worker_pending s' < starts s + worker_pending s"
    using assms by (simp add: worker_pending_def)
qed

lemma move_starting:
  assumes "finite (callers s)"
    and "start_weight (calls s' t) + (if worker s' = worker s \<and> joining s' = joining s then 0 else 1) < start_weight (calls s t)"
    and "calls s' = (calls s)(t := calls s' t) \<or> calls s' = (wake \<circ> calls s)(t := calls s' t)"
  shows "(call_measure s', call_measure s) \<in> measure_less"
proof (rule less_first)
  have "starts s' + start_weight (calls s t) = starts s + start_weight (calls s' t)"
    using assms(3) total_move [OF assms(1), of s' t "calls s' t" start_weight]
      total_notify_move [OF assms(1), of s' t "calls s' t" start_weight] by (auto simp: starts_def)
  then show "starts s' + worker_pending s' < starts s + worker_pending s"
    using assms(2) by (auto simp: worker_pending_def split: if_splits)
qed

lemma start_decide_measure:
  assumes "start_decide t callback s = (r, s')" "finite (callers s)" "calls s t = StartTests callback ForJoin"
    and "\<not> joining s"
  shows "(call_measure s', call_measure s) \<in> measure_less"
  using assms(1)
proof (cases rule: start_decide_cases)
  case (running w)
  then show ?thesis by (intro move_starting [OF assms(2), where t = t]) (simp_all add: assms(3))
next
  case (ending w)
  then show ?thesis by (intro move_within [OF assms(2), where t = t]) (simp_all add: assms(3))
next
  case (ended w)
  then show ?thesis by (intro move_taking [OF assms(2), where t = t]) (simp_all add: assms(3,4))
next
  case free
  then show ?thesis by (intro move_starting [OF assms(2), where t = t]) (simp_all add: assms(3))
qed

lemma wait_over_frame [simp]:
  "faulted (stop_flag i) = faulted i" "faulted (stop_command env i) = faulted i"
  using stop_command_data [of i env] by (simp_all add: stop_flag_def faulted_def same_data_def)

lemma stop_decide_measure:
  assumes "stop_decide env t s = (r, s')" "finite (callers s)" "calls s t = StopCommands"
  shows "(call_measure s', call_measure s) \<in> measure_less"
  using assms(1)
proof (cases rule: stop_decide_cases)
  case (takes w)
  then show ?thesis by (intro move_taking [OF assms(2), where t = t]) (simp_all add: assms(3))
qed (rule move_within [OF assms(2), where t = t], simp_all add: assms(3) show_stopped_frame)+

lemma call_step_measure:
  assumes "lifecycle_step env s l s'" "step_of l = Some t" "control_ok s" "finite (callers s)"
  shows "(call_measure s', call_measure s) \<in> measure_less"
proof -
  have k: "worker_ok s" "joining_ok s" "wakeup_ok s" using assms(3) by (simp_all add: control_ok_def)
  note within = move_within [OF assms(4), where t = t] and notifying = move_notifying [OF assms(4), where t = t]
    and reaping = move_reaping [OF assms(4), where t = t] and starting = move_starting [OF assms(4), where t = t]
  have reaper: "joining s \<and> worker s = None" if "calls s t = StartReaped callback \<or> calls s t = StopJoined" for callback
    using reaper_joining [OF k(2), of t] no_worker_reaped [OF k(1,2), of t] that by auto
  from assms(1,2) show ?thesis
  proof (cases rule: lifecycle_step.cases)
    case (start_decides t' callback r)
    then show ?thesis using start_decide_measure [OF _ assms(4)] by simp
  next
    case (stop_decides t' r)
    then show ?thesis using stop_decide_measure [OF _ assms(4)] by simp
  next
    case (start_refused t' callback)
    then show ?thesis using assms(2) by (intro starting) simp_all
  next
    case (start_flagged t' callback previous)
    then show ?thesis using assms(2) by (intro starting) simp_all
  next
    case (start_succeeds t' callback previous w)
    then show ?thesis using assms(2) by (intro starting) (simp_all add: start_created_def)
  next
    case (start_fails t' callback previous e)
    then show ?thesis using assms(2) by (intro starting) simp_all
  next
    case (start_restores t' callback previous e)
    then show ?thesis using assms(2) by (intro starting) simp_all
  next
    case (start_throws t' callback previous e)
    then show ?thesis using assms(2) by (intro starting) (simp_all add: start_failed_def)
  next
    case (start_commits t' callback w)
    then show ?thesis using assms(2) by (cases w) (rule within, simp_all)+
  next
    case (start_wakes t' callback w)
    then show ?thesis using assms(2) by (cases w) (rule within, simp_all)+
  next
    case (start_notifies t' callback)
    then show ?thesis using assms(2) by (intro notifying) simp_all
  next
    case (start_reaps t' callback)
    then show ?thesis using assms(2) reaper by (intro reaping) auto
  next
    case (stop_reaps t')
    then show ?thesis using assms(2) reaper by (intro reaping) auto
  next
    case (stop_enters t')
    then show ?thesis using assms(2) by (intro notifying) simp_all
  next
    case (stop_notifies t')
    then show ?thesis using assms(2) by (intro notifying) simp_all
  next
    case (stop_commits t')
    then show ?thesis using assms(2) by (intro within) simp_all
  qed (use assms(2) in simp_all, (rule within, simp_all)+)
qed

text \<open>
  C11. Calls terminate. Between two steps of the worker, and without new calls and spurious
  wake-ups, the threads in \<open>start\<close> and \<open>stop\<close> take only finitely many steps, however many they
  are and however they interleave: no call goes round its loop for ever by itself or
  because of other calls.
\<close>

theorem calls_terminate:
  assumes "worker_exited i"
  shows "wf {(s', s). reachable env i s \<and> (\<exists>l t. lifecycle_step env s l s' \<and> step_of l = Some t)}"
proof (rule wf_subset)
  show "wf (inv_image measure_less call_measure)"
    unfolding measure_less_def by (intro wf_inv_image wf_lex_prod wf_less_than)
  show "{(s', s). reachable env i s \<and> (\<exists>l t. lifecycle_step env s l s' \<and> step_of l = Some t)} \<subseteq>
      inv_image measure_less call_measure"
    using call_step_measure reachable_control_ok [OF _ assms] finite_callers by fastforce
qed

lemma calls_terminate_witness:
  "wf {(s', s). reachable quiet_env (Impl_init Config_default) s \<and>
        (\<exists>l t. lifecycle_step quiet_env s l s' \<and> step_of l = Some t)}"
  by (rule calls_terminate) (rule Impl_init_ok)

section \<open>A missed notification\<close>

text \<open>The states of the execution below, with everything but the control given explicitly.\<close>

definition control :: "Impl \<Rightarrow> thread_id option \<Rightarrow> Call \<Rightarrow> Phase \<Rightarrow> Lifecycle" where
  "control j m c p =
     \<lparr>impl = j, worker = Some 7, active_worker_id = Some 7, joining = False, lifecycle_mutex = m,
      calls = (\<lambda>_. NoCall)(2 := c), phase = (\<lambda>_. Absent)(7 := p)\<rparr>"

lemma control_fields [simp]:
  "impl (control j m c p) = j" "worker (control j m c p) = Some 7"
  "active_worker_id (control j m c p) = Some 7" "joining (control j m c p) = False"
  "lifecycle_mutex (control j m c p) = m" "calls (control j m c p) = (\<lambda>_. NoCall)(2 := c)"
  "phase (control j m c p) = (\<lambda>_. Absent)(7 := p)"
  by (simp_all add: control_def)

lemma control_updates:
  "set_call 2 c' (control j m c p) = control j m c' p" "lock 2 (control j m c p) = control j (Some 2) c p"
  "unlock (control j m c p) = control j None c p" "set_phase 7 p' (control j m c p) = control j m c p'"
  "on_impl f (control j m c p) = control (f j) m c p" "(control j m c p)\<lparr>impl := j'\<rparr> = control j' m c p"
  "wake c = c \<Longrightarrow> notify_all (control j m c p) = control j m c p"
  by (simp_all add: control_def set_call_def lock_def unlock_def set_phase_def on_impl_def notify_all_def
      fun_eq_iff fun_upd_def)

text \<open>
  The worker publishes a fault; a thread calls \<open>start\<close> again, finds that the worker has not
  exited and is about to sleep; the worker exits and notifies; the thread goes to sleep.
\<close>

lemma missed_exit_reachable:
  fixes i :: Impl and env :: Env
  defines "f \<equiv> set_fault FaultTimeout [] (start_flags True (start_reset i))"
  defines "e \<equiv> show_stopped ((net_close env (end_stream env f))\<lparr>worker_exited := True\<rparr>)"
  assumes "worker_exited i"
  shows "reachable env i (control e None (StartSleeps True ForExit) Ended)"
proof -
  have ff: "faulted f" by (simp add: f_def set_fault_faulted)
  have fe: "\<not> worker_exited f" by (simp add: f_def)
  note step = reachable_step [where env = env and i = i]
  let ?x = "(net_close env (end_stream env f))\<lparr>worker_exited := True\<rparr>"
  have "reachable env i (control (start_flags True (start_reset i)) None NoCall Runs)"
    using started_client_reachable [OF assms(3), of env] by (simp add: started_client_def control_def fun_upd_def)
  then have "reachable env i (control f None NoCall Runs)"
    by (rule step) (use worker_runs [where env = env and s = "control (start_flags True (start_reset i)) None NoCall Runs"
        and w = 7 and i = f] in \<open>simp add: control_updates f_def worker_fault\<close>)
  then have "reachable env i (control f None (StartEnter True) Runs)"
    by (rule step) (use call_start [where env = env and s = "control f None NoCall Runs" and t = 2
        and callback = True] in \<open>simp add: control_updates may_call_def\<close>)
  then have "reachable env i (control f (Some 2) (StartTests True ForJoin) Runs)"
    by (rule step) (use start_enters [where env = env and s = "control f None (StartEnter True) Runs" and t = 2
        and callback = True] in \<open>simp add: control_updates called_from_worker_thread_def\<close>)
  then have "reachable env i (control f (Some 2) (StartTests True ForExit) Runs)"
    by (rule step) (rule start_decides [where t = 2 and callback = True and r = None], simp_all add: start_decide_def ff fe control_updates)
  then have "reachable env i (control f (Some 2) (StartCommits True ForExit) Runs)"
    by (rule step) (use start_commits [where env = env and s = "control f (Some 2) (StartTests True ForExit) Runs"
        and t = 2 and callback = True and w = ForExit] in \<open>simp add: control_updates ff fe\<close>)
  then have "reachable env i (control (net_close env (end_stream env f)) (Some 2) (StartCommits True ForExit) Closed)"
    by (rule step) (use worker_closes [where env = env and s = "control f (Some 2) (StartCommits True ForExit) Runs"
        and w = 7] in \<open>simp add: control_updates ff\<close>)
  then have "reachable env i (control ?x (Some 2) (StartCommits True ForExit) Exited)"
    by (rule step) (use worker_exits [where env = env and w = 7 and
        s = "control (net_close env (end_stream env f)) (Some 2) (StartCommits True ForExit) Closed"]
        in \<open>simp add: control_updates\<close>)
  then have "reachable env i (control e (Some 2) (StartCommits True ForExit) Announces)"
    unfolding e_def by (rule step) (use worker_finishes [where env = env and w = 7 and
        s = "control ?x (Some 2) (StartCommits True ForExit) Exited"] in \<open>simp add: control_updates\<close>)
  then have "reachable env i (control e (Some 2) (StartCommits True ForExit) Ended)"
    by (rule step) (use worker_announces [where env = env and w = 7 and
        s = "control e (Some 2) (StartCommits True ForExit) Announces"] in \<open>simp add: control_updates\<close>)
  then show ?thesis
    by (rule step) (use start_sleeps [where env = env and t = 2 and callback = True and w = ForExit and
        s = "control e (Some 2) (StartCommits True ForExit) Ended"] in \<open>simp add: control_updates\<close>)
qed

text \<open>
  C24. The exit of the worker can be missed. \<open>finish_session\<close> stores \<open>worker_exited_\<close> and notifies
  without the lifecycle mutex, so that both can fall between the moment \<open>start\<close> evaluates
  its predicate and the moment it sleeps. A state is reachable in which the worker has
  ended, the predicate of the sleeping \<open>start\<close> holds, and no step is left that wakes it: only
  a spurious wake-up or a further call of \<open>start\<close> or \<open>stop\<close> by some thread can.
\<close>

theorem start_can_miss_the_exit:
  "\<exists>s. reachable env (Impl_init c) s \<and> calls s 2 = StartSleeps True ForExit \<and>
       (\<forall>t. t \<noteq> 2 \<longrightarrow> calls s t = NoCall) \<and> (\<forall>w. phase s w \<in> {Absent, Ended}) \<and>
       wait_over ForExit s \<and>
       (\<forall>l s'. lifecycle_step env s l s' \<longrightarrow>
          l = Reader \<and> calls s' = calls s \<or> l = Spurious 2 \<or> (\<exists>t. l = CallStop t \<or> (\<exists>b. l = CallStart t b)))"
proof -
  let ?i = "Impl_init c" let ?f = "set_fault FaultTimeout [] (start_flags True (start_reset ?i))"
  let ?e = "show_stopped ((net_close env (end_stream env ?f))\<lparr>worker_exited := True\<rparr>)"
  let ?s = "control ?e None (StartSleeps True ForExit) Ended"
  have "reachable env ?i ?s" by (rule missed_exit_reachable [OF Impl_init_ok(1)])
  moreover have "l = Reader \<and> calls s' = calls ?s \<or> l = Spurious 2 \<or> (\<exists>t. l = CallStop t \<or> (\<exists>b. l = CallStart t b))"
    if "lifecycle_step env ?s l s'" for l s'
    using that by (cases rule: lifecycle_step.cases) (auto split: if_splits)
  moreover have "wait_over ForExit ?s" by simp
  ultimately show ?thesis by (intro exI [of _ ?s]) (simp del: wait_over.simps)
qed

lemma start_can_miss_the_exit_witness:
  "\<exists>s. reachable quiet_env (Impl_init Config_default) s \<and> calls s 2 = StartSleeps True ForExit \<and>
       wait_over ForExit s"
  using start_can_miss_the_exit [of quiet_env Config_default] by blast

section \<open>What stop leaves behind\<close>

text \<open>Steps of the client while no thread starts it.\<close>

definition unstarted_step :: "Env \<Rightarrow> Lifecycle \<Rightarrow> Lifecycle \<Rightarrow> bool" where
  "unstarted_step env s s' \<longleftrightarrow> (\<exists>l. lifecycle_step env s l s' \<and> (\<forall>t callback. l \<noteq> CallStart t callback))"

text \<open>The state of a call of \<open>stop\<close> by thread \<open>t\<close>, which is not the worker.\<close>

definition stop_ok :: "thread_id \<Rightarrow> Lifecycle \<Rightarrow> bool" where
  "stop_ok t s \<longleftrightarrow>
     (\<forall>u. \<not> in_start (calls s u)) \<and> phase s t = Absent \<and>
     (calls s t = StopNotifies \<longrightarrow> worker s = None \<and> \<not> joining s) \<and>
     (calls s t \<noteq> NoCall \<longrightarrow> calls s t \<noteq> StopEnter \<longrightarrow> stopping (impl s))"

lemma stopping_frame:
  "stopping (stop_flag i)" "stopping (stop_command env i) = stopping i"
  "stopping (net_close env i) = stopping i" "stopping (show_stopped i) = stopping i"
  "stopping (snd (bias env i)) = stopping i" "stopping (snd (client_health p now i)) = stopping i"
  using bias_frame [of i env]
  by (simp_all add: stop_flag_def stop_command_def net_shutdown_def net_close_def show_stopped_frame
      client_health_def Let_def)

lemma session_section_stopping: "session_section env i j \<Longrightarrow> stopping j = stopping i"
  by (induction rule: session_section.induct)
    (auto simp: observe_record_def worker_step_defs begin_tracking_def configuration_for_session_def
      net_connect_def net_send_def net_close_def split: prod.splits option.splits Backend.splits)

lemma worker_step_stopping: "worker_step env i j \<Longrightarrow> stopping j = stopping i"
  by (auto simp: session_section_stopping set_fault_frame elim: worker_step.cases)

lemma stop_okI:
  assumes "\<And>u. \<not> in_start (calls s u)" "phase s t = Absent"
    "calls s t = StopNotifies \<Longrightarrow> worker s = None \<and> \<not> joining s"
    "calls s t \<noteq> NoCall \<Longrightarrow> calls s t \<noteq> StopEnter \<Longrightarrow> stopping (impl s)"
  shows "stop_ok t s"
  using assms by (simp add: stop_ok_def)

lemma stop_okD:
  assumes "stop_ok t s"
  shows "\<not> in_start (calls s u)" "phase s t = Absent"
    "calls s t = StopNotifies \<Longrightarrow> worker s = None \<and> \<not> joining s"
    "calls s t \<noteq> NoCall \<Longrightarrow> calls s t \<noteq> StopEnter \<Longrightarrow> stopping (impl s)"
  using assms by (simp_all add: stop_ok_def)

lemma stop_ok_set:
  assumes "stop_ok t s" "\<not> in_start c"
    and "u = t \<Longrightarrow> c = StopNotifies \<Longrightarrow> worker s = None \<and> \<not> joining s"
    and "u = t \<Longrightarrow> c \<noteq> NoCall \<Longrightarrow> c \<noteq> StopEnter \<Longrightarrow> stopping (impl s)"
  shows "stop_ok t (set_call u c s)"
proof (rule stop_okI)
  fix v
  show "\<not> in_start (calls (set_call u c s) v)" using assms(2) stop_okD(1) [OF assms(1)] by simp
  show "phase (set_call u c s) t = Absent" using stop_okD(2) [OF assms(1)] by simp
next
  show "worker (set_call u c s) = None \<and> \<not> joining (set_call u c s)" if "calls (set_call u c s) t = StopNotifies"
    using that assms(3) stop_okD(3) [OF assms(1)] by (cases "u = t") auto
  show "stopping (impl (set_call u c s))"
    if "calls (set_call u c s) t \<noteq> NoCall" "calls (set_call u c s) t \<noteq> StopEnter"
    using that assms(4) stop_okD(4) [OF assms(1)] by (cases "u = t") auto
qed

lemma stop_ok_go_on:
  assumes "stop_ok t s" "calls s u \<noteq> NoCall" "calls s u \<noteq> StopEnter" "\<not> in_start c" "c \<noteq> StopNotifies"
  shows "stop_ok t (set_call u c s)"
  using assms(1,4) by (rule stop_ok_set) (use assms stop_okD(4) [OF assms(1)] in auto)

lemma wake_iff [simp]: "wake c = StopNotifies \<longleftrightarrow> c = StopNotifies" "wake c = StopEnter \<longleftrightarrow> c = StopEnter"
  by (cases c; simp)+

lemma stop_ok_frame [simp]:
  "stop_ok t (lock u s) = stop_ok t s" "stop_ok t (unlock s) = stop_ok t s"
  "stop_ok t (notify_all s) = stop_ok t s"
  by (simp_all add: stop_ok_def)

lemma stop_ok_impl:
  "stop_ok t s \<Longrightarrow> (stopping (impl s) \<Longrightarrow> stopping (f (impl s))) \<Longrightarrow> stop_ok t (on_impl f s)"
  "stop_ok t s \<Longrightarrow> (stopping (impl s) \<Longrightarrow> stopping i) \<Longrightarrow> stop_ok t (s\<lparr>impl := i\<rparr>)"
  by (auto simp: stop_ok_def)

lemma stop_ok_phase: "stop_ok t s \<Longrightarrow> phase s w \<noteq> Absent \<Longrightarrow> stop_ok t (set_phase w p s)"
  by (auto simp: stop_ok_def)

lemma stop_ok_take:
  "stop_ok t s \<Longrightarrow> worker s = Some w \<Longrightarrow> stop_ok t (s\<lparr>joining := True, worker := None\<rparr>)"
  by (auto simp: stop_ok_def)

lemma stop_ok_reaped: "stop_ok t s \<Longrightarrow> stop_ok t (reaped s)"
  by (auto simp: stop_ok_def)

lemma stop_decide_stop_ok:
  assumes "stop_decide env u s = (r, s')" "calls s u = StopCommands" "stop_ok t s"
  shows "stop_ok t s'"
proof -
  have s1: "stop_ok t (on_impl (stop_command env) s)" using assms(3) by (rule stop_ok_impl) (simp add: stopping_frame)
  have s2: "stop_ok t (on_impl show_stopped (on_impl (stop_command env) s))"
    using s1 by (rule stop_ok_impl) (simp add: stopping_frame)
  from assms(1) show ?thesis
  proof (cases rule: stop_decide_cases)
    case (takes w)
    then have "stop_ok t ((on_impl (stop_command env) s)\<lparr>joining := True, worker := None\<rparr>)"
      by (intro stop_ok_take [OF s1]) simp
    with takes(5) assms(2) show ?thesis by (simp add: stop_ok_go_on)
  qed (use s1 s2 assms(2) in \<open>simp_all add: stop_ok_go_on\<close>)
qed

lemma stop_ok_step:
  assumes "unstarted_step env s s'" "control_ok s" "stop_ok t s"
  shows "stop_ok t s'"
proof -
  obtain l where l: "lifecycle_step env s l s'" "\<forall>t callback. l \<noteq> CallStart t callback"
    using assms(1) by (auto simp: unstarted_step_def)
  have k: "worker_ok s" "joining_ok s" using assms(2) by (simp_all add: control_ok_def)
  note go = stop_ok_go_on [OF assms(3)]
  have n: "calls s u \<noteq> StartEnter b" "calls s u \<noteq> StartTests b w" "calls s u \<noteq> StartCommits b w"
    "calls s u \<noteq> StartSleeps b w" "calls s u \<noteq> StartWoken b w" "calls s u \<noteq> StartJoins b v"
    "calls s u \<noteq> StartReaped b" "calls s u \<noteq> StartNotifies b" "calls s u \<noteq> StartCreates b q c" for u b w v q c
    using stop_okD(1) [OF assms(3), of u] by auto
  from l(1) show ?thesis
  proof (cases rule: lifecycle_step.cases)
    case (stop_decides u r)
    then show ?thesis using stop_decide_stop_ok assms(3) by blast
  next
    case (stop_reaps u)
    have "stop_ok t (reaped (on_impl show_stopped s))"
      by (rule stop_ok_reaped, rule stop_ok_impl [OF assms(3)]) (simp add: stopping_frame)
    then show ?thesis
      using stop_reaps no_worker_reaped [OF k(1,2), of u] stop_okD(4) [OF assms(3)]
      by (auto simp: stopping_frame intro!: stop_ok_set)
  next
    case (stop_enters u)
    have "stop_ok t (notify_all (on_impl stop_flag s))"
      using stop_ok_impl(1) [OF assms(3), of stop_flag] by (simp add: stopping_frame)
    then show ?thesis using stop_enters by (auto simp: stopping_frame intro!: stop_ok_set)
  next
    case (stop_joins u w)
    then have "stop_ok t (set_call u StopJoined s)" by (intro go) simp_all
    then show ?thesis using stop_joins by (simp add: stop_ok_phase)
  next
    case (worker_exits w)
    have "stop_ok t (on_impl (\<lambda>i. i\<lparr>worker_exited := True\<rparr>) s)" by (rule stop_ok_impl [OF assms(3)]) simp
    then show ?thesis using worker_exits by (simp add: stop_ok_phase)
  next
    case (worker_closes w)
    have "stop_ok t (on_impl (\<lambda>i. net_close env (end_stream env i)) s)"
      by (rule stop_ok_impl [OF assms(3)]) (simp add: stopping_frame)
    then show ?thesis using worker_closes by (simp add: stop_ok_phase)
  next
    case (worker_finishes w)
    have "stop_ok t (on_impl show_stopped s)" by (rule stop_ok_impl [OF assms(3)]) (simp add: stopping_frame)
    then show ?thesis using worker_finishes by (simp add: stop_ok_phase)
  next
    case (worker_runs w i)
    then show ?thesis using stop_ok_impl(2) [OF assms(3), of i] worker_step_stopping by blast
  next
    case (stop_notifies u)
    then show ?thesis using assms(3) by (simp, intro stop_ok_set) simp_all
  next
    case (call_stop u)
    then show ?thesis using assms(3) by (simp, intro stop_ok_set) simp_all
  next
    case (call_start u callback)
    then show ?thesis using l(2) by blast
  qed (use assms(3) in \<open>auto simp: n stopping_frame intro: stop_ok_impl stop_ok_phase stop_ok_go_on\<close>)
qed

text \<open>The call of another thread returns in a client that has no worker.\<close>

lemma stop_returns_idle:
  assumes "lifecycle_step env s (Return t r) s'" "control_ok s" "stop_ok t s"
  shows "r = Inr () \<and> worker s' = None \<and> (\<forall>w. phase s' w = Absent) \<and> stopping (impl s')"
proof -
  have k: "worker_ok s" "joining_ok s" "exited_ok s" "caller_ok s" using assms(2) by (simp_all add: control_ok_def)
  have n: "\<not> in_start (calls s t)" by (rule stop_okD(1) [OF assms(3)])
  from assms(1) show ?thesis
  proof (cases rule: lifecycle_step.cases)
    case (stop_decides u r')
    then have u: "u = t" "calls s t = StopCommands" "r' = Some r"
      by (auto simp: outcome_label_def split: option.splits)
    have "stopping (impl s)" using stop_okD(4) [OF assms(3)] u(2) by simp
    moreover from stop_decides(3) u(1,3) have "stop_decide env t s = (Some r, s')" by simp
    then show ?thesis
    proof (cases rule: stop_decide_cases)
      case self
      have "phase s w \<noteq> Runs \<and> phase s w \<noteq> Closed" for w
        using worker_okD(4) [OF k(1), of w] self(2) stop_okD(2) [OF assms(3)] by auto
      moreover have "\<not> launching (calls s u)" for u
        using stop_okD(1) [OF assms(3)] saved_in_start launching_saved by blast
      ultimately show ?thesis using self(1) k(3) by (simp add: exited_ok_def)
    next
      case idle
      with no_worker_idle [OF k(1,2) idle(2,3)] \<open>stopping (impl s)\<close> show ?thesis by (simp add: stopping_frame)
    qed simp_all
  next
    case stop_notifies
    then have "worker s = None" "\<not> joining s" using stop_okD(3) [OF assms(3)] by auto
    with stop_notifies no_worker_idle [OF k(1,2)] stop_okD(4) [OF assms(3)] show ?thesis by simp
  qed (use n in \<open>auto simp: outcome_label_def split: option.splits\<close>)
qed

lemma unstarted_stop_ok:
  assumes "(unstarted_step env)\<^sup>*\<^sup>* s s'" "reachable env i s" "stop_ok t s" "worker_exited i"
  shows "reachable env i s'" "stop_ok t s'"
proof -
  from assms(1) have "reachable env i s' \<and> stop_ok t s'"
  proof (induction rule: rtranclp_induct)
    case base
    then show ?case using assms(2,3) by simp
  next
    case (step y z)
    then show ?case
      using stop_ok_step [OF step.hyps(2)] reachable_control_ok [OF _ assms(4)]
      by (auto simp: unstarted_step_def intro: reachable_step)
  qed
  then show "reachable env i s'" "stop_ok t s'" by simp_all
qed

text \<open>
  C4. What \<open>stop\<close> guarantees. A thread other than the worker calls \<open>stop\<close>, and no thread starts
  the client meanwhile. When the call returns, whatever other calls of \<open>stop\<close> ran with it, no
  thread executes \<open>run\<close>, no descriptor is open, the stop request is still up, and the health
  record shows \<open>Stopped\<close>, or \<open>Faulted\<close> when a fault is latched.
\<close>

theorem stop_leaves_no_worker:
  assumes "Impl_construct p now c = Inr i" "fresh_os env" "reachable env i s0"
    and "\<forall>u. \<not> in_start (calls s0 u)" "phase s0 t = Absent" "calls s0 t = NoCall"
    and "(unstarted_step env)\<^sup>*\<^sup>* (set_call t StopEnter s0) s" "lifecycle_step env s (Return t r) s'"
  shows "r = Inr () \<and> worker s' = None \<and> (\<forall>w. phase s' w = Absent) \<and> stopping (impl s') \<and>
    open_sockets (udp (impl s')) = [] \<and>
    state (health (impl s')) = (if faulted (impl s') then Faulted else Stopped)"
proof -
  note i = Impl_construct_ok [OF assms(1)]
  have "reachable env i (set_call t StopEnter s0)"
    using reachable_step [OF assms(3) call_stop] assms(5,6) by (simp add: may_call_def)
  moreover have "stop_ok t (set_call t StopEnter s0)"
    using assms(4,5) by (simp add: stop_ok_def)
  ultimately have s: "reachable env i s" "stop_ok t s"
    using unstarted_stop_ok [OF assms(7)] i(1) by (simp_all add: Impl_init_ok)
  have k: "control_ok s" using reachable_control_ok [OF s(1)] i(1) by (simp add: Impl_init_ok)
  from stop_returns_idle [OF assms(8) k s(2)] have e: "r = Inr ()" "worker s' = None"
    "\<forall>w. phase s' w = Absent" "stopping (impl s')" by auto
  have "reachable env i s'" by (rule reachable_step [OF s(1) assms(8)])
  then have d: "idle_ok s'" "fault_settled s'"
    using reachable_idle_ok [OF _ assms(2)] reachable_settled i(1) Impl_init_ok by auto
  have "stop_ok t s'" by (rule stop_ok_step [OF _ k s(2)]) (use assms(8) in \<open>auto simp: unstarted_step_def\<close>)
  then have n: "saved (calls s' u) = None" for u using stop_okD(1) saved_in_start by blast
  then have "fault_consistent (impl s')" using restored_saved by (intro fault_settledD(1) [OF d(2)]) metis
  moreover have "transport_closed (impl s')" "shows_end (impl s')" using idle_okD(1,2) [OF d(1)] e(3) n by simp_all
  ultimately show ?thesis using e by (auto simp: transport_closed_def shows_end_def fault_consistent_def)
qed

lemma stop_leaves_no_worker_witness:
  "\<exists>s s'. (unstarted_step quiet_env)\<^sup>*\<^sup>* (set_call 3 StopEnter (Lifecycle_init (Impl_init Config_default))) s \<and>
     lifecycle_step quiet_env s (Return 3 (Inr ())) s' \<and> worker s' = None \<and> stopping (impl s') \<and>
     state (health (impl s')) = (if faulted (impl s') then Faulted else Stopped)"
proof -
  let ?i = "Impl_init Config_default" let ?s0 = "Lifecycle_init ?i"
  let ?s1 = "set_call 3 StopEnter ?s0"
  let ?s2 = "lock 3 (set_call 3 StopCommands (notify_all (on_impl stop_flag ?s1)))"
  have "lifecycle_step quiet_env ?s1 (Internal 3) ?s2"
    by (rule stop_enters) (simp_all add: Lifecycle_init_def)
  then have u: "(unstarted_step quiet_env)\<^sup>*\<^sup>* ?s1 ?s2" unfolding unstarted_step_def by blast
  obtain s' where "stop_decide quiet_env 3 ?s2 = (Some (Inr ()), s')"
    by (simp add: stop_decide_def Let_def called_from_worker_thread_def Lifecycle_init_def)
  then have l: "lifecycle_step quiet_env ?s2 (Return 3 (Inr ())) s'"
    using stop_decides [of ?s2 3 quiet_env "Some (Inr ())" s'] by (simp add: outcome_label_def)
  have c: "Impl_construct macos_arm64 (\<lambda>_. 0) Config_default = Inr ?i"
    by (simp add: Impl_construct_def Config_default_accepted)
  have f: "fresh_os quiet_env" by (simp add: fresh_os_def quiet_env_def fresh_sample_posix)
  have a: "\<forall>u. \<not> in_start (calls ?s0 u)" "phase ?s0 3 = Absent" "calls ?s0 3 = NoCall"
    by (simp_all add: Lifecycle_init_def)
  from stop_leaves_no_worker [OF c f reachable_init a u l] u l show ?thesis by blast
qed

end
