(* ===== verification/First_Sample.thy ===== *)
theory First_Sample
  imports Lifecycle_Start
begin

text \<open>
  Model of \<open>Client::Impl::wait_for_first_sample\<close> (\<open>src/src/detail/client_impl.cpp\<close>). The waiting
  thread holds the data mutex at certain moments only: at the beginning and whenever it
  wakes up. \<open>states n\<close> is the state of the client and \<open>now n\<close> the time at the \<open>n\<close>-th of them;
  between two of them other threads take any steps. The number of wake-ups is bounded by
  an argument.
\<close>

definition first_sample_condition :: "u64 \<Rightarrow> Impl \<Rightarrow> bool" where
  "first_sample_condition captured s \<longleftrightarrow>
     generation s \<noteq> captured \<or> delivered_generation s = captured \<or> stopping s \<or> faulted s"

text \<open>\<open>first_sample_cv_.wait_until\<close>: the moment the wait is over.\<close>

fun wait_until_first ::
    "nat \<Rightarrow> (nat \<Rightarrow> int) \<Rightarrow> (nat \<Rightarrow> Impl) \<Rightarrow> int \<Rightarrow> u64 \<Rightarrow> nat \<Rightarrow> nat option" where
  "wait_until_first 0 now states deadline captured n = None"
| "wait_until_first (Suc rounds) now states deadline captured n =
     (if first_sample_condition captured (states n) then Some n
      else if deadline \<le> now n then Some n
      else wait_until_first rounds now states deadline captured (Suc n))"

definition wait_for_first_sample ::
    "nat \<Rightarrow> platform \<Rightarrow> (nat \<Rightarrow> int) \<Rightarrow> (nat \<Rightarrow> Impl) \<Rightarrow> fp \<Rightarrow> (exn, bool) result option" where
  "wait_for_first_sample rounds p now states timeout =
     (case checked_deadline p (now 0) timeout of
        Inl e \<Rightarrow> Some (Inl e)
      | Inr deadline \<Rightarrow>
          let captured = generation (states 0)
          in if captured = 0 then Some (Inr False)
             else map_option (\<lambda>n. Inr (if generation (states n) \<noteq> captured then False
                                       else delivered_generation (states n) = captured))
                    (wait_until_first rounds now states deadline captured 0))"

lemma wait_until_first_over:
  "wait_until_first rounds now states deadline captured n = Some m \<Longrightarrow>
   first_sample_condition captured (states m) \<or> deadline \<le> now m"
  by (induction rounds arbitrary: n) (auto split: if_splits)

lemma wait_until_first_returns:
  "deadline \<le> now m \<Longrightarrow> n \<le> m \<Longrightarrow> m < n + rounds \<Longrightarrow>
   \<exists>k. wait_until_first rounds now states deadline captured n = Some k \<and> k \<le> m"
proof (induction rounds arbitrary: n)
  case 0
  then show ?case by simp
next
  case (Suc rounds)
  show ?case
  proof (cases "n = m")
    case False
    then have "Suc n \<le> m" "m < Suc n + rounds" using Suc.prems by auto
    from Suc.IH [OF Suc.prems(1) this] show ?thesis using Suc.prems(2) by auto
  qed (use Suc.prems in auto)
qed

text \<open>The steps between two moments of the waiting thread.\<close>

definition observed :: "Env \<Rightarrow> Impl \<Rightarrow> (nat \<Rightarrow> Lifecycle) \<Rightarrow> bool" where
  "observed env i s \<longleftrightarrow>
     reachable env i (s 0) \<and> (\<forall>n. lifecycle_steps env (s n) (s (Suc n)))"

lemma observed_reachable: "observed env i s \<Longrightarrow> reachable env i (s n)"
  by (induction n) (auto simp: observed_def intro: reachable_steps)

text \<open>
  C18. What \<open>wait_for_first_sample\<close> reports, whatever other threads do while it waits. With a
  timeout that converts it returns by the time the clock reaches the deadline. It is false
  for a client that was never started. It is true exactly when the run that was current at
  the call is still current at the end and has delivered a sample, and then there is a latest
  sample. It is false only when the run was replaced, or a stop or a fault came first, or the
  deadline has passed.
\<close>

theorem first_sample_result:
  assumes "observed env (Impl_init c) s" "checked_deadline p (now 0) timeout = Inr deadline"
    and "deadline \<le> now m" "m < rounds"
  shows "\<exists>b n. wait_for_first_sample rounds p now (\<lambda>n. impl (s n)) timeout = Some (Inr b) \<and> n \<le> m \<and>
    (b \<longleftrightarrow> generation (impl (s 0)) \<noteq> 0 \<and> generation (impl (s n)) = generation (impl (s 0)) \<and>
          delivered_generation (impl (s n)) = generation (impl (s n))) \<and>
    (b \<longrightarrow> latest_sample (impl (s n)) \<noteq> None) \<and>
    (b \<or> generation (impl (s 0)) = 0 \<or> generation (impl (s n)) \<noteq> generation (impl (s 0)) \<or>
     stopping (impl (s n)) \<or> faulted (impl (s n)) \<or> deadline \<le> now n)"
proof -
  let ?g = "generation (impl (s 0))" let ?i = "\<lambda>n. impl (s n)"
  obtain n where w: "wait_until_first rounds now ?i deadline ?g 0 = Some n" "n \<le> m"
    using wait_until_first_returns [where now = now and m = m and n = 0 and states = ?i] assms(3,4) by fastforce
  let ?b = "generation (?i n) = ?g \<and> delivered_generation (?i n) = ?g"
  have o: "first_sample_ok (?i n)"
    by (rule first_sample.on_reachable(1) [OF observed_reachable [OF assms(1)] TrueI Impl_init_ok(6)])
  show ?thesis
  proof (cases "?g = 0")
    case True
    then show ?thesis using assms(2) by (auto simp: wait_for_first_sample_def Let_def)
  next
    case False
    have "wait_for_first_sample rounds p now ?i timeout = Some (Inr ?b)"
      using False assms(2) w(1) by (simp add: wait_for_first_sample_def Let_def)
    moreover have "?b \<Longrightarrow> latest (?i n) \<noteq> None" using o False by (simp add: first_sample_ok_def)
    moreover have "first_sample_condition ?g (?i n) \<or> deadline \<le> now n" by (rule wait_until_first_over [OF w(1)])
    ultimately show ?thesis
      using False w(2) by (intro exI [of _ ?b] exI [of _ n]) (auto simp: first_sample_condition_def latest_sample_def)
  qed
qed

text \<open>A client that is never started, and a deadline one second away.\<close>

lemma first_sample_result_witness:
  "\<exists>b. wait_for_first_sample 2 macos_arm64 (\<lambda>n. if n = 0 then 0 else 2 ^ 62)
         (\<lambda>_. Impl_init Config_default) (Finite 1) = Some (Inr b)"
proof -
  let ?s = "\<lambda>_::nat. Lifecycle_init (Impl_init Config_default)"
  let ?now = "\<lambda>n::nat. if n = 0 then 0 else 2 ^ 62 :: int"
  have o: "observed quiet_env (Impl_init Config_default) ?s"
    by (simp add: observed_def reachable_init lifecycle_steps_refl)
  have "representable binary64 1"
    by (intro representable_def [THEN iffD2] exI [of _ 1] exI [of _ 0]) (simp add: binary64_def)
  then obtain n where n: "checked_duration macos_arm64 (Finite 1) = Inr n" "n \<le> 2 ^ 62"
    using checked_duration_accepts [OF platform_ok_supported(3), of 1] by (auto simp: macos_arm64_def linux_x86_64_def)
  then have d: "checked_deadline macos_arm64 (?now 0) (Finite 1) = Inr n"
    by (simp add: checked_deadline_def macos_arm64_def linux_x86_64_def)
  show ?thesis
    using first_sample_result [where env = quiet_env and c = Config_default and s = ?s and p = macos_arm64 and now = ?now
        and timeout = "Finite 1" and deadline = n and m = 1 and rounds = 2, OF o d] n(2)
    by (auto simp: Lifecycle_init_def)
qed

end
