(* ===== verification/Client.thy ===== *)
theory Client
  imports Lifecycle_Progress First_Sample
begin

text \<open>
  Model of the public client (\<open>src/include/netft/client.hpp\<close>, \<open>src/src/client.cpp\<close>): the object
  that owns an implementation, its forwarding functions, its destructor, and the thread
  that destroys implementations whose client was destroyed by its own callback. A pointer
  to an implementation is a number and the heap maps it to the state of its lifecycle.
  The clients that exist are named by the pointers they own. No thread makes a new call into
  a client after its destruction has begun; calls that are in progress then go on.
\<close>

section \<open>Deferred destruction\<close>

type_synonym ptr = nat

text \<open>
  \<open>DeferredDestroyer\<close>: the values that wait, the one its thread works on, whether that thread
  sleeps on \<open>condition_\<close>, and the threads that have pushed a value and have not yet notified.
  The values that were ever enqueued and the ones it has destroyed are kept as history.
\<close>

record DeferredDestroyer =
  pending :: "ptr list"
  current_value :: "ptr option"
  asleep :: bool
  notifiers :: "thread_id list"
  enqueued :: "ptr list"
  reclaimed :: "ptr list"

definition DeferredDestroyer_init :: DeferredDestroyer where
  "DeferredDestroyer_init =
     \<lparr>pending = [], current_value = None, asleep = False, notifiers = [], enqueued = [], reclaimed = []\<rparr>"

text \<open>
  \<open>enqueue\<close> on thread \<open>t\<close> is two steps: the push under the mutex, and \<open>condition_.notify_one()\<close>
  after its release. The only thread that waits is the one of the destroyer.
\<close>

definition enqueue :: "thread_id \<Rightarrow> ptr \<Rightarrow> DeferredDestroyer \<Rightarrow> DeferredDestroyer" where
  "enqueue t v d =
     d\<lparr>pending := pending d @ [v], notifiers := notifiers d @ [t], enqueued := enqueued d @ [v]\<rparr>"

definition notify_one :: "thread_id \<Rightarrow> DeferredDestroyer \<Rightarrow> DeferredDestroyer option" where
  "notify_one t d =
     (if t \<in> set (notifiers d) then Some (d\<lparr>notifiers := remove1 t (notifiers d), asleep := False\<rparr>) else None)"

text \<open>
  The section of \<open>run\<close> under the mutex. The predicate of the wait is evaluated with the mutex
  held, and \<open>pending_\<close> changes only under the mutex: that nothing is pending and that the
  thread goes to sleep is one step. Once awake it evaluates the predicate again, and takes
  the first value when there is one.
\<close>

definition wait_for_value :: "DeferredDestroyer \<Rightarrow> DeferredDestroyer option" where
  "wait_for_value d =
     (if \<not> asleep d \<and> current_value d = None \<and> pending d = [] then Some (d\<lparr>asleep := True\<rparr>) else None)"

definition take_value :: "DeferredDestroyer \<Rightarrow> (ptr \<times> DeferredDestroyer) option" where
  "take_value d =
     (case (asleep d, current_value d, pending d) of
        (False, None, v # vs) \<Rightarrow> Some (v, d\<lparr>current_value := Some v, pending := vs\<rparr>)
      | _ \<Rightarrow> None)"

text \<open>A spurious wake-up.\<close>

definition wake_spuriously :: "DeferredDestroyer \<Rightarrow> DeferredDestroyer option" where
  "wake_spuriously d = (if asleep d then Some (d\<lparr>asleep := False\<rparr>) else None)"

text \<open>The end of the scope of the value.\<close>

definition value_destroyed :: "ptr \<Rightarrow> DeferredDestroyer \<Rightarrow> DeferredDestroyer" where
  "value_destroyed v d =
     (if current_value d = Some v then d\<lparr>current_value := None, reclaimed := reclaimed d @ [v]\<rparr> else d)"

section \<open>Clients\<close>

text \<open>
  How far a destruction is: \<open>impl_->stop()\<close> on the thread of the worker, before the enqueue;
  the first \<open>stop\<close> of a destroying thread; the \<open>stop\<close> in \<open>~Impl\<close>.
\<close>

datatype Stage = SelfStop | FirstStop | ImplStop

record World =
  heap :: "ptr \<Rightarrow> Lifecycle option"
  clients :: "ptr set"
  jobs :: "ptr \<Rightarrow> (thread_id \<times> Stage) option"
  destroyer :: DeferredDestroyer

definition World_init :: World where
  "World_init = \<lparr>heap = (\<lambda>_. None), clients = {}, jobs = (\<lambda>_. None), destroyer = DeferredDestroyer_init\<rparr>"

text \<open>The thread of the deferred destroyer.\<close>

definition destroyer_thread :: thread_id where
  "destroyer_thread = 0"

definition set_cell :: "ptr \<Rightarrow> Lifecycle \<Rightarrow> World \<Rightarrow> World" where
  "set_cell p s W = W\<lparr>heap := (heap W)(p \<mapsto> s)\<rparr>"

definition set_job :: "ptr \<Rightarrow> (thread_id \<times> Stage) option \<Rightarrow> World \<Rightarrow> World" where
  "set_job p j W = W\<lparr>jobs := (jobs W)(p := j)\<rparr>"

definition on_destroyer :: "(DeferredDestroyer \<Rightarrow> DeferredDestroyer) \<Rightarrow> World \<Rightarrow> World" where
  "on_destroyer f W = W\<lparr>destroyer := f (destroyer W)\<rparr>"

text \<open>The constructor of \<open>Client\<close>, and the storage going away.\<close>

definition Client_construct ::
    "platform \<Rightarrow> (nat \<Rightarrow> int) \<Rightarrow> Config \<Rightarrow> ptr \<Rightarrow> World \<Rightarrow> (exn, World) result" where
  "Client_construct plat now c p W =
     bind_result (Impl_construct plat now c) (\<lambda>i.
       Inr ((set_cell p (Lifecycle_init i) W)\<lparr>clients := insert p (clients W)\<rparr>))"

definition release :: "ptr \<Rightarrow> World \<Rightarrow> World" where
  "release p W = W\<lparr>heap := (heap W)(p := None)\<rparr>"

text \<open>The destructor of \<open>Client\<close> on thread \<open>t\<close>, up to the first wait in \<open>stop\<close>.\<close>

definition Client_destroy :: "thread_id \<Rightarrow> ptr \<Rightarrow> Lifecycle \<Rightarrow> World \<Rightarrow> World" where
  "Client_destroy t p s W =
     (let stage = (if called_from_worker_thread t s then SelfStop else FirstStop)
      in set_job p (Some (t, stage)) ((set_cell p (set_call t StopEnter s) W)\<lparr>clients := clients W - {p}\<rparr>))"

text \<open>The functions that only read, or act on, the implementation. \<open>None\<close>: there is no client.\<close>

definition client_impl :: "ptr \<Rightarrow> World \<Rightarrow> Impl option" where
  "client_impl p W = (if p \<in> clients W then map_option impl (heap W p) else None)"

definition Client_faulted :: "ptr \<Rightarrow> World \<Rightarrow> bool option" where
  "Client_faulted p W = map_option faulted (client_impl p W)"

definition Client_fault_code :: "ptr \<Rightarrow> World \<Rightarrow> FaultCode option" where
  "Client_fault_code p W = map_option client_fault_code (client_impl p W)"

definition Client_health :: "platform \<Rightarrow> int \<Rightarrow> ptr \<Rightarrow> World \<Rightarrow> HealthSnapshot option" where
  "Client_health plat now p W = map_option (\<lambda>i. fst (client_health plat now i)) (client_impl p W)"

definition Client_latest_sample :: "ptr \<Rightarrow> World \<Rightarrow> Sample option option" where
  "Client_latest_sample p W = map_option latest_sample (client_impl p W)"

section \<open>Steps\<close>

text \<open>
  Who makes a step: a thread that uses a client, a thread \<open>t\<close> that begins to destroy the client
  at \<open>p\<close>, the threads inside a client that is being destroyed, the deferred destroyer and the
  notifications it waits for, or a spurious wake-up.
\<close>

datatype Actor = User | Destroys thread_id ptr | System | Deferred | SpuriousWake

definition is_call :: "Label \<Rightarrow> bool" where
  "is_call l \<longleftrightarrow> (\<exists>t. l = CallStop t \<or> (\<exists>callback. l = CallStart t callback))"

text \<open>
  A thread uses a client: \<open>start\<close>, \<open>stop\<close>, \<open>bias\<close>, the readers, and everything they set off. The
  thread of the deferred destroyer does not, and its id is not given to another thread.
\<close>

definition use_ok :: "Label \<Rightarrow> Lifecycle \<Rightarrow> bool" where
  "use_ok l s' \<longleftrightarrow> l \<noteq> CallStop destroyer_thread \<and> (\<forall>b. l \<noteq> CallStart destroyer_thread b) \<and>
     phase s' destroyer_thread = Absent"

text \<open>
  What goes on inside a client that is being destroyed: no new call is made, the call the
  destruction waits for returns by a rule of its own, and a worker whose callback is in
  \<open>enqueue\<close> does not leave the callback.
\<close>

definition background_ok :: "World \<Rightarrow> ptr \<Rightarrow> Label \<Rightarrow> Lifecycle \<Rightarrow> bool" where
  "background_ok W p l s' \<longleftrightarrow> \<not> is_call l \<and> l \<noteq> Reader \<and>
     (\<forall>t stage r. jobs W p = Some (t, stage) \<longrightarrow> l \<noteq> Return t r) \<and>
     (\<forall>w\<in>set (notifiers (destroyer W)). l \<noteq> Worker w) \<and> phase s' destroyer_thread = Absent"

text \<open>
  The steps. \<open>called_from_worker_thread\<close> takes the lifecycle mutex, so the destructor decides
  while no call holds it; other threads may be in calls on the client at that moment.
\<close>

inductive world_step :: "Env \<Rightarrow> World \<Rightarrow> Actor \<Rightarrow> World \<Rightarrow> bool" for env where
  construct: "heap W p = None \<Longrightarrow> Client_construct plat now c p W = Inr W' \<Longrightarrow> world_step env W User W'"
| use: "p \<in> clients W \<Longrightarrow> heap W p = Some s \<Longrightarrow> lifecycle_step env s l s' \<Longrightarrow> use_ok l s' \<Longrightarrow>
    world_step env W User (set_cell p s' W)"
| destroy: "p \<in> clients W \<Longrightarrow> heap W p = Some s \<Longrightarrow> may_call t s \<Longrightarrow> lifecycle_mutex s = None \<Longrightarrow>
    t \<noteq> destroyer_thread \<Longrightarrow> world_step env W (Destroys t p) (Client_destroy t p s W)"
| background: "p \<notin> clients W \<Longrightarrow> heap W p = Some s \<Longrightarrow> lifecycle_step env s l s' \<Longrightarrow>
    background_ok W p l s' \<Longrightarrow> world_step env W System (set_cell p s' W)"
| self_stopped: "heap W p = Some s \<Longrightarrow> jobs W p = Some (t, SelfStop) \<Longrightarrow>
    lifecycle_step env s (Return t r) s' \<Longrightarrow>
    world_step env W System (on_destroyer (enqueue t p) (set_job p None (set_cell p s' W)))"
| notified: "notify_one t (destroyer W) = Some d \<Longrightarrow> world_step env W Deferred (on_destroyer (\<lambda>_. d) W)"
| waits: "wait_for_value (destroyer W) = Some d \<Longrightarrow> world_step env W Deferred (on_destroyer (\<lambda>_. d) W)"
| woken: "wake_spuriously (destroyer W) = Some d \<Longrightarrow> world_step env W SpuriousWake (on_destroyer (\<lambda>_. d) W)"
| taken: "take_value (destroyer W) = Some (p, d) \<Longrightarrow> heap W p = Some s \<Longrightarrow>
    world_step env W Deferred (set_job p (Some (destroyer_thread, FirstStop))
      (set_cell p (set_call destroyer_thread StopEnter s) (on_destroyer (\<lambda>_. d) W)))"
| first_stopped: "heap W p = Some s \<Longrightarrow> jobs W p = Some (t, FirstStop) \<Longrightarrow>
    lifecycle_step env s (Return t r) s' \<Longrightarrow>
    world_step env W System (set_job p (Some (t, ImplStop)) (set_cell p (set_call t StopEnter s') W))"
| impl_stopped: "heap W p = Some s \<Longrightarrow> jobs W p = Some (t, ImplStop) \<Longrightarrow>
    lifecycle_step env s (Return t r) s' \<Longrightarrow>
    world_step env W System (on_destroyer (value_destroyed p) (set_job p None (release p W)))"

inductive world_reachable :: "Env \<Rightarrow> World \<Rightarrow> bool" for env where
  world_init: "world_reachable env World_init"
| world_step: "world_reachable env W \<Longrightarrow> world_step env W a W' \<Longrightarrow> world_reachable env W'"

text \<open>
  What other threads may be doing in a client when its destruction begins: nothing, joining
  its worker in \<open>stop\<close>, or anything in \<open>stop\<close>. A world is orderly when every destruction so far
  began like this.
\<close>

datatype Others = Nothing | Joining | Stopping

fun allowed :: "Others \<Rightarrow> Call \<Rightarrow> bool" where
  "allowed _ NoCall = True"
| "allowed Nothing _ = False"
| "allowed Joining (StopJoins w) = True"
| "allowed Joining StopJoined = True"
| "allowed Joining StopNotifies = True"
| "allowed Joining _ = False"
| "allowed Stopping c = (\<not> in_start c)"

definition begins_orderly :: "Others \<Rightarrow> World \<Rightarrow> Actor \<Rightarrow> bool" where
  "begins_orderly others W a \<longleftrightarrow>
     (\<forall>t p s u. a = Destroys t p \<longrightarrow> heap W p = Some s \<longrightarrow> u \<noteq> t \<longrightarrow> allowed others (calls s u))"

inductive orderly :: "Env \<Rightarrow> Others \<Rightarrow> World \<Rightarrow> bool" for env others where
  orderly_init: "orderly env others World_init"
| orderly_step: "orderly env others W \<Longrightarrow> world_step env W a W' \<Longrightarrow> begins_orderly others W a \<Longrightarrow>
    orderly env others W'"

lemma orderly_reachable: "orderly env others W \<Longrightarrow> world_reachable env W"
  by (induction rule: orderly.induct) (auto intro: world_reachable.intros)

lemma orderly_go:
  "world_step env W a W' \<Longrightarrow> orderly env others W \<Longrightarrow> (\<forall>t p. a \<noteq> Destroys t p) \<Longrightarrow> orderly env others W'"
  by (rule orderly_step) (auto simp: begins_orderly_def)

section \<open>Calls and phases over a step\<close>

lemma call_stays_idle:
  assumes "lifecycle_step env s l s'" "calls s u = NoCall" "l \<noteq> CallStop u" "\<forall>b. l \<noteq> CallStart u b"
  shows "calls s' u = NoCall"
  using assms by (cases rule: lifecycle_step.cases)
    (auto simp: start_created_def start_failed_def elim!: start_decide_cases stop_decide_cases)

lemma call_stays_busy:
  assumes "lifecycle_step env s l s'" "calls s u \<noteq> NoCall" "\<forall>r. l \<noteq> Return u r"
  shows "calls s' u \<noteq> NoCall"
  using assms by (cases rule: lifecycle_step.cases)
    (auto simp: may_call_def outcome_label_def start_created_def start_failed_def elim!: start_decide_cases stop_decide_cases split: option.splits if_splits)

lemma return_ends_call:
  assumes "lifecycle_step env s (Return u r) s'"
  shows "calls s' u = NoCall" "calls s u \<noteq> NoCall"
  using assms by (cases rule: lifecycle_step.cases;
      auto simp: outcome_label_def start_created_def start_failed_def elim!: start_decide_cases stop_decide_cases
        split: option.splits)+

lemma no_start_stays:
  assumes "lifecycle_step env s l s'" "\<forall>u. \<not> in_start (calls s u)" "\<not> is_call l"
  shows "\<not> in_start (calls s' u)"
proof -
  have n: "calls s u \<noteq> StartEnter b" "calls s u \<noteq> StartTests b w" "calls s u \<noteq> StartCommits b w"
    "calls s u \<noteq> StartSleeps b w" "calls s u \<noteq> StartWoken b w" "calls s u \<noteq> StartJoins b v"
    "calls s u \<noteq> StartReaped b" "calls s u \<noteq> StartNotifies b" "calls s u \<noteq> StartCreates b q c" for u b w v q c
    using assms(2) [rule_format, of u] by auto
  from assms(1) show ?thesis
    by (cases rule: lifecycle_step.cases)
      (use assms(2,3) in \<open>auto simp: n is_call_def elim!: stop_decide_cases split: if_splits\<close>)
qed

lemma callback_phase_stays:
  assumes "lifecycle_step env s l s'" "phase s t = Runs" "calls s t \<noteq> NoCall" "\<forall>u. \<not> in_start (calls s u)"
  shows "phase s' t = Runs"
proof -
  have n: "calls s u \<noteq> StartTests b w" "calls s u \<noteq> StartCreates b q c" for u b w q c
    using assms(4) [rule_format, of u] by auto
  from assms(1) show ?thesis
    by (cases rule: lifecycle_step.cases)
      (use assms(2,3) in \<open>auto simp: n elim!: stop_decide_cases\<close>)
qed

section \<open>Ownership\<close>

text \<open>Who is responsible for an implementation: its client, a destruction, or the queue.\<close>

definition owner_ok :: "World \<Rightarrow> ptr \<Rightarrow> bool" where
  "owner_ok W p \<longleftrightarrow>
     (if p \<in> clients W then
        jobs W p = None \<and> p \<notin> set (pending (destroyer W)) \<and> current_value (destroyer W) \<noteq> Some p
      else case jobs W p of
        Some (t, stage) \<Rightarrow>
          p \<notin> set (pending (destroyer W)) \<and> (stage = SelfStop \<longrightarrow> t \<noteq> destroyer_thread) \<and>
          (current_value (destroyer W) = Some p \<longleftrightarrow> t = destroyer_thread)
      | None \<Rightarrow> p \<in> set (pending (destroyer W)) \<and> current_value (destroyer W) \<noteq> Some p)"

definition empty_ok :: "World \<Rightarrow> ptr \<Rightarrow> bool" where
  "empty_ok W p \<longleftrightarrow> p \<notin> clients W \<and> jobs W p = None \<and> p \<notin> set (pending (destroyer W)) \<and>
     current_value (destroyer W) \<noteq> Some p"

text \<open>
  The queue keeps its order, and the destroyer does not sleep through a value: while it sleeps
  and a value is pending, the notification for it is still to come.
\<close>

definition queue_ok :: "DeferredDestroyer \<Rightarrow> bool" where
  "queue_ok d \<longleftrightarrow> distinct (pending d) \<and>
     enqueued d = reclaimed d @ (case current_value d of None \<Rightarrow> [] | Some v \<Rightarrow> [v]) @ pending d \<and>
     (asleep d \<longrightarrow> current_value d = None) \<and> (asleep d \<longrightarrow> pending d \<noteq> [] \<longrightarrow> notifiers d \<noteq> [])"

definition owned_ok :: "World \<Rightarrow> bool" where
  "owned_ok W \<longleftrightarrow> (\<forall>p. if heap W p = None then empty_ok W p else owner_ok W p) \<and> queue_ok (destroyer W)"

lemma owned_okD:
  assumes "owned_ok W"
  shows "heap W p = None \<Longrightarrow> empty_ok W p" "heap W p = Some s \<Longrightarrow> owner_ok W p" "queue_ok (destroyer W)"
  using assms unfolding owned_ok_def by (auto dest: spec [of _ p])

lemma world_fields [simp]:
  "heap (set_cell p s W) = (heap W)(p \<mapsto> s)" "clients (set_cell p s W) = clients W"
  "jobs (set_cell p s W) = jobs W" "destroyer (set_cell p s W) = destroyer W"
  "heap (set_job p j W) = heap W" "clients (set_job p j W) = clients W"
  "jobs (set_job p j W) = (jobs W)(p := j)" "destroyer (set_job p j W) = destroyer W"
  "heap (on_destroyer f W) = heap W" "clients (on_destroyer f W) = clients W"
  "jobs (on_destroyer f W) = jobs W" "destroyer (on_destroyer f W) = f (destroyer W)"
  "heap (release p W) = (heap W)(p := None)" "clients (release p W) = clients W"
  "jobs (release p W) = jobs W" "destroyer (release p W) = destroyer W"
  by (simp_all add: set_cell_def set_job_def on_destroyer_def release_def)

lemma Client_destroy_fields [simp]:
  "heap (Client_destroy t p s W) = (heap W)(p \<mapsto> set_call t StopEnter s)"
  "clients (Client_destroy t p s W) = clients W - {p}"
  "jobs (Client_destroy t p s W) =
     (jobs W)(p \<mapsto> (t, if called_from_worker_thread t s then SelfStop else FirstStop))"
  "destroyer (Client_destroy t p s W) = destroyer W"
  by (simp_all add: Client_destroy_def Let_def)

lemma enqueue_fields [simp]:
  "pending (enqueue t v d) = pending d @ [v]" "current_value (enqueue t v d) = current_value d"
  "enqueued (enqueue t v d) = enqueued d @ [v]" "reclaimed (enqueue t v d) = reclaimed d"
  "asleep (enqueue t v d) = asleep d" "notifiers (enqueue t v d) = notifiers d @ [t]"
  by (simp_all add: enqueue_def)

lemma take_value_iff:
  "take_value d = Some (v, d') \<longleftrightarrow> \<not> asleep d \<and> current_value d = None \<and>
     (\<exists>vs. pending d = v # vs \<and> d' = d\<lparr>current_value := Some v, pending := vs\<rparr>)"
  by (auto simp: take_value_def split: option.splits list.splits bool.splits)

lemma destroyer_steps_iff:
  "notify_one t d = Some d' \<longleftrightarrow>
     t \<in> set (notifiers d) \<and> d' = d\<lparr>notifiers := remove1 t (notifiers d), asleep := False\<rparr>"
  "wait_for_value d = Some d' \<longleftrightarrow> \<not> asleep d \<and> current_value d = None \<and> pending d = [] \<and> d' = d\<lparr>asleep := True\<rparr>"
  "wake_spuriously d = Some d' \<longleftrightarrow> asleep d \<and> d' = d\<lparr>asleep := False\<rparr>"
  by (auto simp: notify_one_def wait_for_value_def wake_spuriously_def)

lemma owner_cong:
  assumes "jobs W' q = jobs W q" "q \<in> clients W' \<longleftrightarrow> q \<in> clients W"
    and "q \<in> set (pending (destroyer W')) \<longleftrightarrow> q \<in> set (pending (destroyer W))"
    and "current_value (destroyer W') = Some q \<longleftrightarrow> current_value (destroyer W) = Some q"
  shows "owner_ok W' q = owner_ok W q" "empty_ok W' q = empty_ok W q"
  using assms by (cases "jobs W q"; simp add: owner_ok_def empty_ok_def split_beta)+

text \<open>A step that concerns the implementation at \<open>p\<close> only.\<close>

lemma owned_ok_local:
  assumes "owned_ok W"
    and "\<And>q. q \<noteq> p \<Longrightarrow> heap W' q = heap W q \<and> jobs W' q = jobs W q \<and> (q \<in> clients W' \<longleftrightarrow> q \<in> clients W) \<and>
        (q \<in> set (pending (destroyer W')) \<longleftrightarrow> q \<in> set (pending (destroyer W))) \<and>
        (current_value (destroyer W') = Some q \<longleftrightarrow> current_value (destroyer W) = Some q)"
    and "if heap W' p = None then empty_ok W' p else owner_ok W' p" "queue_ok (destroyer W')"
  shows "owned_ok W'"
proof -
  have "if heap W' q = None then empty_ok W' q else owner_ok W' q" for q
  proof (cases "q = p")
    case False
    have "if heap W q = None then empty_ok W q else owner_ok W q" using assms(1) by (simp add: owned_ok_def)
    then show ?thesis using assms(2) [OF False] owner_cong [of W' q W] by simp
  qed (use assms(3) in simp)
  with assms(4) show ?thesis by (simp add: owned_ok_def)
qed

lemma owned_ok_destroyer:
  assumes "owned_ok W" "pending d = pending (destroyer W)" "current_value d = current_value (destroyer W)" "queue_ok d"
  shows "owned_ok (on_destroyer (\<lambda>_. d) W)"
  using assms owner_cong [of "on_destroyer (\<lambda>_. d) W" _ W] by (simp add: owned_ok_def)

lemma owned_ok_step:
  assumes "world_step env W a W'" "owned_ok W"
  shows "owned_ok W'"
  using assms(1)
proof (cases rule: world_step.cases)
  case (construct p plat now c)
  then obtain i where "W' = (set_cell p (Lifecycle_init i) W)\<lparr>clients := insert p (clients W)\<rparr>"
    by (auto simp: Client_construct_def bind_result_eq_Inr_iff)
  then show ?thesis using owned_okD(1,3) [OF assms(2)] construct(2)
    by (intro owned_ok_local [OF assms(2), of p]) (auto simp: owner_ok_def empty_ok_def)
next
  case (use p s l s')
  then show ?thesis using owned_okD(2,3) [OF assms(2)]
    by (intro owned_ok_local [OF assms(2), of p]) (auto simp: owner_ok_def)
next
  case (destroy p s t)
  then show ?thesis using owned_okD(2) [OF assms(2) destroy(4)] owned_okD(3) [OF assms(2)]
    by (intro owned_ok_local [OF assms(2), of p]) (auto simp: owner_ok_def)
next
  case (background p s l s')
  then show ?thesis using owned_okD(2) [OF assms(2) background(4)] owned_okD(3) [OF assms(2)]
    by (intro owned_ok_local [OF assms(2), of p]) (auto simp: owner_ok_def split: option.splits)
next
  case (self_stopped p s t r s')
  then show ?thesis using owned_okD(2) [OF assms(2) self_stopped(3)] owned_okD(3) [OF assms(2)]
    by (intro owned_ok_local [OF assms(2), of p]) (auto simp: owner_ok_def queue_ok_def split: if_splits)
next
  case (taken p d s)
  then show ?thesis using owned_okD(2) [OF assms(2) taken(4)] owned_okD(3) [OF assms(2)]
    by (intro owned_ok_local [OF assms(2), of p])
      (auto simp: owner_ok_def queue_ok_def take_value_iff split: if_splits option.splits)
next
  case (first_stopped p s t r s')
  then show ?thesis using owned_okD(2) [OF assms(2) first_stopped(3)] owned_okD(3) [OF assms(2)]
    by (intro owned_ok_local [OF assms(2), of p]) (auto simp: owner_ok_def split: if_splits)
next
  case (impl_stopped p s t r s')
  then show ?thesis using owned_okD(2) [OF assms(2) impl_stopped(3)] owned_okD(3) [OF assms(2)]
    by (intro owned_ok_local [OF assms(2), of p])
      (auto simp: owner_ok_def empty_ok_def queue_ok_def value_destroyed_def split: if_splits)
qed (use owned_okD(3) [OF assms(2)] owned_ok_destroyer [OF assms(2)] in
    \<open>auto simp: queue_ok_def destroyer_steps_iff\<close>)

lemma world_reachable_owned: "world_reachable env W \<Longrightarrow> owned_ok W"
proof (induction rule: world_reachable.induct)
  case world_init
  then show ?case by (simp add: owned_ok_def World_init_def empty_ok_def queue_ok_def DeferredDestroyer_init_def)
qed (rule owned_ok_step)

section \<open>Calls in a client that is being destroyed\<close>

lemma allowed_iff:
  "allowed Nothing c \<longleftrightarrow> c = NoCall" "allowed Stopping c \<longleftrightarrow> \<not> in_start c"
  "allowed Joining c \<longleftrightarrow> c = NoCall \<or> (\<exists>w. c = StopJoins w) \<or> c = StopJoined \<or> c = StopNotifies"
  by (cases c; simp)+

lemma allowed_not_start: "allowed others c \<Longrightarrow> \<not> in_start c"
  by (cases others) (auto simp: allowed_iff)

lemma wake_allowed [simp]: "allowed others (wake c) = allowed others c"
  by (cases others; cases c) simp_all

lemma joining_stays:
  assumes "lifecycle_step env s l s'" "allowed Joining (calls s u)" "\<not> is_call l"
  shows "allowed Joining (calls s' u)"
  using assms(1)
  by (cases rule: lifecycle_step.cases)
    (use assms(2,3) in \<open>auto simp: is_call_def start_created_def start_failed_def
      elim!: start_decide_cases stop_decide_cases split: if_splits\<close>)

lemma allowed_stays:
  assumes "lifecycle_step env s l s'" "allowed others (calls s u)" "\<not> is_call l" "\<forall>v. \<not> in_start (calls s v)"
  shows "allowed others (calls s' u)"
proof (cases others)
  case Nothing
  then show ?thesis using call_stays_idle [OF assms(1), of u] assms(2,3) by (auto simp: allowed_iff is_call_def)
next
  case Joining
  then show ?thesis using joining_stays [OF assms(1)] assms(2,3) by simp
next
  case Stopping
  then show ?thesis using no_start_stays [OF assms(1,4,3)] by (simp add: allowed_iff)
qed

text \<open>A destruction that waits for a call of \<open>stop\<close> on thread \<open>t\<close>.\<close>

definition job_ok :: "Others \<Rightarrow> thread_id \<Rightarrow> Stage \<Rightarrow> Lifecycle \<Rightarrow> bool" where
  "job_ok others t stage s \<longleftrightarrow>
     (\<forall>u. u \<noteq> t \<longrightarrow> allowed others (calls s u)) \<and> calls s t \<noteq> NoCall \<and> \<not> in_start (calls s t) \<and>
     (if stage = SelfStop then calls s destroyer_thread = NoCall \<and> phase s t = Runs else stop_ok t s)"

definition cell_ok :: "Others \<Rightarrow> World \<Rightarrow> ptr \<Rightarrow> Lifecycle \<Rightarrow> bool" where
  "cell_ok others W p s \<longleftrightarrow>
     (if p \<in> clients W then calls s destroyer_thread = NoCall
      else case jobs W p of
        Some (t, stage) \<Rightarrow> job_ok others t stage s
      | None \<Rightarrow> calls s destroyer_thread = NoCall \<and> (\<forall>u. allowed others (calls s u)))"

definition lived :: "Env \<Rightarrow> Lifecycle \<Rightarrow> bool" where
  "lived env s \<longleftrightarrow> (\<exists>plat now c i. Impl_construct plat now c = Inr i \<and> reachable env i s) \<and>
     phase s destroyer_thread = Absent"

definition cells_ok :: "Env \<Rightarrow> Others \<Rightarrow> World \<Rightarrow> bool" where
  "cells_ok env others W \<longleftrightarrow> (\<forall>p s. heap W p = Some s \<longrightarrow> lived env s \<and> cell_ok others W p s)"

lemma cells_okD:
  assumes "cells_ok env others W" "heap W p = Some s"
  shows "lived env s" "cell_ok others W p s"
  using assms by (simp_all add: cells_ok_def)

lemma lived_control: "lived env s \<Longrightarrow> control_ok s"
  using reachable_control_ok Impl_construct_ok(1) Impl_init_ok(1) unfolding lived_def by blast

lemma lived_step: "lived env s \<Longrightarrow> lifecycle_step env s l s' \<Longrightarrow> phase s' destroyer_thread = Absent \<Longrightarrow> lived env s'"
  unfolding lived_def by (blast intro: reachable_step)

lemma lived_call: "lived env s \<Longrightarrow> may_call t s \<Longrightarrow> lived env (set_call t StopEnter s)"
  using lived_step [OF _ call_stop, of env s t] by (simp add: lived_def)

text \<open>Without calls of \<open>start\<close> no new thread appears.\<close>

lemma absent_stays:
  assumes "lifecycle_step env s l s'" "phase s t = Absent" "\<forall>u. \<not> in_start (calls s u)"
  shows "phase s' t = Absent"
proof -
  have n: "calls s u \<noteq> StartTests b w" "calls s u \<noteq> StartCreates b q c" for u b w q c
    using assms(3) [rule_format, of u] by auto
  from assms(1) show ?thesis
    by (cases rule: lifecycle_step.cases)
      (use assms(2) in \<open>auto simp: n elim!: stop_decide_cases split: if_splits\<close>)
qed

lemma job_no_start: "job_ok others t stage s \<Longrightarrow> \<not> in_start (calls s u)"
  by (cases "u = t") (auto simp: job_ok_def dest: allowed_not_start)

lemma job_ok_step:
  assumes "job_ok others t stage s" "lifecycle_step env s l s'" "\<not> is_call l" "\<forall>r. l \<noteq> Return t r" "control_ok s"
  shows "job_ok others t stage s'"
proof -
  have n: "\<forall>u. \<not> in_start (calls s u)" using job_no_start [OF assms(1)] by blast
  have "\<forall>u. u \<noteq> t \<longrightarrow> allowed others (calls s' u)"
    using assms(1) allowed_stays [OF assms(2) _ assms(3) n] by (auto simp: job_ok_def)
  moreover have "calls s' t \<noteq> NoCall" using assms call_stays_busy [OF assms(2), of t] by (simp add: job_ok_def)
  moreover have "\<not> in_start (calls s' t)" using no_start_stays [OF assms(2) n assms(3)] by blast
  moreover have "stop_ok t s \<Longrightarrow> stop_ok t s'"
    using stop_ok_step [OF _ assms(5)] assms(2,3) unfolding unstarted_step_def is_call_def by blast
  moreover have "phase s t = Runs \<Longrightarrow> phase s' t = Runs"
    using callback_phase_stays [OF assms(2) _ _ n] assms(1) by (simp add: job_ok_def)
  moreover have "calls s destroyer_thread = NoCall \<Longrightarrow> calls s' destroyer_thread = NoCall"
    using call_stays_idle [OF assms(2)] assms(3) by (auto simp: is_call_def)
  ultimately show ?thesis using assms(1) by (auto simp: job_ok_def split: if_splits)
qed

text \<open>The call the destruction waits for returns.\<close>

lemma job_return:
  assumes "job_ok others t stage s" "lifecycle_step env s (Return t r) s'"
  shows "allowed others (calls s' u)" "calls s' t = NoCall"
proof -
  have n: "\<forall>u. \<not> in_start (calls s u)" using job_no_start [OF assms(1)] by blast
  show t: "calls s' t = NoCall" by (rule return_ends_call(1) [OF assms(2)])
  then show "allowed others (calls s' u)"
    using allowed_stays [OF assms(2) _ _ n, of others u] assms(1)
    by (cases "u = t") (simp_all add: job_ok_def is_call_def)
qed

lemma fresh_job:
  assumes "\<forall>u. u \<noteq> t \<longrightarrow> allowed others (calls s u)" "phase s t = Absent" "stage \<noteq> SelfStop"
  shows "job_ok others t stage (set_call t StopEnter s)"
proof -
  have "\<not> in_start (calls (set_call t StopEnter s) u)" for u
    using assms(1) allowed_not_start [of others "calls s u"] by simp
  then show ?thesis using assms by (auto simp: job_ok_def intro: stop_okI)
qed

lemma job_lives:
  assumes "lived env s" "job_ok others t stage s" "lifecycle_step env s l s'"
  shows "lived env s'"
  using lived_step [OF assms(1,3)] absent_stays [OF assms(3)] job_no_start [OF assms(2)] assms(1)
  by (simp add: lived_def)

text \<open>While nobody holds the mutex, the test of the destructor finds the thread of the callback.\<close>

lemma called_from_worker_phase:
  assumes "control_ok s" "called_from_worker_thread t s" "lifecycle_mutex s = None"
  shows "phase s t \<in> {Runs, Closed}"
proof -
  have k: "worker_ok s" "exited_ok s" "mutex_ok s" using assms(1) by (simp_all add: control_ok_def)
  have "\<not> launching (calls s u)" for u using holder_launches [OF k(3), of u] assms(3) by auto
  then obtain w where "phase s w \<in> {Runs, Closed}"
    using assms(2) k(2) by (auto simp: called_from_worker_thread_def exited_ok_def)
  moreover from this have "w = t"
    using worker_okD(4) [OF k(1), of w] assms(2) by (auto simp: called_from_worker_thread_def)
  ultimately show ?thesis by simp
qed

lemma destroyed_job:
  assumes "lived env s" "may_call t s" "lifecycle_mutex s = None" "t \<noteq> destroyer_thread"
    and "calls s destroyer_thread = NoCall" "\<forall>u. u \<noteq> t \<longrightarrow> allowed others (calls s u)"
  shows "job_ok others t (if called_from_worker_thread t s then SelfStop else FirstStop) (set_call t StopEnter s)"
proof -
  have k: "control_ok s" by (rule lived_control [OF assms(1)])
  then have k': "worker_ok s" "exited_ok s" by (simp_all add: control_ok_def)
  show ?thesis
  proof (cases "called_from_worker_thread t s")
    case True
    then have "phase s t = Runs" using called_from_worker_phase [OF k True assms(3)] assms(2) by (auto simp: may_call_def)
    then show ?thesis using True assms(4-6) by (simp add: job_ok_def)
  next
    case False
    then have "phase s t = Absent"
      using assms(2) k'(2) worker_okD(4) [OF k'(1), of t]
      by (auto simp: called_from_worker_thread_def may_call_def exited_ok_def)
    then show ?thesis using False fresh_job assms(6) by simp
  qed
qed

lemma cells_ok_local:
  assumes "cells_ok env others W"
    and "\<And>q. q \<noteq> p \<Longrightarrow> heap W' q = heap W q \<and> jobs W' q = jobs W q \<and> (q \<in> clients W' \<longleftrightarrow> q \<in> clients W)"
    and "\<And>s. heap W' p = Some s \<Longrightarrow> lived env s \<and> cell_ok others W' p s"
  shows "cells_ok env others W'"
  unfolding cells_ok_def
proof (intro allI impI)
  fix q s assume "heap W' q = Some s"
  then show "lived env s \<and> cell_ok others W' q s"
    using assms(2) [of q] assms(3) cells_okD [OF assms(1), of q s] by (cases "q = p") (auto simp: cell_ok_def)
qed

lemma cells_ok_step:
  assumes "world_step env W a W'" "begins_orderly others W a" "cells_ok env others W" "owned_ok W"
  shows "cells_ok env others W'"
  using assms(1)
proof (cases rule: world_step.cases)
  case (construct p plat now c)
  then obtain i where i: "Impl_construct plat now c = Inr i"
    and W': "W' = (set_cell p (Lifecycle_init i) W)\<lparr>clients := insert p (clients W)\<rparr>"
    by (auto simp: Client_construct_def bind_result_eq_Inr_iff)
  have "lived env (Lifecycle_init i)"
    using i reachable_init unfolding lived_def by (force simp: Lifecycle_init_def)
  then show ?thesis
    unfolding W' by (intro cells_ok_local [OF assms(3), of p]) (auto simp: cell_ok_def Lifecycle_init_def)
next
  case (use p s l s')
  note c = cells_okD [OF assms(3) use(4)]
  have "calls s' destroyer_thread = NoCall"
    using call_stays_idle [OF use(5)] use(3,6) c(2) by (auto simp: cell_ok_def use_ok_def)
  moreover have "lived env s'" using lived_step [OF c(1) use(5)] use(6) by (simp add: use_ok_def)
  ultimately show ?thesis
    unfolding use(2) by (intro cells_ok_local [OF assms(3), of p]) (use use(3) in \<open>auto simp: cell_ok_def\<close>)
next
  case (destroy p s t)
  note c = cells_okD [OF assms(3) destroy(4)]
  have "\<forall>u. u \<noteq> t \<longrightarrow> allowed others (calls s u)"
    using assms(2) destroy(1,4) by (simp add: begins_orderly_def)
  with destroyed_job [OF c(1) destroy(5-7)] c(2) destroy(3) lived_call [OF c(1) destroy(5)] show ?thesis
    unfolding destroy(2) by (intro cells_ok_local [OF assms(3), of p]) (auto simp: cell_ok_def)
next
  case (background p s l s')
  note c = cells_okD [OF assms(3) background(4)]
  have b: "\<not> is_call l" "phase s' destroyer_thread = Absent" using background(6) by (simp_all add: background_ok_def)
  have l: "lived env s'" by (rule lived_step [OF c(1) background(5) b(2)])
  show ?thesis
  proof (cases "jobs W p")
    case None
    then have a: "calls s destroyer_thread = NoCall" "\<forall>u. allowed others (calls s u)"
      using c(2) background(3) by (simp_all add: cell_ok_def)
    then have "\<forall>u. \<not> in_start (calls s u)" using allowed_not_start by blast
    then have "\<forall>u. allowed others (calls s' u)" using allowed_stays [OF background(5)] a(2) b(1) by blast
    moreover have "calls s' destroyer_thread = NoCall"
      using call_stays_idle [OF background(5) a(1)] b(1) by (auto simp: is_call_def)
    ultimately show ?thesis
      unfolding background(2) by (intro cells_ok_local [OF assms(3), of p])
        (use l None background(3) in \<open>auto simp: cell_ok_def\<close>)
  next
    case (Some j)
    then obtain t stage where j: "jobs W p = Some (t, stage)" by (cases j) auto
    then have o: "job_ok others t stage s" using c(2) background(3) by (simp add: cell_ok_def)
    have "job_ok others t stage s'"
      by (rule job_ok_step [OF o background(5) b(1) _ lived_control [OF c(1)]])
        (use background(6) j in \<open>auto simp: background_ok_def\<close>)
    then show ?thesis
      unfolding background(2) by (intro cells_ok_local [OF assms(3), of p])
        (use l j background(3) in \<open>auto simp: cell_ok_def\<close>)
  qed
next
  case (self_stopped p s t r s')
  note c = cells_okD [OF assms(3) self_stopped(3)]
  have o: "job_ok others t SelfStop s" "p \<notin> clients W"
    using c(2) self_stopped(4) owned_okD(2) [OF assms(4) self_stopped(3)]
    by (auto simp: cell_ok_def owner_ok_def split: if_splits)
  have "calls s' destroyer_thread = NoCall"
    using call_stays_idle [OF self_stopped(5)] o(1) by (simp add: job_ok_def)
  with job_return(1) [OF o(1) self_stopped(5)] job_lives [OF c(1) o(1) self_stopped(5)] o(2) show ?thesis
    unfolding self_stopped(2) by (intro cells_ok_local [OF assms(3), of p]) (auto simp: cell_ok_def)
next
  case (taken p d s)
  note c = cells_okD [OF assms(3) taken(4)]
  have o: "p \<notin> clients W" "calls s destroyer_thread = NoCall" "\<forall>u. allowed others (calls s u)"
    using c(2) taken(3) owned_okD(2) [OF assms(4) taken(4)]
    by (auto simp: take_value_iff cell_ok_def owner_ok_def split: if_splits option.splits)
  have a: "phase s destroyer_thread = Absent" using c(1) by (simp add: lived_def)
  have "lived env (set_call destroyer_thread StopEnter s)"
    by (rule lived_call [OF c(1)]) (use o(2) a in \<open>simp add: may_call_def\<close>)
  with fresh_job [of destroyer_thread others s FirstStop] o a show ?thesis
    unfolding taken(2) by (intro cells_ok_local [OF assms(3), of p]) (auto simp: cell_ok_def)
next
  case (first_stopped p s t r s')
  note c = cells_okD [OF assms(3) first_stopped(3)]
  have o: "job_ok others t FirstStop s" "p \<notin> clients W"
    using c(2) first_stopped(4) owned_okD(2) [OF assms(4) first_stopped(3)]
    by (auto simp: cell_ok_def owner_ok_def split: if_splits)
  have a: "phase s' t = Absent"
    using stop_returns_idle [OF first_stopped(5) lived_control [OF c(1)]] o(1) by (simp add: job_ok_def)
  note n = job_return [OF o(1) first_stopped(5)]
  have "lived env (set_call t StopEnter s')"
    by (rule lived_call [OF job_lives [OF c(1) o(1) first_stopped(5)]]) (use n(2) a in \<open>simp add: may_call_def\<close>)
  with fresh_job [of t others s' ImplStop] n(1) a o(2) show ?thesis
    unfolding first_stopped(2) by (intro cells_ok_local [OF assms(3), of p]) (auto simp: cell_ok_def)
next
  case (impl_stopped p s t r s')
  then show ?thesis by (intro cells_ok_local [OF assms(3), of p]) auto
qed (use assms(3) in \<open>auto simp: cells_ok_def cell_ok_def\<close>)

lemma orderly_cells: "orderly env others W \<Longrightarrow> cells_ok env others W"
proof (induction rule: orderly.induct)
  case orderly_init
  then show ?case by (simp add: cells_ok_def World_init_def)
next
  case (orderly_step W a W')
  then show ?case using cells_ok_step world_reachable_owned [OF orderly_reachable] by blast
qed

text \<open>When the last \<open>stop\<close> of a destruction returns, no call is about to join, or has joined and not said so.\<close>

lemma stop_returns_unjoined:
  assumes "lifecycle_step env s (Return t r) s'" "control_ok s" "stop_ok t s"
  shows "\<not> joining s" "phase s' = phase s"
proof -
  have k: "worker_ok s" "exited_ok s" using assms(2) by (simp_all add: control_ok_def)
  have n: "\<not> in_start (calls s t)" by (rule stop_okD(1) [OF assms(3)])
  have "\<not> joining s \<and> phase s' = phase s"
    using assms(1)
  proof (cases rule: lifecycle_step.cases)
    case (stop_decides u r')
    then have u: "stop_decide env t s = (Some r, s')" by (auto simp: outcome_label_def split: option.splits)
    then show ?thesis
    proof (cases rule: stop_decide_cases)
      case self
      have "phase s w \<noteq> Runs \<and> phase s w \<noteq> Closed" for w
        using worker_okD(4) [OF k(1), of w] self(2) stop_okD(2) [OF assms(3)] by auto
      moreover have "\<not> launching (calls s v)" for v
        using stop_okD(1) [OF assms(3)] saved_in_start launching_saved by blast
      ultimately show ?thesis using self(1) k(2) by (simp add: exited_ok_def)
    qed simp_all
  next
    case stop_notifies
    then show ?thesis using stop_okD(3) [OF assms(3)] by simp
  qed (use n in \<open>auto simp: outcome_label_def split: option.splits\<close>)
  then show "\<not> joining s" "phase s' = phase s" by simp_all
qed

section \<open>A destruction during a join\<close>

text \<open>
  An execution, step by step: thread 2 starts the client at 5, whose worker is thread 7;
  thread 3 calls \<open>stop\<close> and is about to join the worker; the callback destroys the client.
\<close>

definition one_client :: World where
  "one_client = (set_cell 5 (Lifecycle_init (Impl_init Config_default)) World_init)\<lparr>clients := {5}\<rparr>"

definition snap ::
    "Impl \<Rightarrow> thread_id option \<Rightarrow> thread_id option \<Rightarrow> bool \<Rightarrow> thread_id option \<Rightarrow> Call \<Rightarrow> Call \<Rightarrow> Call \<Rightarrow>
     Phase \<Rightarrow> Lifecycle" where
  "snap i x a j m c3 c7 c0 p =
     \<lparr>impl = i, worker = x, active_worker_id = a, joining = j, lifecycle_mutex = m,
      calls = (\<lambda>_. NoCall)(3 := c3, 7 := c7, destroyer_thread := c0), phase = (\<lambda>_. Absent)(7 := p)\<rparr>"

lemma destroyer_other [simp]: "destroyer_thread \<noteq> 3" "destroyer_thread \<noteq> 7" "3 \<noteq> destroyer_thread" "7 \<noteq> destroyer_thread"
  by (simp_all add: destroyer_thread_def)

lemma snap_fields [simp]:
  "impl (snap i x a j m c3 c7 c0 p) = i" "worker (snap i x a j m c3 c7 c0 p) = x"
  "active_worker_id (snap i x a j m c3 c7 c0 p) = a" "joining (snap i x a j m c3 c7 c0 p) = j"
  "lifecycle_mutex (snap i x a j m c3 c7 c0 p) = m"
  "calls (snap i x a j m c3 c7 c0 p) = (\<lambda>_. NoCall)(3 := c3, 7 := c7, destroyer_thread := c0)"
  "phase (snap i x a j m c3 c7 c0 p) = (\<lambda>_. Absent)(7 := p)"
  by (simp_all add: snap_def)

lemma snap_updates:
  "set_call 3 c (snap i x a j m c3 c7 c0 p) = snap i x a j m c c7 c0 p"
  "set_call 7 c (snap i x a j m c3 c7 c0 p) = snap i x a j m c3 c c0 p"
  "set_call destroyer_thread c (snap i x a j m c3 c7 c0 p) = snap i x a j m c3 c7 c p"
  "lock t (snap i x a j m c3 c7 c0 p) = snap i x a j (Some t) c3 c7 c0 p"
  "unlock (snap i x a j m c3 c7 c0 p) = snap i x a j None c3 c7 c0 p"
  "on_impl f (snap i x a j m c3 c7 c0 p) = snap (f i) x a j m c3 c7 c0 p"
  "set_phase 7 q (snap i x a j m c3 c7 c0 p) = snap i x a j m c3 c7 c0 q"
  "(snap i x a j m c3 c7 c0 p)\<lparr>joining := j', worker := x'\<rparr> = snap i x' a j' m c3 c7 c0 p"
  "reaped (snap i x a j m c3 c7 c0 p) = snap i x None False m c3 c7 c0 p"
  "notify_all (snap i x a j m c3 c7 c0 p) = snap i x a j m (wake c3) (wake c7) (wake c0) p"
  by (simp_all add: snap_def set_call_def lock_def unlock_def on_impl_def set_phase_def reaped_def notify_all_def
      fun_eq_iff)

text \<open>The world once the client is gone.\<close>

definition dying :: "Lifecycle \<Rightarrow> (thread_id \<times> Stage) option \<Rightarrow> DeferredDestroyer \<Rightarrow> World" where
  "dying s j d = \<lparr>heap = [5 \<mapsto> s], clients = {}, jobs = (\<lambda>_. None)(5 := j), destroyer = d\<rparr>"

lemma dying_fields [simp]:
  "heap (dying s j d) 5 = Some s" "clients (dying s j d) = {}" "jobs (dying s j d) 5 = j"
  "destroyer (dying s j d) = d"
  by (simp_all add: dying_def)

lemma dying_updates:
  "set_cell 5 s' (dying s j d) = dying s' j d" "set_job 5 j' (dying s j d) = dying s j' d"
  "on_destroyer f (dying s j d) = dying s j (f d)"
  by (simp_all add: dying_def set_cell_def set_job_def on_destroyer_def fun_eq_iff)

lemma one_client_orderly: "orderly env others one_client"
proof (rule orderly_step [OF orderly_init construct])
  show "Client_construct macos_arm64 (\<lambda>_. 0) Config_default 5 World_init = Inr one_client"
    by (simp add: Client_construct_def Impl_construct_def Config_default_accepted one_client_def World_init_def)
qed (simp_all add: World_init_def begins_orderly_def)

text \<open>The uses of the client.\<close>

lemma use_one_client:
  assumes "orderly env others (set_cell 5 s one_client)" "lifecycle_step env s l s'" "use_ok l s'"
  shows "orderly env others (set_cell 5 s' one_client)"
proof -
  have "world_step env (set_cell 5 s one_client) User (set_cell 5 s' (set_cell 5 s one_client))"
    by (rule use [OF _ _ assms(2,3)]) (simp_all add: one_client_def)
  moreover have "set_cell 5 s' (set_cell 5 s one_client) = set_cell 5 s' one_client" by (simp add: set_cell_def)
  ultimately show ?thesis using orderly_go assms(1) by fastforce
qed

lemma joined_orderly:
  fixes env :: Env
  defines "i \<equiv> stop_command env (stop_flag (start_flags True (start_reset (Impl_init Config_default))))"
  shows "orderly env others (set_cell 5 (snap i None (Some 7) True None (StopJoins 7) NoCall NoCall Runs) one_client)"
proof -
  let ?j = "start_flags True (start_reset (Impl_init Config_default))" and ?R = "\<lambda>s. orderly env others (set_cell 5 s one_client)"
  note step = use_one_client [where env = env and others = others]
  have "set_cell 5 (Lifecycle_init (Impl_init Config_default)) one_client = one_client"
    by (simp add: one_client_def set_cell_def)
  then have "?R (started_client (Impl_init Config_default))"
    by (intro first_start(2) [where R = ?R and env = env])
      (use one_client_orderly use_one_client in \<open>auto simp: use_ok_def Impl_init_ok destroyer_thread_def\<close>)
  moreover have "started_client (Impl_init Config_default) = snap ?j (Some 7) (Some 7) False None NoCall NoCall NoCall Runs"
    by (simp add: started_client_def snap_def fun_eq_iff)
  ultimately have "?R (snap ?j (Some 7) (Some 7) False None NoCall NoCall NoCall Runs)" by simp
  then have "?R (snap ?j (Some 7) (Some 7) False None StopEnter NoCall NoCall Runs)"
    by (rule step [where l = "CallStop 3"]) (use call_stop [of 3 "snap ?j (Some 7) (Some 7) False None NoCall NoCall NoCall Runs" env] in
      \<open>simp_all add: snap_updates may_call_def use_ok_def\<close>)
  then have "?R (snap (stop_flag ?j) (Some 7) (Some 7) False (Some 3) StopCommands NoCall NoCall Runs)"
    by (rule step [where l = "Internal 3"]) (use stop_enters [of "snap ?j (Some 7) (Some 7) False None StopEnter NoCall NoCall Runs" 3 env] in
      \<open>simp_all add: snap_updates use_ok_def\<close>)
  then show ?thesis
    by (rule step [OF _ stop_decides [of _ 3 env None]])
      (simp_all add: stop_decide_def Let_def called_from_worker_thread_def snap_updates use_ok_def i_def outcome_label_def)
qed

text \<open>
  The destroyer sleeps, the callback destroys the client, which stops it and pushes it: the
  notification is still to come.
\<close>

definition sleeping :: DeferredDestroyer where
  "sleeping = DeferredDestroyer_init\<lparr>asleep := True\<rparr>"

lemma dying_background:
  assumes "orderly env others (dying s j d)" "lifecycle_step env s l s'" "background_ok (dying s j d) 5 l s'"
  shows "orderly env others (dying s' j d)"
proof -
  have "world_step env (dying s j d) System (set_cell 5 s' (dying s j d))"
    by (rule background [OF _ _ assms(2,3)]) simp_all
  then show ?thesis using orderly_go assms(1) by (fastforce simp: dying_updates)
qed

lemma pushed_orderly:
  fixes env :: Env
  obtains i where "stopping i" "\<not> worker_exited i"
    "orderly env Joining (dying (snap i None (Some 7) True None (StopJoins 7) NoCall NoCall Runs) None (enqueue 7 5 sleeping))"
proof -
  let ?i = "stop_command env (stop_flag (start_flags True (start_reset (Impl_init Config_default))))"
  let ?s = "snap ?i None (Some 7) True None (StopJoins 7)" and ?k = "stop_command env (stop_flag ?i)"
  let ?W = "set_cell 5 (?s NoCall NoCall Runs) one_client"
  have "world_step env ?W Deferred (on_destroyer (\<lambda>_. sleeping) ?W)"
    by (rule waits) (simp add: wait_for_value_def one_client_def World_init_def DeferredDestroyer_init_def sleeping_def)
  then have "orderly env Joining (on_destroyer (\<lambda>_. sleeping) ?W)"
    by (rule orderly_go [OF _ joined_orderly]) simp
  moreover have "world_step env (on_destroyer (\<lambda>_. sleeping) ?W) (Destroys 7 5)
      (Client_destroy 7 5 (?s NoCall NoCall Runs) (on_destroyer (\<lambda>_. sleeping) ?W))"
    by (rule destroy) (simp_all add: one_client_def may_call_def)
  moreover have "Client_destroy 7 5 (?s NoCall NoCall Runs) (on_destroyer (\<lambda>_. sleeping) ?W) =
      dying (?s StopEnter NoCall Runs) (Some (7, SelfStop)) sleeping"
    by (simp add: Client_destroy_def called_from_worker_thread_def snap_updates dying_def one_client_def World_init_def
        set_cell_def set_job_def on_destroyer_def fun_eq_iff)
  ultimately have "orderly env Joining (dying (?s StopEnter NoCall Runs) (Some (7, SelfStop)) sleeping)"
    using orderly_step [of env Joining _ "Destroys 7 5"] by (fastforce simp: begins_orderly_def)
  then have "orderly env Joining (dying (snap (stop_flag ?i) None (Some 7) True (Some 7) (StopJoins 7) StopCommands NoCall Runs)
      (Some (7, SelfStop)) sleeping)"
    by (rule dying_background [where l = "Internal 7"]) (use stop_enters [of "?s StopEnter NoCall Runs" 7 env] in
      \<open>simp_all add: snap_updates background_ok_def is_call_def sleeping_def DeferredDestroyer_init_def\<close>)
  moreover have "lifecycle_step env (snap (stop_flag ?i) None (Some 7) True (Some 7) (StopJoins 7) StopCommands NoCall Runs)
      (Return 7 (Inr ())) (snap ?k None (Some 7) True None (StopJoins 7) NoCall NoCall Runs)"
    using stop_decides [of "snap (stop_flag ?i) None (Some 7) True (Some 7) (StopJoins 7) StopCommands NoCall Runs" 7 env]
    by (simp add: stop_decide_def Let_def called_from_worker_thread_def snap_updates outcome_label_def)
  ultimately have "orderly env Joining (dying (snap ?k None (Some 7) True None (StopJoins 7) NoCall NoCall Runs) None (enqueue 7 5 sleeping))"
    using orderly_go [OF self_stopped [of "dying _ (Some (7, SelfStop)) sleeping" 5]] by (fastforce simp: dying_updates)
  then show ?thesis by (intro that) (simp_all add: stopping_frame)
qed

text \<open>The value is taken; the worker ends; thread 3 joins it and is about to notify.\<close>

lemma taken_orderly:
  fixes env :: Env
  obtains i d where "stopping i" "\<not> worker_exited i" "current_value d = Some 5" "notifiers d = []" "5 \<in> set (enqueued d)"
    "orderly env Joining (dying (snap i None (Some 7) True None (StopJoins 7) NoCall StopEnter Runs)
       (Some (destroyer_thread, FirstStop)) d)"
proof -
  obtain i where i: "stopping i" "\<not> worker_exited i"
    and o: "orderly env Joining (dying (snap i None (Some 7) True None (StopJoins 7) NoCall NoCall Runs) None (enqueue 7 5 sleeping))"
    by (rule pushed_orderly)
  let ?s = "snap i None (Some 7) True None (StopJoins 7) NoCall NoCall Runs"
  let ?d1 = "(enqueue 7 5 sleeping)\<lparr>notifiers := [], asleep := False\<rparr>"
  let ?d2 = "?d1\<lparr>current_value := Some 5, pending := []\<rparr>"
  have "world_step env (dying ?s None (enqueue 7 5 sleeping)) Deferred (on_destroyer (\<lambda>_. ?d1) (dying ?s None (enqueue 7 5 sleeping)))"
    by (rule notified [where t = 7]) (simp add: notify_one_def sleeping_def DeferredDestroyer_init_def)
  from orderly_go [OF this o] have "orderly env Joining (dying ?s None ?d1)" by (simp add: dying_updates)
  moreover have "world_step env (dying ?s None ?d1) Deferred (set_job 5 (Some (destroyer_thread, FirstStop))
      (set_cell 5 (set_call destroyer_thread StopEnter ?s) (on_destroyer (\<lambda>_. ?d2) (dying ?s None ?d1))))"
    by (rule taken) (simp_all add: take_value_def sleeping_def DeferredDestroyer_init_def)
  ultimately have "orderly env Joining (dying (snap i None (Some 7) True None (StopJoins 7) NoCall StopEnter Runs)
       (Some (destroyer_thread, FirstStop)) ?d2)"
    using orderly_go by (fastforce simp: dying_updates snap_updates)
  with i show ?thesis by (intro that [of i ?d2]) (simp_all add: sleeping_def DeferredDestroyer_init_def)
qed

lemma notifying_orderly:
  fixes env :: Env
  obtains i d where "worker_exited i" "5 \<in> set (enqueued d)" "notifiers d = []"
    "orderly env Joining (dying (snap i None None False None StopNotifies NoCall StopEnter Absent)
       (Some (destroyer_thread, FirstStop)) d)"
proof -
  obtain i d where i: "stopping i" "notifiers d = []" "5 \<in> set (enqueued d)"
    and o: "orderly env Joining (dying (snap i None (Some 7) True None (StopJoins 7) NoCall StopEnter Runs)
       (Some (destroyer_thread, FirstStop)) d)" by (rule taken_orderly)
  let ?s = "\<lambda>i c. snap i None (Some 7) True None c NoCall StopEnter"
    and ?W = "\<lambda>s. dying s (Some (destroyer_thread, FirstStop)) d"
  let ?c = "net_close env (end_stream env i)" let ?x = "?c\<lparr>worker_exited := True\<rparr>" let ?y = "show_stopped ?x"
  note step = dying_background [where env = env and others = Joining and d = d]
  note b = background_ok_def is_call_def i(2) snap_updates
  have "orderly env Joining (?W (?s ?c (StopJoins 7) Closed))"
    by (rule step [where l = "Worker 7", OF o]) (use worker_closes [of "?s i (StopJoins 7) Runs" 7 env] i(1) in \<open>simp_all add: b\<close>)
  then have "orderly env Joining (?W (?s ?x (StopJoins 7) Exited))"
    by (rule step [where l = "Worker 7"]) (use worker_exits [of "?s ?c (StopJoins 7) Closed" 7 env] in \<open>simp_all add: b\<close>)
  then have "orderly env Joining (?W (?s ?y (StopJoins 7) Announces))"
    by (rule step [where l = "Worker 7"]) (use worker_finishes [of "?s ?x (StopJoins 7) Exited" 7 env] in \<open>simp_all add: b\<close>)
  then have "orderly env Joining (?W (?s ?y (StopJoins 7) Ended))"
    by (rule step [where l = "Worker 7"]) (use worker_announces [of "?s ?y (StopJoins 7) Announces" 7 env] in \<open>simp_all add: b\<close>)
  then have "orderly env Joining (?W (?s ?y StopJoined Absent))"
    by (rule step [where l = "Internal 3"]) (use stop_joins [of "?s ?y (StopJoins 7) Ended" 3 7 env] in \<open>simp_all add: b\<close>)
  then have "orderly env Joining (?W (snap (show_stopped ?y) None None False None StopNotifies NoCall StopEnter Absent))"
    by (rule step [where l = "Internal 3"]) (use stop_reaps [of "?s ?y StopJoined Absent" 3 env] in \<open>simp_all add: b\<close>)
  with i show ?thesis by (intro that [of "show_stopped ?y" d]) simp_all
qed

text \<open>A \<open>stop\<close> of the destroyer beside the thread that is about to notify.\<close>

lemma stop_beside_notifier:
  fixes env :: Env and i :: Impl
  defines "k \<equiv> show_stopped (stop_command env (stop_flag i))"
    and "s \<equiv> \<lambda>i m c. snap i None None False m StopNotifies NoCall c Absent"
  assumes "worker_exited i"
  shows "lifecycle_step env (s i None StopEnter) (Internal destroyer_thread) (s (stop_flag i) (Some destroyer_thread) StopCommands)"
    "lifecycle_step env (s (stop_flag i) (Some destroyer_thread) StopCommands) (Return destroyer_thread (Inr ())) (s k None NoCall)"
  using stop_enters [of "s i None StopEnter" destroyer_thread env]
    stop_decides [of "s (stop_flag i) (Some destroyer_thread) StopCommands" destroyer_thread env "Some (Inr ())"] assms(3)
  by (simp_all add: s_def k_def snap_updates stop_decide_def Let_def called_from_worker_thread_def outcome_label_def)

lemma raced_release:
  fixes env :: Env
  obtains W s W' where "orderly env Joining W" "heap W 5 = Some s" "calls s 3 = StopNotifies"
    "5 \<in> set (enqueued (destroyer W))" "world_step env W System W'" "heap W' 5 = None"
proof -
  obtain i d where i: "worker_exited i" "5 \<in> set (enqueued d)" "notifiers d = []"
    and o: "orderly env Joining (dying (snap i None None False None StopNotifies NoCall StopEnter Absent)
       (Some (destroyer_thread, FirstStop)) d)" by (rule notifying_orderly)
  let ?s = "\<lambda>i m c. snap i None None False m StopNotifies NoCall c Absent"
  let ?k = "show_stopped (stop_command env (stop_flag i))" and ?m = "Some destroyer_thread"
  have k: "worker_exited ?k" using i(1) by simp
  note b = background_ok_def is_call_def i(3)
  have "orderly env Joining (dying (?s (stop_flag i) ?m StopCommands) (Some (destroyer_thread, FirstStop)) d)"
    by (rule dying_background [OF o stop_beside_notifier(1) [OF i(1)]]) (simp add: b)
  then have "orderly env Joining (dying (?s ?k None StopEnter) (Some (destroyer_thread, ImplStop)) d)"
    using orderly_go [OF first_stopped [of "dying (?s (stop_flag i) ?m StopCommands) (Some (destroyer_thread, FirstStop)) d" 5,
        OF _ _ stop_beside_notifier(2) [OF i(1)]]] by (simp add: dying_updates snap_updates)
  then have o2: "orderly env Joining (dying (?s (stop_flag ?k) ?m StopCommands) (Some (destroyer_thread, ImplStop)) d)"
    by (rule dying_background [OF _ stop_beside_notifier(1) [OF k]]) (simp add: b)
  let ?W = "dying (?s (stop_flag ?k) ?m StopCommands) (Some (destroyer_thread, ImplStop)) d"
  have "world_step env ?W System (on_destroyer (value_destroyed 5) (set_job 5 None (release 5 ?W)))"
    by (rule impl_stopped [OF _ _ stop_beside_notifier(2) [OF k]]) simp_all
  then show ?thesis using that [OF o2, of "?s (stop_flag ?k) ?m StopCommands"] i(2) by simp
qed

section \<open>Properties\<close>

text \<open>
  C5. Storage is reclaimed only when the worker and the transport are done with it. Whatever
  calls of \<open>stop\<close> other threads have in progress when the destruction of a client begins, and
  also when its own callback destroys it: when the implementation is released, it is
  by the thread that carries the destruction out, in the \<open>stop\<close> of the destructor of the
  implementation; no thread executes its \<open>run\<close>; no descriptor of it is open; and no other call
  joins the worker or has to report a join. If nobody else was in a call when the destruction
  began, nobody is now; if others were joining, they have joined.
\<close>

theorem destruction_is_safe:
  assumes "orderly env others W" "fresh_os env"
    and "heap W p = Some s" "world_step env W a W'" "heap W' p = None"
  shows "\<exists>t. jobs W p = Some (t, ImplStop) \<and> (\<forall>w. phase s w = Absent) \<and> open_sockets (udp (impl s)) = [] \<and>
    (\<forall>u. u \<noteq> t \<longrightarrow> allowed others (calls s u) \<and> calls s u \<noteq> StopJoined \<and> (\<forall>w. calls s u \<noteq> StopJoins w)) \<and>
    (others = Nothing \<longrightarrow> (\<forall>u. u \<noteq> t \<longrightarrow> calls s u = NoCall)) \<and>
    (others = Joining \<longrightarrow> (\<forall>u. u \<noteq> t \<longrightarrow> calls s u \<in> {NoCall, StopNotifies}))"
proof -
  note o = cells_okD [OF orderly_cells [OF assms(1)] assms(3)]
  obtain t r s' where j: "jobs W p = Some (t, ImplStop)" and l: "lifecycle_step env s (Return t r) s'"
    using assms(4,3,5)
    by (cases rule: world_step.cases) (auto simp: Client_construct_def bind_result_eq_Inr_iff split: if_splits)
  have "owner_ok W p" using owned_okD(2) [OF world_reachable_owned [OF orderly_reachable [OF assms(1)]] assms(3)] .
  then have job: "job_ok others t ImplStop s" using o(2) j by (simp add: cell_ok_def owner_ok_def split: if_splits)
  then have st: "stop_ok t s" by (simp add: job_ok_def)
  have k: "control_ok s" by (rule lived_control [OF o(1)])
  note u = stop_returns_unjoined [OF l k st]
  have a: "\<forall>w. phase s w = Absent" using stop_returns_idle [OF l k st] u(2) by simp
  obtain plat now c i where i: "Impl_construct plat now c = Inr i" "reachable env i s"
    using o(1) unfolding lived_def by blast
  have "idle_ok s"
    using reachable_idle_ok [OF i(2) assms(2)] Impl_construct_ok(1) [OF i(1)] Impl_init_ok by blast
  with a have sockets: "open_sockets (udp (impl s)) = []" by (simp add: idle_ok_def transport_closed_def)
  have "\<not> is_reaper (calls s v)" for v using u(1) k by (auto simp: control_ok_def joining_ok_def)
  then have n: "calls s v \<noteq> StopJoined" "calls s v \<noteq> StopJoins w" for v w by (metis is_reaper.simps(3,4))+
  have others: "u \<noteq> t \<Longrightarrow> allowed others (calls s u)" for u using job by (simp add: job_ok_def)
  then have "others = Nothing \<Longrightarrow> u \<noteq> t \<Longrightarrow> calls s u = NoCall"
    "others = Joining \<Longrightarrow> u \<noteq> t \<Longrightarrow> calls s u \<in> {NoCall, StopNotifies}" for u
    using n by (auto simp: allowed_iff)
  with j a sockets others n show ?thesis by (intro exI [of _ t]) blast
qed

lemma destruction_is_safe_witness:
  "\<exists>W s t. orderly quiet_env Joining W \<and> heap W 5 = Some s \<and> jobs W 5 = Some (t, ImplStop) \<and>
     5 \<in> set (enqueued (destroyer W)) \<and> (\<forall>w. phase s w = Absent) \<and> open_sockets (udp (impl s)) = []"
proof -
  have f: "fresh_os quiet_env" by (simp add: fresh_os_def quiet_env_def fresh_sample_posix)
  obtain W s W' where W: "orderly quiet_env Joining W" "heap W 5 = Some s" "5 \<in> set (enqueued (destroyer W))"
    "world_step quiet_env W System W'" "heap W' 5 = None" by (rule raced_release)
  from destruction_is_safe [OF W(1) f W(2,4,5)] W show ?thesis by blast
qed

text \<open>
  C38. A release that comes too early. The release notes promise that a destruction from the
  callback is safe while another thread joins the worker. The joining \<open>stop\<close> clears \<open>joining_\<close>,
  gives up the lifecycle mutex, and only then notifies \<open>lifecycle_cv_\<close> and \<open>first_sample_cv_\<close>. In
  between, the deferred destroyer can run both of its \<open>stop\<close> calls to the end and release the
  implementation: an orderly world is reachable in which a client that was destroyed from
  its callback is about to be released, while another thread has still to notify on the
  condition variables that are released with it.
\<close>

theorem release_precedes_notification:
  "\<exists>W s W'. orderly env Joining W \<and> heap W 5 = Some s \<and> 5 \<in> set (enqueued (destroyer W)) \<and>
     calls s 3 = StopNotifies \<and> world_step env W System W' \<and> heap W' 5 = None"
  by (rule raced_release [of env]) blast

text \<open>
  C19. No implementation is lost and the deferred destroyer is a queue. Every implementation
  on the heap belongs to exactly one of a client, a destruction in progress, or the queue of
  the deferred destroyer. The values enqueued are, in this order, those already reclaimed,
  the one in work, and those that wait.
\<close>

theorem deferred_destruction_accounts:
  assumes "world_reachable env W"
  shows "(heap W p \<noteq> None \<longleftrightarrow> p \<in> clients W \<or> jobs W p \<noteq> None \<or> p \<in> set (pending (destroyer W))) \<and>
    \<not> (p \<in> clients W \<and> jobs W p \<noteq> None) \<and> \<not> (p \<in> clients W \<and> p \<in> set (pending (destroyer W))) \<and>
    \<not> (jobs W p \<noteq> None \<and> p \<in> set (pending (destroyer W))) \<and>
    enqueued (destroyer W) = reclaimed (destroyer W) @
      (case current_value (destroyer W) of None \<Rightarrow> [] | Some v \<Rightarrow> [v]) @ pending (destroyer W)"
proof -
  note o = world_reachable_owned [OF assms]
  show ?thesis
  proof (cases "heap W p")
    case None
    then show ?thesis using owned_okD(1,3) [OF o] by (simp add: empty_ok_def queue_ok_def)
  next
    case (Some s)
    then show ?thesis using owned_okD(2) [OF o Some] owned_okD(3) [OF o]
      by (auto simp: owner_ok_def queue_ok_def split: if_splits option.splits)
  qed
qed

lemma deferred_destruction_accounts_witness:
  "\<exists>W. world_reachable quiet_env W \<and> heap W 5 \<noteq> None \<and> 5 \<in> set (pending (destroyer W)) \<and> 5 \<notin> clients W \<and>
     jobs W 5 = None"
proof -
  obtain i where "orderly quiet_env Joining
      (dying (snap i None (Some 7) True None (StopJoins 7) NoCall NoCall Runs) None (enqueue 7 5 sleeping))"
    by (rule pushed_orderly)
  from deferred_destruction_accounts [OF orderly_reachable [OF this], of 5] orderly_reachable [OF this]
  show ?thesis by (intro exI) (auto simp: sleeping_def)
qed

text \<open>
  C39. No wake-up of the deferred destroyer is lost. While a value is pending and the
  destroyer works on none, a step of the destroyer or of a thread in \<open>enqueue\<close> is always
  possible, and each such step takes the first value, or leaves the queue as it is and is one
  of the notifications that are still to come: their number bounds the steps until the value
  is taken. No spurious wake-up is needed.
\<close>

theorem destruction_makes_progress:
  assumes "world_reachable env W" "pending (destroyer W) \<noteq> []" "current_value (destroyer W) = None"
  shows "(\<exists>W'. world_step env W Deferred W') \<and>
    (\<forall>W'. world_step env W Deferred W' \<longrightarrow>
       current_value (destroyer W') = Some (hd (pending (destroyer W))) \<and>
         pending (destroyer W') = tl (pending (destroyer W)) \<or>
       current_value (destroyer W') = None \<and> pending (destroyer W') = pending (destroyer W) \<and>
         length (notifiers (destroyer W')) < length (notifiers (destroyer W)))"
proof (intro conjI allI impI)
  note o = world_reachable_owned [OF assms(1)]
  obtain v vs where v: "pending (destroyer W) = v # vs" using assms(2) by (cases "pending (destroyer W)") auto
  show "\<exists>W'. world_step env W Deferred W'"
  proof (cases "asleep (destroyer W)")
    case True
    then have "notifiers (destroyer W) \<noteq> []" using owned_okD(3) [OF o] assms(2) by (simp add: queue_ok_def)
    then have "\<exists>d. notify_one (hd (notifiers (destroyer W))) (destroyer W) = Some d" by (simp add: notify_one_def)
    then show ?thesis using notified by blast
  next
    case False
    have "heap W v \<noteq> None" using owned_okD(1) [OF o, of v] v by (auto simp: empty_ok_def)
    moreover have "\<exists>d. take_value (destroyer W) = Some (v, d)" using False v assms(3) by (simp add: take_value_iff)
    ultimately show ?thesis using taken by fast
  qed
  fix W' assume "world_step env W Deferred W'"
  then show "current_value (destroyer W') = Some (hd (pending (destroyer W))) \<and>
         pending (destroyer W') = tl (pending (destroyer W)) \<or>
       current_value (destroyer W') = None \<and> pending (destroyer W') = pending (destroyer W) \<and>
         length (notifiers (destroyer W')) < length (notifiers (destroyer W))"
    by (cases rule: world_step.cases)
      (use assms(2,3) in \<open>auto simp: destroyer_steps_iff take_value_iff length_remove1 dest: length_pos_if_in_set\<close>)
qed

lemma destruction_makes_progress_witness:
  "\<exists>W W'. world_reachable quiet_env W \<and> asleep (destroyer W) \<and> pending (destroyer W) = [5] \<and>
     world_step quiet_env W Deferred W'"
proof -
  obtain i where "orderly quiet_env Joining
      (dying (snap i None (Some 7) True None (StopJoins 7) NoCall NoCall Runs) None (enqueue 7 5 sleeping))"
    by (rule pushed_orderly)
  note W = orderly_reachable [OF this]
  have d: "pending (enqueue 7 5 sleeping) = [5]" "current_value (enqueue 7 5 sleeping) = None"
    "asleep (enqueue 7 5 sleeping)" by (simp_all add: sleeping_def DeferredDestroyer_init_def)
  from destruction_makes_progress [OF W] d W show ?thesis by (metis dying_fields(4) not_Cons_self2)
qed

end
