(* ===== verification/Spec2Isabelle.thy ===== *)
theory Spec2Isabelle
  imports Sequence Time Types Status Protocol Fault_Latch Xml_Config Discovery Udp_Transport Udp_Lifetime
    Client_Impl Client_Session Client_Worker Client_Run
    Lifecycle Lifecycle_Inv Lifecycle_Data Lifecycle_Start Lifecycle_Progress First_Sample Client
begin

text \<open>
  A verification of netft, a C++ client for ATI Net F/T force/torque sensors. The sensor
  publishes its calibration as an XML document over HTTP and streams 36-byte RDT records
  over UDP. The client discovers the calibration, opens a session, checks and scales every
  record, hands samples to a callback, and recovers from failures or stops at the first
  one, as configured.

  \<^bold>\<open>Parts and theories.\<close> Each theory models one part of the program, function by function, with
  the names of the code (\<open>src/include/netft\<close> and \<open>src/src\<close> in the repository).

  \<^item> \<open>Prelude\<close>: results with exceptions as values (\<open>exn\<close>, with \<open>UndefinedBehaviour\<close> for an
    operation the language leaves undefined and \<open>Terminated\<close> for \<open>std::terminate\<close>), machine
    words, decimal printing, runs of a stateful operation over a list.
  \<^item> \<open>Floating\<close>: binary floating point with a format and a rounding direction, as rationals
    with explicit rounding, infinities and NaN. The sign of a zero is not kept: no
    operation of the program depends on it.
  \<^item> \<open>Time\<close> (\<open>detail/time.hpp\<close>): durations and deadlines of the steady clock over a record of
    platform properties (format of \<open>long double\<close>, range of \<open>long\<close>, tick, rounding direction).
  \<^item> \<open>Types\<close> (\<open>types.hpp\<close>, \<open>types.cpp\<close>): enumerations, structures, names, validation.
  \<^item> \<open>Status\<close> (\<open>status.cpp\<close>): the status word.
  \<^item> \<open>Protocol\<close> (\<open>detail/protocol.cpp\<close>): requests and records on bytes.
  \<^item> \<open>Sequence\<close> (\<open>detail/sequence.cpp\<close>): the RDT and F/T sequence trackers.
  \<^item> \<open>Fault_Latch\<close> (\<open>detail/fault_latch.cpp\<close>): the first fault.
  \<^item> \<open>Xml_Config\<close> (\<open>detail/xml_config.cpp\<close>): scanner, field extraction, number and unit parsers.
  \<^item> \<open>Discovery\<close> (\<open>discovery.cpp\<close>): options, request, bounded response, outcome.
  \<^item> \<open>Udp_Transport\<close> (\<open>detail/udp_transport.hpp\<close> with its POSIX and WinSock implementations);
    \<open>Udp_Lifetime\<close>: its construction and destruction, and the start-up of WinSock.
  \<^item> \<open>Client_Impl\<close> (\<open>detail/client_impl.hpp\<close>, \<open>client_impl.cpp\<close>): the client's state and the
    sections it runs under its mutexes: decision on a record, sample, counters, revisions.
  \<^item> \<open>Client_Session\<close> (\<open>client_impl.cpp\<close>): \<open>handle_record\<close>, \<open>receive_session\<close>, \<open>run\<close>, and the calls
    of other threads, composed as the code composes them.
  \<^item> \<open>Client_Worker\<close>: invariants of the worker under interference.
  \<^item> \<open>Client_Run\<close>: what a whole run of the worker guarantees.
  \<^item> \<open>Lifecycle\<close> (\<open>client_impl.cpp\<close>): \<open>start\<close>, \<open>stop\<close> and the thread of the worker as a step relation
    over any number of threads, with a program counter for each call in progress.
    \<open>Lifecycle_Inv\<close>: the invariant of the control state; \<open>Lifecycle_Data\<close>: predicates on the data
    that survive the lifecycle, and the worker's place in it; \<open>Lifecycle_Start\<close>: the creation of
    the thread and its roll-back, the life of a client, the results of \<open>start\<close>;
    \<open>Lifecycle_Progress\<close>: progress, termination, the results of \<open>stop\<close>.
  \<^item> \<open>First_Sample\<close> (\<open>client_impl.cpp\<close>): \<open>wait_for_first_sample\<close>.
  \<^item> \<open>Client\<close> (\<open>client.hpp\<close>, \<open>client.cpp\<close>): the public client, its destruction, and the deferred
    destroyer with its wait and its notifications.

  \<^bold>\<open>Interaction.\<close> \<open>run\<close> repeats sessions. A session takes the configuration from the override or
  from \<open>discover_sensor\<close>, which uses the parser; it connects the transport, sends the start
  request, and for each datagram runs the decoder, both trackers and the status
  classification, then the callback. Faults go to the latch and the health record together.
  In the model the worker yields before each of its steps; what other threads did in
  between is a function \<open>interference\<close>, required (\<open>benign\<close>) to be a sequence of the steps of
  \<open>stop\<close>, \<open>bias\<close> and \<open>health\<close> that the mutexes make atomic. The theorems on the worker hold for
  every such function, hence for every interleaving. Clock readings, system calls, libcurl
  and the callback are functions of the number of the step.

  The lifecycle takes the view of all threads at once: \<open>lifecycle_step\<close> has one rule for each
  section of \<open>start\<close> and \<open>stop\<close> between two operations on \<open>lifecycle_mutex_\<close> or \<open>lifecycle_cv_\<close>
  (the section that creates the thread is divided further, where readers can see its
  intermediate states), and for each section of the worker, and \<open>reachable\<close> is every state some schedule leads to. A
  wait on the condition variable is the test of the predicate, the release of the mutex, the
  sleep, the wake-up by a notification or a spurious one, and the test again, each a step
  of its own, so that notifications can be missed as in the code. That the worker of this
  relation is the function \<open>run\<close> is a theorem. The record section and the data section of the
  reset in \<open>start\<close> are one step (\<open>start_reset\<close>), and so are the reset of the latch and the publish
  of a roll-back (\<open>rollback_fault\<close>); the states in between are not modelled. The public client
  adds a heap of implementations on top: clients are constructed, used and destroyed by any
  thread, the callback's included, also while other threads are in calls on them, and
  \<open>world_step\<close> interleaves them with the deferred destroyer: its push, notification, sleep,
  wake-up and removal are steps of their own.

  \<^bold>\<open>Interfaces.\<close> Locales state what one part relies on of another, and are interpreted on the
  model's own definitions: \<open>counter_tracker\<close> (both trackers), \<open>named_enum\<close> (names of units),
  \<open>first_wins\<close> (the latch), \<open>transport\<close> (both backends), and \<open>session_steps\<close>, \<open>session_invariant\<close>,
  \<open>data_steps\<close>, \<open>data_invariant\<close> (what a predicate has to survive to hold during a session or a
  whole run), interpreted for samples, sockets, faults and configuration.
  \<open>step_invariant\<close>, \<open>impl_invariant\<close> and \<open>lifecycle_data\<close> lift such predicates to every reachable state of the
  lifecycle.

  \<^bold>\<open>What is shown.\<close>
  \<^item> Numbers: conversions never leave the range of the target type; a validated calibration
    scales every 32-bit count to a finite value in every rounding direction; the delays of
    every run double exactly and start over after a session with a record. One conversion in
    \<open>discovery.cpp\<close> can be undefined on a platform where \<open>long double\<close> is no wider than \<open>double\<close>.
  \<^item> Data: records, unit names and sensor documents round-trip; parsing and discovery end in
    a valid configuration or a discovery error; the response is bounded.
  \<^item> Sequences: the 32-bit RDT tracker refines a tracker over unbounded numbers, and losses
    add up, as long as records stay within half the counter range of the highest one; a sensor
    restart is recognized from a high counter followed by two low records and only then.
  \<^item> Transport: no descriptor leaks, a stopped transport does not wait, a receive returns,
    the WinSock library is started and released in balance.
  \<^item> Client: what becomes of every record on every branch (\<open>record_fate\<close> is the specification)
    and how it is counted; the state a run ends in; when
    each recovery policy gives up; a requested stop ends the worker; a bias does not count
    as loss; revisions and rates mean what they say.
  \<^item> Lifecycle: there is at most one worker and no thread joins itself; what \<open>start\<close> returns and
    leaves behind on every path, a failed thread creation included; what \<open>stop\<close> guarantees
    when it returns; calls do not deadlock and do not loop. One wake-up can be lost: \<open>start\<close>
    can sleep on after a faulted worker has exited. \<open>wait_for_first_sample\<close> reports the run it
    was called in.
  \<^item> Destruction: an implementation is released only when its worker is joined and its
    descriptors are closed; none is lost; no wake-up of the deferred destroyer is lost. One
    release comes too early: when a callback destroys its client while another thread joins the
    worker, that thread may still have to notify the condition variables of the released object.

  \<^bold>\<open>Bounds.\<close> Loops that end by structure are plain recursion, the scanner by the length of the
  remaining text. The waits of the transport and the loops of the worker have a number of
  rounds as argument and give \<open>None\<close> beyond it; the theorems on returning say which number
  is enough: the clock readings until the deadline, and the worker's steps until the stop.

  \<^bold>\<open>Assumptions on callers.\<close> No thread begins a call into a client after its destruction has
  begun: the usual rule for the lifetime of an object, which \<open>client.hpp\<close> states for the callback
  only. What other threads may be doing when it begins is not restricted by \<open>world_step\<close>; where
  a theorem needs a restriction it has the hypothesis \<open>orderly\<close>. A \<open>wait_for_first_sample\<close> in
  progress during a destruction is not considered. The thread of the deferred destroyer makes
  no other calls. A
  thread id is reused only after its thread was joined. The operating system hands out
  descriptors that are not in use. libcurl keeps its documented callback contract.

  \<^bold>\<open>Not modelled.\<close> Failures of mutexes and of memory allocation, except where the code handles
  them explicitly; a WinSock start-up that fails inside the constructor of a client (it is
  modelled for the transport alone); the release of libcurl's handles; the option that
  libcurl before 7.85 uses in place of \<open>CURLOPT_PROTOCOLS_STR\<close>; test hooks; export macros. In
  number parsing, hexadecimal notation.
\<close>

end
